(* ===== verification/Prelude.thy ===== *)
theory Prelude
  imports Main "HOL-Library.AList" "HOL-Library.Multiset"
begin

text \<open>
  What every component of the broker shares.

  \<^item> A Go statement either completes or panics. \<open>'a outcome\<close> holds the two cases, \<open>and_then\<close>
    is the sequencing of statements, and \<open>each\<close> is a \<^verbatim>\<open>for ... range\<close> loop whose body may panic.
  \<^item> A Go map is an association list with distinct keys (\<open>gomap_ok\<close>): \<open>map_of\<close> is the lookup,
    \<open>AList.update\<close> the assignment and \<open>AList.delete\<close> the builtin \<^verbatim>\<open>delete\<close>. The order of the list
    is the order in which one \<^verbatim>\<open>range\<close> visits the entries, which the language leaves open.
  \<^item> A Go \<^verbatim>\<open>map[K]bool\<close> that only ever stores \<^verbatim>\<open>true\<close> is a list without repetitions, updated by
    \<open>List.insert\<close> and \<open>removeAll\<close>.
  \<^item> A Go slice or map that may be nil is a \<open>slice\<close>; \<open>elems\<close> is what indexing, \<^verbatim>\<open>len\<close> and \<^verbatim>\<open>range\<close> see of it. Where
    the program cannot tell nil from empty, a plain list is used.
  \<^item> The locale \<open>fanout\<close> states what a non-blocking send to one subscriber promises, and proves
    once what a loop of such sends over all subscribers does; \<open>counted_fanout\<close> adds the counter
    some of the loops keep.
\<close>

named_theorems outcome_simps \<open>equations of outcomes, loops and slices\<close>
named_theorems gomap_simps \<open>lookups in updated Go maps\<close>

type_synonym 'a slice = "'a list option"

primrec elems :: "'a slice \<Rightarrow> 'a list" where
  "elems None = []"
| "elems (Some xs) = xs"

section \<open>Statements that may panic\<close>

datatype go_panic =
    SendOnClosedChannel
  | CloseOfClosedChannel
  | NilDereference
  | SliceOutOfRange
  | NilMapAssignment

datatype 'a outcome = Done 'a | Panic go_panic

primrec and_then :: "'a outcome \<Rightarrow> ('a \<Rightarrow> 'b outcome) \<Rightarrow> 'b outcome" where
  "and_then (Done x) f = f x"
| "and_then (Panic p) f = Panic p"

fun each :: "('a \<Rightarrow> 's \<Rightarrow> 's outcome) \<Rightarrow> 'a list \<Rightarrow> 's \<Rightarrow> 's outcome" where
  "each f [] s = Done s"
| "each f (x # xs) s = and_then (f x s) (each f xs)"

definition slice_to :: "nat \<Rightarrow> 'a list \<Rightarrow> 'a list outcome" where
  "slice_to n xs = (if n \<le> length xs then Done (take n xs) else Panic SliceOutOfRange)"

definition slice_from :: "nat \<Rightarrow> 'a list \<Rightarrow> 'a list outcome" where
  "slice_from n xs = (if n \<le> length xs then Done (drop n xs) else Panic SliceOutOfRange)"

lemma and_then_Done_right [outcome_simps]: "and_then m Done = m"
  by (cases m) simp_all

lemma and_then_Done_pair [outcome_simps]: "and_then m (\<lambda>(x, y). Done (x, y)) = m"
  by (cases m) auto

lemma and_then_assoc [outcome_simps]:
  "and_then (and_then m f) g = and_then m (\<lambda>x. and_then (f x) g)"
  by (cases m) simp_all

lemma and_then_eq_Done [simp]: "and_then m f = Done y \<longleftrightarrow> (\<exists>x. m = Done x \<and> f x = Done y)"
  by (cases m) simp_all

lemma and_then_eq_Panic: "and_then m f = Panic p \<longleftrightarrow> m = Panic p \<or> (\<exists>x. m = Done x \<and> f x = Panic p)"
  by (cases m) simp_all

lemma each_append: "each f (xs @ ys) s = and_then (each f xs s) (each f ys)"
proof (induction xs arbitrary: s)
  case (Cons x xs)
  then show ?case by (cases "f x s") simp_all
qed simp

text \<open>The loop rule: an invariant under which the body cannot panic is kept by the whole loop.\<close>

lemma each_invariant:
  assumes "\<And>x s. x \<in> set xs \<Longrightarrow> I s \<Longrightarrow> \<exists>s'. f x s = Done s' \<and> I s'" and "I s"
  shows "\<exists>s'. each f xs s = Done s' \<and> I s'"
  using assms
proof (induction xs arbitrary: s)
  case Nil
  then show ?case by simp
next
  case (Cons x xs)
  then obtain t where "f x s = Done t" and "I t" by (meson list.set_intros(1))
  then show ?case using Cons.IH [of t] Cons.prems(1) by simp
qed

text \<open>Two nested \<^verbatim>\<open>range\<close> loops are one loop over the pairs they visit.\<close>

definition pairs_of :: "('k \<times> 'v list) list \<Rightarrow> ('k \<times> 'v) list" where
  "pairs_of m = concat (map (\<lambda>(k, vs). map (Pair k) vs) m)"

lemma each_map: "each f (map g xs) s = each (\<lambda>x. f (g x)) xs s"
proof (induction xs arbitrary: s)
  case (Cons x xs)
  then show ?case by (cases "f (g x) s") simp_all
qed simp

lemma each_nested:
  "each (\<lambda>(k, vs) st. each (f k) vs st) m s = each (\<lambda>(k, v). f k v) (pairs_of m) s"
proof (induction m arbitrary: s)
  case Nil
  then show ?case by (simp add: pairs_of_def)
next
  case (Cons x m)
  obtain k vs where x: "x = (k, vs)" by fastforce
  have "each (f k) vs s = each (\<lambda>(k, v). f k v) (map (Pair k) vs) s"
    by (simp add: each_map)
  moreover have "pairs_of (x # m) = map (Pair k) vs @ pairs_of m"
    by (simp add: pairs_of_def x)
  moreover have "each (\<lambda>(k, vs) st. each (f k) vs st) m = each (\<lambda>(k, v). f k v) (pairs_of m)"
    using Cons.IH by (rule ext)
  ultimately show ?case by (simp add: x each_append)
qed

section \<open>Go maps\<close>

type_synonym ('k, 'v) gomap = "('k \<times> 'v) list"

definition gomap_ok :: "('k, 'v) gomap \<Rightarrow> bool" where
  "gomap_ok m \<longleftrightarrow> distinct (map fst m)"

lemma gomap_ok_Nil [simp]: "gomap_ok []"
  by (simp add: gomap_ok_def)

lemma gomap_ok_update [simp]: "gomap_ok m \<Longrightarrow> gomap_ok (AList.update k v m)"
  by (simp add: gomap_ok_def distinct_update)

lemma gomap_ok_delete [simp]: "gomap_ok m \<Longrightarrow> gomap_ok (AList.delete k m)"
  by (simp add: gomap_ok_def distinct_delete)

lemma gomap_ok_filter [simp]: "gomap_ok m \<Longrightarrow> gomap_ok (filter P m)"
  by (simp add: gomap_ok_def distinct_map_filter)

lemma map_of_update [simp, gomap_simps]: "map_of (AList.update k v m) = (map_of m)(k \<mapsto> v)"
  by (simp add: update_conv')

lemma map_of_delete [simp, gomap_simps]: "map_of (AList.delete k m) = (map_of m)(k := None)"
  by (simp add: delete_conv')

lemma gomap_get_iff: "gomap_ok m \<Longrightarrow> map_of m k = Some v \<longleftrightarrow> (k, v) \<in> set m"
  by (simp add: gomap_ok_def map_of_eq_Some_iff)

lemma gomap_values: "gomap_ok m \<Longrightarrow> v \<in> set (map snd m) \<longleftrightarrow> (\<exists>k. map_of m k = Some v)"
  by (auto simp: gomap_get_iff image_iff) force

lemma gomap_keys: "k \<in> set (map fst m) \<longleftrightarrow> (\<exists>v. map_of m k = Some v)"
  by (metis dom_map_of_conv_image_fst domIff image_set not_None_eq)

lemma map_of_filter_key [gomap_simps]:
  "map_of (filter (\<lambda>(k, v). P k) m) k = (if P k then map_of m k else None)"
  by (induction m) auto

lemma map_of_filter:
  "gomap_ok m \<Longrightarrow> map_of (filter (\<lambda>(k, v). P k v) m) k =
     (case map_of m k of None \<Rightarrow> None | Some v \<Rightarrow> if P k v then Some v else None)"
  by (induction m) (auto simp: gomap_ok_def image_iff split: option.splits dest!: map_of_SomeD)

text \<open>A Go map whose values are sets; a missing key reads as the empty set.\<close>

definition members :: "('k, 'v list) gomap \<Rightarrow> 'k \<Rightarrow> 'v list" where
  "members m k = (case map_of m k of None \<Rightarrow> [] | Some vs \<Rightarrow> vs)"

lemma members_update [simp, gomap_simps]:
  "members (AList.update k vs m) = (members m)(k := vs)"
  by (auto simp: members_def fun_eq_iff)

lemma members_delete [simp, gomap_simps]:
  "members (AList.delete k m) = (members m)(k := [])"
  by (auto simp: members_def fun_eq_iff)

lemma in_pairs_of: "(k, v) \<in> set (pairs_of m) \<longleftrightarrow> (\<exists>vs. (k, vs) \<in> set m \<and> v \<in> set vs)"
  by (induction m) (auto simp: pairs_of_def)

lemma set_pairs_of: "gomap_ok m \<Longrightarrow> (k, v) \<in> set (pairs_of m) \<longleftrightarrow> v \<in> set (members m k)"
  by (cases "map_of m k") (simp_all add: in_pairs_of members_def flip: gomap_get_iff)

lemma distinct_pairs_of:
  assumes "gomap_ok m" and "\<And>k. distinct (members m k)"
  shows "distinct (pairs_of m)"
  using assms
proof (induction m)
  case Nil
  then show ?case by (simp add: pairs_of_def)
next
  case (Cons x m)
  obtain k vs where x: "x = (k, vs)" by fastforce
  have "distinct (members m l)" for l
  proof (cases "l = k")
    case True
    then have "map_of m l = None"
      using Cons.prems(1) x by (auto simp: gomap_ok_def map_of_eq_None_iff)
    then show ?thesis by (simp add: members_def)
  next
    case False
    then show ?thesis using Cons.prems(2) [of l] x by (simp add: members_def)
  qed
  moreover have ok: "gomap_ok m" using Cons.prems(1) x by (simp add: gomap_ok_def)
  moreover have "distinct vs" using Cons.prems(2) [of k] x by (simp add: members_def)
  moreover have "(k, v) \<notin> set (pairs_of m)" for v
    using Cons.prems(1) x by (auto simp: in_pairs_of gomap_ok_def image_iff)
  moreover have "pairs_of (x # m) = map (Pair k) vs @ pairs_of m"
    by (simp add: pairs_of_def x)
  ultimately show ?case
    using Cons.IH by (auto simp: distinct_map inj_on_def)
qed

section \<open>Loops of non-blocking sends\<close>

text \<open>
  \<open>offer d r s\<close> is one \<^verbatim>\<open>select { case r.ch <- d: default: }\<close> in state \<open>s\<close>. \<open>inbox s r\<close> is what
  subscriber \<open>r\<close> has waiting, \<open>space s r\<close> says that its buffer is not full and \<open>live s r\<close> that it
  exists and its channel is open.
\<close>

locale fanout =
  fixes offer :: "'d \<Rightarrow> 'r \<Rightarrow> 's \<Rightarrow> 's outcome"
    and inbox :: "'s \<Rightarrow> 'r \<Rightarrow> 'd list"
    and space :: "'s \<Rightarrow> 'r \<Rightarrow> bool"
    and live :: "'s \<Rightarrow> 'r \<Rightarrow> bool"
  assumes offer_live: "live s r \<Longrightarrow> \<exists>s'. offer d r s = Done s'"
    and offer_inbox: "offer d r s = Done s' \<Longrightarrow>
      inbox s' q = (if q = r \<and> space s r then inbox s r @ [d] else inbox s q)"
    and offer_space: "offer d r s = Done s' \<Longrightarrow> q \<noteq> r \<Longrightarrow> space s' q = space s q"
    and offer_keeps_live: "offer d r s = Done s' \<Longrightarrow> live s' q = live s q"
begin

lemma each_offer_returns:
  "\<forall>r \<in> set rs. live s r \<Longrightarrow> \<exists>s'. each (offer d) rs s = Done s'"
proof (induction rs arbitrary: s)
  case Nil
  then show ?case by simp
next
  case (Cons r rs)
  then obtain t where t: "offer d r s = Done t" using offer_live by (meson list.set_intros(1))
  with Cons.prems have "\<forall>q \<in> set rs. live t q" by (simp add: offer_keeps_live)
  with t Cons.IH show ?case by simp
qed

lemma each_offer_live: "each (offer d) rs s = Done s' \<Longrightarrow> live s' q = live s q"
proof (induction rs arbitrary: s)
  case (Cons r rs)
  then obtain t where t: "offer d r s = Done t" and rest: "each (offer d) rs t = Done s'"
    by auto
  from Cons.IH [OF rest] offer_keeps_live [OF t] show ?case by simp
qed simp

lemma each_offer_space:
  "each (offer d) rs s = Done s' \<Longrightarrow> q \<notin> set rs \<Longrightarrow> space s' q = space s q"
proof (induction rs arbitrary: s)
  case (Cons r rs)
  then obtain t where t: "offer d r s = Done t" and rest: "each (offer d) rs t = Done s'"
    by auto
  from Cons.IH [OF rest] offer_space [OF t] Cons.prems(2) show ?case by simp
qed simp

text \<open>Every subscriber of a loop without repetitions gets the item exactly once, at the end of its
  queue, if it has space; nobody else gets anything.\<close>

lemma each_offer_inbox:
  "each (offer d) rs s = Done s' \<Longrightarrow> distinct rs \<Longrightarrow>
   inbox s' q = (if q \<in> set rs \<and> space s q then inbox s q @ [d] else inbox s q)"
proof (induction rs arbitrary: s)
  case Nil
  then show ?case by simp
next
  case (Cons r rs)
  then obtain t where t: "offer d r s = Done t" and rest: "each (offer d) rs t = Done s'"
    by auto
  from Cons.IH [OF rest] Cons.prems(2)
  have "inbox s' q = (if q \<in> set rs \<and> space t q then inbox t q @ [d] else inbox t q)"
    by simp
  with t Cons.prems(2) show ?case
    by (cases "q = r") (auto simp: offer_inbox [OF t] offer_space [OF t])
qed

text \<open>The order in which the loop visits the subscribers cannot be observed.\<close>

lemma each_offer_order:
  assumes "each (offer d) rs s = Done s1" and "each (offer d) qs s = Done s2"
    and "distinct rs" and "distinct qs" and "set rs = set qs"
  shows "inbox s1 = inbox s2"
  using assms by (auto simp: each_offer_inbox)

end

locale counted_fanout = fanout offer inbox space live
  for offer :: "'d \<Rightarrow> 'r \<Rightarrow> 's \<Rightarrow> 's outcome" and inbox space live +
  fixes tally :: "'s \<Rightarrow> nat"
  assumes offer_tally: "offer d r s = Done s' \<Longrightarrow>
      tally s' = (if space s r then Suc (tally s) else tally s)"
begin

lemma each_offer_tally:
  "each (offer d) rs s = Done s' \<Longrightarrow> distinct rs \<Longrightarrow>
   tally s' = tally s + length (filter (space s) rs)"
proof (induction rs arbitrary: s)
  case Nil
  then show ?case by simp
next
  case (Cons r rs)
  then obtain t where t: "offer d r s = Done t" and rest: "each (offer d) rs t = Done s'"
    by auto
  have "filter (space t) rs = filter (space s) rs"
    using Cons.prems(2) by (intro filter_cong refl offer_space [OF t]) auto
  with Cons.IH [OF rest] Cons.prems(2) show ?case by (simp add: offer_tally [OF t])
qed

end

end
