(* ===== verification/GoChan.thy ===== *)
theory GoChan
  imports Prelude
begin

text \<open>
  Buffered Go channels, as the broker uses them: \<^verbatim>\<open>make(chan []byte, n)\<close>, the non-blocking send
  \<^verbatim>\<open>select { case ch <- v: default: }\<close>, \<^verbatim>\<open>close(ch)\<close> and the receive \<^verbatim>\<open>v, ok := <-ch\<close>. A send on a
  closed channel panics even when a \<^verbatim>\<open>default\<close> case is there, and so does closing it twice.
\<close>

record 'a gochan =
  ch_buf :: "'a list"
  ch_cap :: nat
  ch_closed :: bool

definition make_chan :: "nat \<Rightarrow> 'a gochan" where
  "make_chan n = \<lparr>ch_buf = [], ch_cap = n, ch_closed = False\<rparr>"

definition ch_space :: "'a gochan \<Rightarrow> bool" where
  "ch_space q \<longleftrightarrow> length (ch_buf q) < ch_cap q"

text \<open>The Boolean says which case of the \<^verbatim>\<open>select\<close> ran: \<open>True\<close> the send, \<open>False\<close> the default.\<close>

definition try_send :: "'a \<Rightarrow> 'a gochan \<Rightarrow> ('a gochan \<times> bool) outcome" where
  "try_send v q =
     (if ch_closed q then Panic SendOnClosedChannel
      else if ch_space q then Done (q\<lparr>ch_buf := ch_buf q @ [v]\<rparr>, True)
      else Done (q, False))"

definition close_chan :: "'a gochan \<Rightarrow> 'a gochan outcome" where
  "close_chan q =
     (if ch_closed q then Panic CloseOfClosedChannel else Done (q\<lparr>ch_closed := True\<rparr>))"

datatype 'a received = Got 'a "'a gochan" | NotOk | WouldBlock

definition recv :: "'a gochan \<Rightarrow> 'a received" where
  "recv q = (case ch_buf q of
       v # vs \<Rightarrow> Got v (q\<lparr>ch_buf := vs\<rparr>)
     | [] \<Rightarrow> if ch_closed q then NotOk else WouldBlock)"

definition chan_ok :: "'a gochan \<Rightarrow> bool" where
  "chan_ok q \<longleftrightarrow> length (ch_buf q) \<le> ch_cap q"

lemma make_chan_simps [simp]:
  "ch_buf (make_chan n) = []" "ch_cap (make_chan n) = n" "\<not> ch_closed (make_chan n)"
  by (simp_all add: make_chan_def)

lemma chan_ok_make [simp]: "chan_ok (make_chan n)"
  by (simp add: chan_ok_def)

lemma try_send_open:
  "\<not> ch_closed q \<Longrightarrow> \<exists>q' b. try_send v q = Done (q', b)"
  by (auto simp: try_send_def)

lemma try_send_Done:
  assumes "try_send v q = Done (q', b)"
  shows "b = ch_space q"
    and "ch_buf q' = (if ch_space q then ch_buf q @ [v] else ch_buf q)"
    and "ch_cap q' = ch_cap q" and "ch_closed q' = ch_closed q" and "\<not> ch_closed q"
  using assms by (auto simp: try_send_def split: if_splits)

lemma chan_ok_try_send: "chan_ok q \<Longrightarrow> try_send v q = Done (q', b) \<Longrightarrow> chan_ok q'"
  by (auto simp: chan_ok_def try_send_def ch_space_def split: if_splits)

lemma try_send_closed: "ch_closed q \<Longrightarrow> try_send v q = Panic SendOnClosedChannel"
  by (simp add: try_send_def)

lemma close_chan_Done:
  "close_chan q = Done q' \<longleftrightarrow> \<not> ch_closed q \<and> q' = q\<lparr>ch_closed := True\<rparr>"
  by (auto simp: close_chan_def)

lemma close_chan_twice: "ch_closed q \<Longrightarrow> close_chan q = Panic CloseOfClosedChannel"
  by (simp add: close_chan_def)

lemma recv_Got: "recv q = Got v q' \<longleftrightarrow> ch_buf q = v # ch_buf q' \<and> q' = q\<lparr>ch_buf := ch_buf q'\<rparr>"
  by (cases "ch_buf q") (auto simp: recv_def)

lemma chan_ok_recv: "chan_ok q \<Longrightarrow> recv q = Got v q' \<Longrightarrow> chan_ok q'"
  by (cases "ch_buf q") (auto simp: recv_def chan_ok_def split: if_splits)

end
