(* ===== verification/GoText.thy ===== *)
theory GoText
  imports Prelude "HOL-Library.Sublist" "HOL-Library.Word" "HOL-Library.Char_ord"
    "HOL-Library.List_Lexorder"
begin

text \<open>
  The parts of Go's \<^verbatim>\<open>strings\<close>, \<^verbatim>\<open>strconv\<close>, \<^verbatim>\<open>encoding/hex\<close> and \<^verbatim>\<open>fmt\<close> packages that the broker calls. A Go
  string is its list of bytes. \<open>ToLower\<close> takes the Unicode case tables as the argument \<open>ul\<close>: they
  decide the result on a string with a byte above 127, and nothing in the development depends on
  what they are.
\<close>

definition HasPrefix :: "string \<Rightarrow> string \<Rightarrow> bool" where
  "HasPrefix s p \<longleftrightarrow> prefix p s"

definition HasSuffix :: "string \<Rightarrow> string \<Rightarrow> bool" where
  "HasSuffix s p \<longleftrightarrow> suffix p s"

definition TrimPrefix :: "string \<Rightarrow> string \<Rightarrow> string" where
  "TrimPrefix s p = (if prefix p s then drop (length p) s else s)"

definition str_Contains :: "string \<Rightarrow> string \<Rightarrow> bool" where
  "str_Contains s sub \<longleftrightarrow> sublist sub s"

text \<open>\<open>Split s c\<close> for a separator of one byte: the first piece is \<open>before c s\<close>.\<close>

fun Split :: "string \<Rightarrow> char \<Rightarrow> string list" where
  "Split [] c = [[]]"
| "Split (x # xs) c =
     (if x = c then [] # Split xs c
      else (case Split xs c of [] \<Rightarrow> [[x]] | p # ps \<Rightarrow> (x # p) # ps))"

definition before :: "char \<Rightarrow> string \<Rightarrow> string" where
  "before c s = takeWhile (\<lambda>x. x \<noteq> c) s"

text \<open>The encodings of the runes for which \<^verbatim>\<open>unicode.IsSpace\<close> holds.\<close>

definition space_runes :: "string list" where
  "space_runes =
     [[CHR 0x09], [CHR 0x0A], [CHR 0x0B], [CHR 0x0C], [CHR 0x0D], [CHR 0x20],
      [CHR 0xC2, CHR 0x85], [CHR 0xC2, CHR 0xA0], [CHR 0xE1, CHR 0x9A, CHR 0x80]]
     @ map (\<lambda>n. [CHR 0xE2, CHR 0x80, char_of (n :: nat)]) ([0x80..<0x8B] @ [0xA8, 0xA9, 0xAF])
     @ [[CHR 0xE2, CHR 0x81, CHR 0x9F], [CHR 0xE3, CHR 0x80, CHR 0x80]]"

lemma space_runes_nonempty: "w \<in> set space_runes \<Longrightarrow> w \<noteq> []"
  by (auto simp: space_runes_def)

function trim_left :: "string list \<Rightarrow> string \<Rightarrow> string" where
  "trim_left ws s = (case find (\<lambda>w. w \<noteq> [] \<and> prefix w s) ws of
       None \<Rightarrow> s
     | Some w \<Rightarrow> trim_left ws (drop (length w) s))"
  by pat_completeness auto
termination
proof (relation "measure (\<lambda>(ws, s). length s)", simp)
  fix ws :: "string list" and s w
  assume "find (\<lambda>w. w \<noteq> [] \<and> prefix w s) ws = Some w"
  then have "w \<noteq> []" and "prefix w s" by (auto simp: find_Some_iff)
  then show "((ws, drop (length w) s), ws, s) \<in> measure (\<lambda>(ws, s). length s)"
    by (auto simp: prefix_def)
qed

declare trim_left.simps [simp del]

definition TrimSpace :: "string \<Rightarrow> string" where
  "TrimSpace s = rev (trim_left (map rev space_runes) (rev (trim_left space_runes s)))"

definition lower_byte :: "char \<Rightarrow> char" where
  "lower_byte c = (let n = of_char c :: nat in if 65 \<le> n \<and> n \<le> 90 then char_of (n + 32) else c)"

definition is_ascii :: "string \<Rightarrow> bool" where
  "is_ascii s \<longleftrightarrow> list_all (\<lambda>c. (of_char c :: nat) < 128) s"

definition ToLower :: "(string \<Rightarrow> string) \<Rightarrow> string \<Rightarrow> string" where
  "ToLower ul s = (if is_ascii s then map lower_byte s else ul s)"

subsection \<open>Numbers\<close>

definition digit :: "nat \<Rightarrow> char" where
  "digit n = char_of (48 + n)"

fun itoa_nat :: "nat \<Rightarrow> string" where
  "itoa_nat n = (if n < 10 then [digit n] else itoa_nat (n div 10) @ [digit (n mod 10)])"

declare itoa_nat.simps [simp del]

definition itoa :: "int \<Rightarrow> string" where
  "itoa i = (if i < 0 then CHR ''-'' # itoa_nat (nat (- i)) else itoa_nat (nat i))"

definition is_digit :: "char \<Rightarrow> bool" where
  "is_digit c \<longleftrightarrow> 48 \<le> (of_char c :: nat) \<and> (of_char c :: nat) \<le> 57"

definition digit_val :: "char \<Rightarrow> nat" where
  "digit_val c = of_char c - 48"

definition atoi_nat :: "string \<Rightarrow> nat" where
  "atoi_nat s = foldl (\<lambda>n c. 10 * n + digit_val c) 0 s"

text \<open>\<^verbatim>\<open>strconv.ParseInt(s, 10, 64)\<close> on the literals a JSON scanner accepts (an optional minus sign
  and digits), and \<^verbatim>\<open>fmt.Sscanf(s, "%d", &u)\<close> for a \<^verbatim>\<open>uint64\<close>, which leaves \<open>u\<close> at 0 on an error.\<close>

definition ParseInt64 :: "string \<Rightarrow> int option" where
  "ParseInt64 s =
     (let neg = (case s of c # _ \<Rightarrow> c = CHR ''-'' | [] \<Rightarrow> False);
          ds = (if neg then tl s else s);
          i = (if neg then - int (atoi_nat ds) else int (atoi_nat ds))
      in if ds = [] \<or> \<not> list_all is_digit ds then None
         else if - (2 ^ 63) \<le> i \<and> i < 2 ^ 63 then Some i else None)"

definition Sscanf_uint64 :: "string \<Rightarrow> 64 word" where
  "Sscanf_uint64 s =
     (let ds = takeWhile is_digit (trim_left space_runes s)
      in if ds = [] \<or> \<not> atoi_nat ds < 2 ^ 64 then 0 else of_nat (atoi_nat ds))"

definition hex_digit :: "nat \<Rightarrow> char" where
  "hex_digit n = (if n < 10 then char_of (48 + n) else char_of (87 + n))"

definition hex_byte :: "8 word \<Rightarrow> string" where
  "hex_byte b = [hex_digit (unat b div 16), hex_digit (unat b mod 16)]"

definition EncodeToString :: "8 word list \<Rightarrow> string" where
  "EncodeToString bs = concat (map hex_byte bs)"

subsection \<open>Facts\<close>

lemma Split_nonempty: "Split s c \<noteq> []"
  by (induction s) (auto split: list.splits)

lemma Split_hd: "hd (Split s c) = before c s"
proof (induction s)
  case (Cons x xs)
  then show ?case using Split_nonempty [of xs c] by (auto simp: before_def split: list.splits)
qed (simp add: before_def)

lemma of_char_digit: "n < 10 \<Longrightarrow> (of_char (digit n) :: nat) = 48 + n"
  by (simp add: digit_def)

lemma is_digit_digit [simp]: "n < 10 \<Longrightarrow> is_digit (digit n)"
  by (simp add: is_digit_def of_char_digit)

lemma digit_val_digit [simp]: "n < 10 \<Longrightarrow> digit_val (digit n) = n"
  by (simp add: digit_val_def of_char_digit)

lemma itoa_nat_digits: "list_all is_digit (itoa_nat n) \<and> itoa_nat n \<noteq> []"
proof (induction n rule: itoa_nat.induct)
  case (1 n)
  show ?case
    using 1 by (cases "n < 10") (simp_all add: itoa_nat.simps [of n])
qed

lemma atoi_nat_itoa_nat [simp]: "atoi_nat (itoa_nat n) = n"
proof (induction n rule: itoa_nat.induct)
  case (1 n)
  show ?case
  proof (cases "n < 10")
    case True
    then show ?thesis by (simp add: itoa_nat.simps [of n] atoi_nat_def)
  next
    case False
    with "1" have "atoi_nat (itoa_nat (n div 10)) = n div 10" by simp
    with False show ?thesis by (simp add: itoa_nat.simps [of n] atoi_nat_def)
  qed
qed

lemma digit_not_minus: "is_digit c \<Longrightarrow> c \<noteq> CHR ''-''"
  by (auto simp: is_digit_def)

lemma ParseInt64_itoa:
  assumes "- (2 ^ 63) \<le> i" and "i < 2 ^ 63"
  shows "ParseInt64 (itoa i) = Some i"
proof (cases "i < 0")
  case True
  with assms itoa_nat_digits [of "nat (- i)"] show ?thesis
    by (simp add: ParseInt64_def itoa_def)
next
  case False
  obtain c cs where s: "itoa_nat (nat i) = c # cs"
    using itoa_nat_digits [of "nat i"] by (cases "itoa_nat (nat i)") auto
  with itoa_nat_digits [of "nat i"] have "c \<noteq> CHR ''-''" by (auto dest: digit_not_minus)
  moreover have "atoi_nat (c # cs) = nat i" by (simp flip: s)
  ultimately show ?thesis
    using False assms itoa_nat_digits [of "nat i"]
    by (simp add: ParseInt64_def itoa_def s)
qed

lemma length_EncodeToString [simp]: "length (EncodeToString bs) = 2 * length bs"
  by (induction bs) (simp_all add: EncodeToString_def hex_byte_def)

lemma trim_left_id:
  assumes "\<forall>w \<in> set ws. w = [] \<or> hd w \<noteq> c"
  shows "trim_left ws (c # s) = c # s"
proof -
  have "find (\<lambda>w. w \<noteq> [] \<and> prefix w (c # s)) ws = None"
    using assms by (auto simp: find_None_iff prefix_Cons)
  then show ?thesis by (simp add: trim_left.simps [of ws "c # s"])
qed

lemma TrimSpace_id:
  assumes "\<forall>w \<in> set space_runes. hd w \<noteq> hd s" "\<forall>w \<in> set space_runes. last w \<noteq> last s"
  shows "TrimSpace s = s"
proof (cases s)
  case Nil
  have "find (\<lambda>w. w \<noteq> [] \<and> prefix w []) ws = None" for ws :: "string list"
    by (auto simp: find_None_iff)
  then show ?thesis by (simp add: TrimSpace_def Nil trim_left.simps [where s = "[]"])
next
  case (Cons c cs)
  have l: "trim_left space_runes s = s"
    using assms(1) by (simp add: Cons trim_left_id)
  obtain d ds where r: "rev s = d # ds" "d = last s" using Cons
    by (cases "rev s") (auto simp: last_rev simp flip: hd_rev)
  have "trim_left (map rev space_runes) (rev s) = rev s"
    unfolding r(1) using assms(2) r(2)
    by (intro trim_left_id) (auto simp: hd_rev)
  with l show ?thesis by (simp add: TrimSpace_def)
qed

lemma TrimSpace_graphic:
  assumes "s \<noteq> []" "of_char (hd s) \<in> {33::nat..126}" "of_char (last s) \<in> {33::nat..126}"
  shows "TrimSpace s = s"
proof (rule TrimSpace_id)
  have hd: "\<forall>w \<in> set space_runes. of_char (hd w) \<notin> {33::nat..126}"
    by (simp add: space_runes_def)
  have last: "\<forall>w \<in> set space_runes. of_char (last w) \<notin> {33::nat..126}"
    by (simp add: space_runes_def)
  show "\<forall>w \<in> set space_runes. hd w \<noteq> hd s" using hd assms(2) by metis
  show "\<forall>w \<in> set space_runes. last w \<noteq> last s" using last assms(3) by metis
qed

lemma before_append: "c \<notin> set a \<Longrightarrow> before c (a @ c # b) = a"
  by (induction a) (auto simp: before_def)

lemma before_absent: "c \<notin> set a \<Longrightarrow> before c a = a"
  by (induction a) (auto simp: before_def)

lemma trim_left_digits: "list_all is_digit s \<Longrightarrow> trim_left space_runes s = s"
proof (cases s)
  case (Cons c cs)
  assume "list_all is_digit s"
  with Cons have "\<forall>w \<in> set space_runes. w = [] \<or> hd w \<noteq> c" by (auto simp: space_runes_def is_digit_def)
  then show ?thesis unfolding Cons by (rule trim_left_id)
qed (simp add: trim_left.simps space_runes_def)

lemma Sscanf_uint64_itoa_nat:
  assumes "n < 2 ^ 64"
  shows "Sscanf_uint64 (itoa_nat n) = word_of_nat n"
proof -
  have d: "list_all is_digit (itoa_nat n)" "itoa_nat n \<noteq> []" using itoa_nat_digits [of n] by auto
  then have "takeWhile is_digit (itoa_nat n) = itoa_nat n"
    by (simp add: takeWhile_eq_all_conv list_all_iff)
  with assms d show ?thesis unfolding Sscanf_uint64_def trim_left_digits [OF d(1)] by (simp only: Let_def) simp
qed

end
