(* ===== verification/Json.thy ===== *)
theory Json
  imports GoText
begin

text \<open>
  What the broker uses of \<^verbatim>\<open>encoding/json\<close>. A JSON value is a tree; a number keeps its literal, and an
  object lists its entries in the order in which they are written. \<open>json_text\<close> and
  \<open>json_indent_text\<close> are the writers behind \<^verbatim>\<open>json.Marshal\<close> and \<^verbatim>\<open>json.MarshalIndent(v, "", "  ")\<close>, with
  the HTML-safe string escapes. \<open>to_iface\<close> is what decoding into an \<^verbatim>\<open>interface{}\<close> keeps of a value,
  and \<open>decode_fields\<close> is the loop that fills a struct from an object: a key selects a field by its
  exact name or, failing that, by its case-folded name, and an unknown key is skipped.

  The record \<open>go_env\<close> holds the tables of the library that the development leaves open: the literal that a
  number has after it went through a \<^verbatim>\<open>float64\<close>, and the Unicode case mapping. The theory \<open>JsonScan\<close> has the readers.
\<close>

datatype json =
    JNull
  | JBool bool
  | JNum string
  | JStr string
  | JArr "json list"
  | JObj "(string \<times> json) list"

record go_env =
  float_lit :: "string \<Rightarrow> string option"
  unicode_lower :: "string \<Rightarrow> string"

section \<open>Writing\<close>

definition byte_in :: "nat \<Rightarrow> nat \<Rightarrow> char \<Rightarrow> bool" where
  "byte_in lo hi c \<longleftrightarrow> lo \<le> of_char c \<and> of_char c \<le> hi"

abbreviation cont :: "char \<Rightarrow> bool" where
  "cont \<equiv> byte_in 0x80 0xBF"

text \<open>The length of the UTF-8 sequence a string starts with, 0 if it is not a valid one.\<close>

fun rune_len :: "string \<Rightarrow> nat" where
  "rune_len (a # b # c # d # cs) =
     (if byte_in 0 0x7F a then 1
      else if byte_in 0xC2 0xDF a \<and> cont b then 2
      else if (a = CHR 0xE0 \<and> byte_in 0xA0 0xBF b \<or> a = CHR 0xED \<and> byte_in 0x80 0x9F b
               \<or> byte_in 0xE1 0xEF a \<and> a \<noteq> CHR 0xED \<and> cont b) \<and> cont c then 3
      else if (a = CHR 0xF0 \<and> byte_in 0x90 0xBF b \<or> a = CHR 0xF4 \<and> byte_in 0x80 0x8F b
               \<or> byte_in 0xF1 0xF3 a \<and> cont b) \<and> cont c \<and> cont d then 4
      else 0)"
| "rune_len [a, b, c] =
     (if byte_in 0 0x7F a then 1
      else if byte_in 0xC2 0xDF a \<and> cont b then 2
      else if (a = CHR 0xE0 \<and> byte_in 0xA0 0xBF b \<or> a = CHR 0xED \<and> byte_in 0x80 0x9F b
               \<or> byte_in 0xE1 0xEF a \<and> a \<noteq> CHR 0xED \<and> cont b) \<and> cont c then 3
      else 0)"
| "rune_len [a, b] =
     (if byte_in 0 0x7F a then 1 else if byte_in 0xC2 0xDF a \<and> cont b then 2 else 0)"
| "rune_len [a] = (if byte_in 0 0x7F a then 1 else 0)"
| "rune_len [] = 0"

definition hex4 :: "nat \<Rightarrow> string" where
  "hex4 n = [hex_digit (n div 4096 mod 16), hex_digit (n div 256 mod 16),
             hex_digit (n div 16 mod 16), hex_digit (n mod 16)]"

definition u_escape :: "nat \<Rightarrow> string" where
  "u_escape n = CHR 0x5C # CHR ''u'' # hex4 n"

definition escape_byte :: "char \<Rightarrow> string" where
  "escape_byte c =
     (if c = CHR 0x5C \<or> c = CHR 0x22 then [CHR 0x5C, c]
      else if c = CHR 0x08 then CHR 0x5C # ''b''
      else if c = CHR 0x0C then CHR 0x5C # ''f''
      else if c = CHR 0x0A then CHR 0x5C # ''n''
      else if c = CHR 0x0D then CHR 0x5C # ''r''
      else if c = CHR 0x09 then CHR 0x5C # ''t''
      else if byte_in 0 0x1F c \<or> c = CHR ''<'' \<or> c = CHR ''>'' \<or> c = CHR ''&''
      then u_escape (of_char c)
      else [c])"

fun escape :: "string \<Rightarrow> string" where
  "escape [] = []"
| "escape (c # cs) =
     (if byte_in 0 0x7F c then escape_byte c @ escape cs
      else let n = rune_len (c # cs) in
        if n = 0 then u_escape 0xFFFD @ escape cs
        else if take 3 (c # cs) = [CHR 0xE2, CHR 0x80, CHR 0xA8]
        then u_escape 0x2028 @ escape (drop 2 cs)
        else if take 3 (c # cs) = [CHR 0xE2, CHR 0x80, CHR 0xA9]
        then u_escape 0x2029 @ escape (drop 2 cs)
        else take n (c # cs) @ escape (drop (n - 1) cs))"

definition quote :: "string \<Rightarrow> string" where
  "quote s = CHR 0x22 # escape s @ [CHR 0x22]"

fun join :: "string \<Rightarrow> string list \<Rightarrow> string" where
  "join sep [] = []"
| "join sep [x] = x"
| "join sep (x # y # ys) = x @ sep @ join sep (y # ys)"

fun json_text :: "json \<Rightarrow> string" where
  "json_text JNull = ''null''"
| "json_text (JBool b) = (if b then ''true'' else ''false'')"
| "json_text (JNum l) = l"
| "json_text (JStr s) = quote s"
| "json_text (JArr xs) = CHR ''['' # join '','' (map json_text xs) @ '']''"
| "json_text (JObj kvs) =
     CHR ''{'' # join '','' (map (\<lambda>(k, v). quote k @ '':'' @ json_text v) kvs) @ ''}''"

definition newline_indent :: "nat \<Rightarrow> string" where
  "newline_indent d = CHR 0x0A # replicate (2 * d) CHR 0x20"

fun json_indent_text :: "nat \<Rightarrow> json \<Rightarrow> string" where
  "json_indent_text d (JArr xs) =
     (if xs = [] then ''[]''
      else CHR ''['' # join '','' (map (\<lambda>v. newline_indent (Suc d) @ json_indent_text (Suc d) v) xs)
           @ newline_indent d @ '']'')"
| "json_indent_text d (JObj kvs) =
     (if kvs = [] then ''{}''
      else CHR ''{'' # join '',''
             (map (\<lambda>(k, v). newline_indent (Suc d) @ quote k @ '': '' @ json_indent_text (Suc d) v) kvs)
           @ newline_indent d @ ''}'')"
| "json_indent_text d JNull = json_text JNull"
| "json_indent_text d (JBool b) = json_text (JBool b)"
| "json_indent_text d (JNum l) = json_text (JNum l)"
| "json_indent_text d (JStr s) = json_text (JStr s)"

text \<open>A Go map is written with its keys in increasing order.\<close>

definition map_json :: "('v \<Rightarrow> json) \<Rightarrow> (string, 'v) gomap \<Rightarrow> json" where
  "map_json f m = JObj (map (\<lambda>(k, v). (k, f v)) (sort_key fst m))"

definition opt_str :: "string \<Rightarrow> string \<Rightarrow> (string \<times> json) list" where
  "opt_str k s = (if s = [] then [] else [(k, JStr s)])"

definition str_list_json :: "string list \<Rightarrow> json" where
  "str_list_json xs = JArr (map JStr xs)"

definition str_slice_json :: "string slice \<Rightarrow> json" where
  "str_slice_json s = (case s of None \<Rightarrow> JNull | Some xs \<Rightarrow> str_list_json xs)"

section \<open>Decoding\<close>

definition last_wins :: "(string, 'v) gomap \<Rightarrow> (string, 'v) gomap" where
  "last_wins kvs = sort_key fst (foldl (\<lambda>m (k, v). AList.update k v m) [] kvs)"

fun to_iface :: "(string \<Rightarrow> string option) \<Rightarrow> json \<Rightarrow> json option"
and to_ifaces :: "(string \<Rightarrow> string option) \<Rightarrow> json list \<Rightarrow> json list option"
and to_iface_entries :: "(string \<Rightarrow> string option) \<Rightarrow> (string \<times> json) list \<Rightarrow> (string \<times> json) list option"
where
  "to_iface fl JNull = Some JNull"
| "to_iface fl (JBool b) = Some (JBool b)"
| "to_iface fl (JNum l) = map_option JNum (fl l)"
| "to_iface fl (JStr s) = Some (JStr s)"
| "to_iface fl (JArr xs) = map_option JArr (to_ifaces fl xs)"
| "to_iface fl (JObj kvs) = map_option (\<lambda>es. JObj (last_wins es)) (to_iface_entries fl kvs)"
| "to_ifaces fl [] = Some []"
| "to_ifaces fl (x # xs) = (case to_iface fl x of None \<Rightarrow> None
     | Some y \<Rightarrow> map_option ((#) y) (to_ifaces fl xs))"
| "to_iface_entries fl [] = Some []"
| "to_iface_entries fl ((k, v) # kvs) = (case to_iface fl v of None \<Rightarrow> None
     | Some y \<Rightarrow> map_option ((#) (k, y)) (to_iface_entries fl kvs))"

definition upper_byte :: "char \<Rightarrow> char" where
  "upper_byte c = (let n = of_char c :: nat in if 97 \<le> n \<and> n \<le> 122 then char_of (n - 32) else c)"

text \<open>The fold of a key. The only runes beyond ASCII that fold to an ASCII letter are U+017F and
  U+212A, so this decides equality with a folded ASCII name.\<close>

fun fold_name :: "string \<Rightarrow> string" where
  "fold_name [] = []"
| "fold_name (c # cs) =
     (if prefix [CHR 0xC5, CHR 0xBF] (c # cs) then CHR ''S'' # fold_name (drop 1 cs)
      else if prefix [CHR 0xE2, CHR 0x84, CHR 0xAA] (c # cs) then CHR ''K'' # fold_name (drop 2 cs)
      else upper_byte c # fold_name cs)"

definition match_field :: "string list \<Rightarrow> string \<Rightarrow> string option" where
  "match_field names k =
     (if k \<in> set names then Some k else find (\<lambda>n. fold_name n = fold_name k) names)"

fun decode_fields ::
  "string list \<Rightarrow> (string \<Rightarrow> json \<Rightarrow> 'r \<Rightarrow> 'r option) \<Rightarrow> (string \<times> json) list \<Rightarrow> 'r \<Rightarrow> 'r option" where
  "decode_fields names set_field [] r = Some r"
| "decode_fields names set_field ((k, v) # kvs) r =
     (case match_field names k of
        None \<Rightarrow> decode_fields names set_field kvs r
      | Some n \<Rightarrow> (case set_field n v r of
            None \<Rightarrow> None
          | Some r' \<Rightarrow> decode_fields names set_field kvs r'))"

text \<open>Decoding into a struct: \<^verbatim>\<open>null\<close> leaves it as it is, and only an object can fill it.\<close>

definition decode_struct ::
  "string list \<Rightarrow> (string \<Rightarrow> json \<Rightarrow> 'r \<Rightarrow> 'r option) \<Rightarrow> json \<Rightarrow> 'r \<Rightarrow> 'r option" where
  "decode_struct names set_field j r = (case j of
       JNull \<Rightarrow> Some r
     | JObj kvs \<Rightarrow> decode_fields names set_field kvs r
     | _ \<Rightarrow> None)"

definition decode_str :: "json \<Rightarrow> string \<Rightarrow> string option" where
  "decode_str j old = (case j of JStr s \<Rightarrow> Some s | JNull \<Rightarrow> Some old | _ \<Rightarrow> None)"

definition decode_bool :: "json \<Rightarrow> bool \<Rightarrow> bool option" where
  "decode_bool j old = (case j of JBool b \<Rightarrow> Some b | JNull \<Rightarrow> Some old | _ \<Rightarrow> None)"

definition decode_int64 :: "json \<Rightarrow> int \<Rightarrow> int option" where
  "decode_int64 j old = (case j of JNum l \<Rightarrow> ParseInt64 l | JNull \<Rightarrow> Some old | _ \<Rightarrow> None)"

fun decode_strs :: "json list \<Rightarrow> string list option" where
  "decode_strs [] = Some []"
| "decode_strs (j # js) = (case decode_str j [] of None \<Rightarrow> None
     | Some s \<Rightarrow> map_option ((#) s) (decode_strs js))"

definition decode_str_list :: "json \<Rightarrow> string list option" where
  "decode_str_list j = (case j of JArr js \<Rightarrow> decode_strs js | JNull \<Rightarrow> Some [] | _ \<Rightarrow> None)"

text \<open>Decoding into a slice that may be nil: \<^verbatim>\<open>null\<close> sets it to nil, an array makes it a slice. (The slice is new or
  nil before: a repeated member of an object that has \<^verbatim>\<open>null\<close> elements is outside the model.)\<close>

definition decode_str_slice :: "json \<Rightarrow> string slice option" where
  "decode_str_slice j = (case j of JArr js \<Rightarrow> map_option Some (decode_strs js) | JNull \<Rightarrow> Some None | _ \<Rightarrow> None)"

fun decode_str_entries ::
  "(string \<times> json) list \<Rightarrow> (string, string) gomap \<Rightarrow> (string, string) gomap option" where
  "decode_str_entries [] m = Some m"
| "decode_str_entries ((k, v) # kvs) m = (case decode_str v [] of None \<Rightarrow> None
     | Some s \<Rightarrow> decode_str_entries kvs (AList.update k s m))"

definition decode_str_map ::
  "json \<Rightarrow> (string, string) gomap \<Rightarrow> (string, string) gomap option" where
  "decode_str_map j old = (case j of
       JObj kvs \<Rightarrow> decode_str_entries kvs old
     | JNull \<Rightarrow> Some []
     | _ \<Rightarrow> None)"

definition decode_map_slice :: "json \<Rightarrow> (string \<times> string) slice \<Rightarrow> (string \<times> string) slice option" where
  "decode_map_slice j old = (case j of
       JObj kvs \<Rightarrow> map_option Some (decode_str_entries kvs (elems old))
     | JNull \<Rightarrow> Some None
     | _ \<Rightarrow> None)"

section \<open>Facts\<close>

lemma match_field_exact [simp]: "k \<in> set names \<Longrightarrow> match_field names k = Some k"
  by (simp add: match_field_def)

lemma decode_fields_append:
  "decode_fields names f (xs @ ys) r =
     (case decode_fields names f xs r of None \<Rightarrow> None | Some r' \<Rightarrow> decode_fields names f ys r')"
  by (induction xs arbitrary: r) (auto split: option.splits)

lemma decode_strs_JStr [simp]: "decode_strs (map JStr xs) = Some xs"
  by (induction xs) (simp_all add: decode_str_def)

lemma decode_str_list_json [simp]: "decode_str_list (str_list_json xs) = Some xs"
  by (simp add: decode_str_list_def str_list_json_def)

lemma update_fresh: "k \<notin> fst ` set m \<Longrightarrow> AList.update k v m = m @ [(k, v)]"
  by (induction m) auto

lemma decode_str_entries_JStr:
  "distinct (map fst m) \<Longrightarrow> fst ` set m \<inter> fst ` set acc = {} \<Longrightarrow>
   decode_str_entries (map (\<lambda>(k, v). (k, JStr v)) m) acc = Some (acc @ m)"
proof (induction m arbitrary: acc)
  case (Cons kv m)
  obtain k v where kv: "kv = (k, v)" by (cases kv)
  with Cons.prems have "AList.update k v acc = acc @ [(k, v)]" by (intro update_fresh) auto
  moreover have "decode_str_entries (map (\<lambda>(k, v). (k, JStr v)) m) (acc @ [(k, v)])
      = Some ((acc @ [(k, v)]) @ m)"
    using Cons.prems kv by (intro Cons.IH) auto
  ultimately show ?case by (simp add: kv decode_str_def)
qed simp

end
