(* ===== verification/JsonScan.thy ===== *)
theory JsonScan
  imports Json
begin

text \<open>
  The reading half of \<^verbatim>\<open>encoding/json\<close>: \<open>json_unmarshal\<close> is what \<^verbatim>\<open>json.Unmarshal\<close> makes of a text before it
  fills a Go value, \<open>json_decode\<close> reads the first value of a stream as \<^verbatim>\<open>json.NewDecoder(r).Decode\<close> does. As in
  \<^verbatim>\<open>scanner.go\<close>, the containers that are still open are a stack, of at most 10000 entries; the functions that
  follow a value, a comma or a brace call each other on what is left of the text, which gets shorter every time. Strings are unquoted as by
  \<^verbatim>\<open>unquoteBytes\<close>: escapes are resolved, surrogate pairs joined, and bytes that are not UTF-8 replaced by U+FFFD.

  The main result is that every value that \<^verbatim>\<open>json.Marshal\<close> or \<^verbatim>\<open>json.MarshalIndent\<close> can write, and whose strings are
  UTF-8, is read back as it was.
\<close>

section \<open>Strings\<close>

definition hex_val :: "char \<Rightarrow> nat option" where
  "hex_val c = (let n = of_char c :: nat in
     if 48 \<le> n \<and> n \<le> 57 then Some (n - 48)
     else if 97 \<le> n \<and> n \<le> 102 then Some (n - 87)
     else if 65 \<le> n \<and> n \<le> 70 then Some (n - 55)
     else None)"

fun get_u4 :: "string \<Rightarrow> (nat \<times> string) option" where
  "get_u4 (a # b # c # d # r) = (case (hex_val a, hex_val b, hex_val c, hex_val d) of
     (Some w, Some x, Some y, Some z) \<Rightarrow> Some (4096 * w + 256 * x + 16 * y + z, r)
   | _ \<Rightarrow> None)"
| "get_u4 _ = None"

definition encode_rune :: "nat \<Rightarrow> string" where
  "encode_rune n =
     (if n < 0x80 then [char_of n]
      else if n < 0x800 then [char_of (0xC0 + n div 64), char_of (0x80 + n mod 64)]
      else if n < 0x10000
      then [char_of (0xE0 + n div 4096), char_of (0x80 + n div 64 mod 64), char_of (0x80 + n mod 64)]
      else [char_of (0xF0 + n div 262144), char_of (0x80 + n div 4096 mod 64), char_of (0x80 + n div 64 mod 64),
            char_of (0x80 + n mod 64)])"

definition escape_char :: "char \<Rightarrow> char option" where
  "escape_char e =
     (if e = CHR 0x22 \<or> e = CHR 0x5C \<or> e = CHR 0x2F then Some e
      else if e = CHR ''b'' then Some CHR 0x08
      else if e = CHR ''f'' then Some CHR 0x0C
      else if e = CHR ''n'' then Some CHR 0x0A
      else if e = CHR ''r'' then Some CHR 0x0D
      else if e = CHR ''t'' then Some CHR 0x09
      else None)"

text \<open>The second half of a surrogate pair that starts with \<open>n\<close>.\<close>

definition surrogate_pair :: "nat \<Rightarrow> string \<Rightarrow> (nat \<times> string) option" where
  "surrogate_pair n r =
     (if 0xD800 \<le> n \<and> n \<le> 0xDBFF \<and> prefix [CHR 0x5C, CHR ''u''] r
      then (case get_u4 (drop 2 r) of
              Some (m, r') \<Rightarrow> if 0xDC00 \<le> m \<and> m \<le> 0xDFFF then Some (0x10000 + 1024 * (n - 0xD800) + (m - 0xDC00), r') else None
            | None \<Rightarrow> None)
      else None)"

lemma rune_len_le: "rune_len s \<le> length s"
  by (induction s rule: rune_len.induct) auto

lemma get_u4_shorter: "get_u4 s = Some (n, r) \<Longrightarrow> length r < length s"
  by (induction s rule: get_u4.induct) (auto split: option.splits)

lemma surrogate_pair_shorter: "surrogate_pair n r = Some (m, r') \<Longrightarrow> length r' < length r"
  by (auto simp: surrogate_pair_def split: if_splits option.splits dest!: get_u4_shorter)

text \<open>The piece of a string that its text starts with (\<open>None\<close>: the closing quote) and the text after it.\<close>

definition string_step :: "string \<Rightarrow> (string option \<times> string) option" where
  "string_step s = (case s of
       [] \<Rightarrow> None
     | c # cs \<Rightarrow>
         if c = CHR 0x22 then Some (None, cs)
         else if c = CHR 0x5C then (case cs of
             [] \<Rightarrow> None
           | e # es \<Rightarrow>
               if e = CHR ''u'' then (case get_u4 es of
                   None \<Rightarrow> None
                 | Some (n, r) \<Rightarrow> (case surrogate_pair n r of
                       Some (m, r') \<Rightarrow> Some (Some (encode_rune m), r')
                     | None \<Rightarrow> Some (Some (encode_rune (if 0xD800 \<le> n \<and> n \<le> 0xDFFF then 0xFFFD else n)), r)))
               else map_option (\<lambda>b. (Some [b], es)) (escape_char e))
         else if byte_in 0 0x1F c then None
         else if rune_len s = 0 then Some (Some (encode_rune 0xFFFD), cs)
         else Some (Some (take (rune_len s) s), drop (rune_len s) s))"

lemma string_step_shorter: "string_step s = Some (p, r) \<Longrightarrow> length r < length s"
  using rune_len_le [of s]
  by (auto simp: string_step_def split: list.splits if_splits option.splits
      dest!: get_u4_shorter surrogate_pair_shorter)

function scan_string :: "string \<Rightarrow> (string \<times> string) option" where
  "scan_string s = (case string_step s of
       None \<Rightarrow> None
     | Some (None, r) \<Rightarrow> Some ([], r)
     | Some (Some p, r) \<Rightarrow> map_option (\<lambda>(t, r'). (p @ t, r')) (scan_string r))"
  by pat_completeness auto
termination
  by (relation "measure length") (auto dest!: string_step_shorter)

declare scan_string.simps [simp del]

lemma scan_string_shorter: "scan_string s = Some (t, r) \<Longrightarrow> length r < length s"
proof (induction s arbitrary: t rule: scan_string.induct)
  case (1 s)
  then show ?case
    by (subst (asm) (2) scan_string.simps) (fastforce split: option.splits dest: string_step_shorter)
qed

section \<open>Numbers\<close>

definition digits :: "string \<Rightarrow> string" where "digits s = takeWhile is_digit s"

definition take_sign :: "string \<Rightarrow> string \<Rightarrow> string" where
  "take_sign signs s = (case s of c # _ \<Rightarrow> if c \<in> set signs then [c] else [] | [] \<Rightarrow> [])"

definition scan_exp :: "string \<Rightarrow> string \<Rightarrow> (string \<times> string) option" where
  "scan_exp lit s = (case s of
       e # t \<Rightarrow> if e = CHR ''e'' \<or> e = CHR ''E'' then
           (let sign = take_sign ''+-'' t;
                t' = drop (length sign) t
            in if digits t' = [] then None else Some (lit @ e # sign @ digits t', drop (length (digits t')) t'))
         else Some (lit, s)
     | [] \<Rightarrow> Some (lit, s))"

definition scan_frac :: "string \<Rightarrow> string \<Rightarrow> (string \<times> string) option" where
  "scan_frac lit s = (case s of
       c # t \<Rightarrow> if c = CHR ''.''
         then (if digits t = [] then None else scan_exp (lit @ c # digits t) (drop (length (digits t)) t))
         else scan_exp lit s
     | [] \<Rightarrow> Some (lit, s))"

definition scan_number :: "string \<Rightarrow> (string \<times> string) option" where
  "scan_number s =
     (let sign = take_sign ''-'' s;
          t = drop (length sign) s
      in case t of
           [] \<Rightarrow> None
         | d # ds \<Rightarrow> if d = CHR ''0'' then scan_frac (sign @ [d]) ds
             else if is_digit d then scan_frac (sign @ digits t) (drop (length (digits t)) t)
             else None)"

section \<open>Values\<close>

definition is_ws :: "char \<Rightarrow> bool" where
  "is_ws c \<longleftrightarrow> c = CHR 0x20 \<or> c = CHR 0x09 \<or> c = CHR 0x0D \<or> c = CHR 0x0A"

definition skip_ws :: "string \<Rightarrow> string" where
  "skip_ws s = dropWhile is_ws s"

text \<open>The containers still open: an array with its elements so far, or an object with its entries so far and the key whose
  value comes next; both lists are reversed.\<close>

datatype jframe = InArr "json list" | InObj "(string \<times> json) list" string

definition maxNestingDepth :: nat where "maxNestingDepth = 10000"

lemma length_skip_ws [simp]: "length (skip_ws s) \<le> length s"
  by (simp add: skip_ws_def length_dropWhile_le)

lemma skip_ws_shorter: "skip_ws s = c # cs \<Longrightarrow> length cs < length s"
  using length_skip_ws [of s] by simp

lemma scan_exp_shorter: "scan_exp lit s = Some (l, r) \<Longrightarrow> length r \<le> length s"
  by (auto simp: scan_exp_def Let_def split: list.splits if_splits)

lemma scan_frac_shorter: "scan_frac lit s = Some (l, r) \<Longrightarrow> length r \<le> length s"
  by (auto simp: scan_frac_def split: list.splits if_splits dest!: scan_exp_shorter)

lemma scan_number_shorter:
  assumes "scan_number s = Some (l, r)"
  shows "length r < length s"
proof -
  obtain d ds where t: "drop (length (take_sign ''-'' s)) s = d # ds"
    using assms by (cases "drop (length (take_sign ''-'' s)) s") (auto simp: scan_number_def Let_def)
  have "length (d # ds) \<le> length s" unfolding t [symmetric] by simp
  then have "length ds < length s" by simp
  moreover have "length r \<le> length ds"
    using assms t by (auto simp: scan_number_def Let_def digits_def split: if_splits dest!: scan_frac_shorter)
  ultimately show ?thesis by simp
qed

text \<open>A value that does not open a container: the literals, a string, a number.\<close>

definition scan_scalar :: "string \<Rightarrow> (json \<times> string) option" where
  "scan_scalar s =
     (if prefix ''null'' s then Some (JNull, drop 4 s)
      else if prefix ''true'' s then Some (JBool True, drop 4 s)
      else if prefix ''false'' s then Some (JBool False, drop 5 s)
      else if prefix [CHR 0x22] s then map_option (\<lambda>(t, r). (JStr t, r)) (scan_string (tl s))
      else map_option (\<lambda>(l, r). (JNum l, r)) (scan_number s))"

lemma scan_scalar_shorter: "scan_scalar s = Some (v, r) \<Longrightarrow> length r < length s"
  by (auto simp: scan_scalar_def split: if_splits dest!: scan_string_shorter scan_number_shorter dest: prefix_length_le)

text \<open>A quoted key and the colon behind it.\<close>

definition scan_key :: "string \<Rightarrow> (string \<times> string) option" where
  "scan_key s = (if prefix [CHR 0x22] s
     then (case scan_string (tl s) of
         None \<Rightarrow> None
       | Some (k, r) \<Rightarrow> if prefix '':'' (skip_ws r) then Some (k, tl (skip_ws r)) else None)
     else None)"

lemma skip_ws_tl [simp]: "length (skip_ws s) - n \<le> length s"
  using length_skip_ws [of s] by linarith

lemma scan_key_shorter:
  assumes "scan_key s = Some (k, r)"
  shows "length r < length s"
proof -
  obtain r' where r': "scan_string (tl s) = Some (k, r')" "r = tl (skip_ws r')"
    using assms by (auto simp: scan_key_def split: if_splits option.splits)
  then have "length r' < length s" using scan_string_shorter [OF r'(1)] by simp
  then show ?thesis unfolding r'(2) by (simp add: le_less_trans [OF skip_ws_tl])
qed

function json_value :: "jframe list \<Rightarrow> string \<Rightarrow> (json \<times> string) option"
and json_after :: "jframe list \<Rightarrow> json \<Rightarrow> string \<Rightarrow> (json \<times> string) option" where
  "json_value st s = (case skip_ws s of
       [] \<Rightarrow> None
     | c # cs \<Rightarrow>
         if c = CHR ''['' then
           (if maxNestingDepth \<le> length st then None
            else if prefix '']'' (skip_ws cs) then json_after st (JArr []) (tl (skip_ws cs))
            else json_value (InArr [] # st) cs)
         else if c = CHR ''{'' then
           (if maxNestingDepth \<le> length st then None
            else if prefix ''}'' (skip_ws cs) then json_after st (JObj []) (tl (skip_ws cs))
            else (case scan_key (skip_ws cs) of
                None \<Rightarrow> None
              | Some (k, r) \<Rightarrow> json_value (InObj [] k # st) r))
         else (case scan_scalar (c # cs) of None \<Rightarrow> None | Some (v, r) \<Rightarrow> json_after st v r))"
| "json_after [] v s = Some (v, s)"
| "json_after (InArr vs # st) v s = (case skip_ws s of
       [] \<Rightarrow> None
     | c # cs \<Rightarrow>
         if c = CHR '','' then json_value (InArr (v # vs) # st) cs
         else if c = CHR '']'' then json_after st (JArr (rev (v # vs))) cs
         else None)"
| "json_after (InObj kvs k # st) v s = (case skip_ws s of
       [] \<Rightarrow> None
     | c # cs \<Rightarrow>
         if c = CHR '','' then (case scan_key (skip_ws cs) of
             None \<Rightarrow> None
           | Some (k', r) \<Rightarrow> json_value (InObj ((k, v) # kvs) k' # st) r)
         else if c = CHR ''}'' then json_after st (JObj (rev ((k, v) # kvs))) cs
         else None)"
  by pat_completeness auto
termination
  by (relation "measure (case_sum (length \<circ> snd) (length \<circ> snd \<circ> snd))")
     (auto dest!: skip_ws_shorter scan_key_shorter scan_scalar_shorter intro: le_less_trans [OF skip_ws_tl] less_trans
        less_le_trans [OF _ order.trans [OF length_skip_ws less_imp_le]])

declare json_value.simps [simp del]

text \<open>\<^verbatim>\<open>json.Unmarshal\<close> wants one value and white space.\<close>

definition json_unmarshal :: "string \<Rightarrow> json option" where
  "json_unmarshal s = (case json_value [] s of
       None \<Rightarrow> None
     | Some (v, r) \<Rightarrow> if skip_ws r = [] then Some v else None)"

text \<open>\<^verbatim>\<open>json.NewDecoder(r).Decode\<close> takes the first value and leaves the rest of the stream alone.\<close>

definition json_decode :: "string \<Rightarrow> json option" where
  "json_decode s = map_option fst (json_value [] s)"

section \<open>Reading back what was written\<close>

subsection \<open>Strings\<close>

text \<open>The byte sequences that are UTF-8.\<close>

function utf8 :: "string \<Rightarrow> bool" where
  "utf8 s = (if s = [] then True else if rune_len s = 0 then False else utf8 (drop (rune_len s) s))"
  by pat_completeness auto
termination
  by (relation "measure length") auto

declare utf8.simps [simp del]

lemma scan_string_piece:
  "string_step s = Some (Some p, r) \<Longrightarrow> scan_string r = Some (t, q) \<Longrightarrow> scan_string s = Some (p @ t, q)"
  by (simp add: scan_string.simps [of s])

lemma rune_len_ascii: "byte_in 0 0x7F c \<Longrightarrow> rune_len (c # cs) = 1"
  by (cases "c # cs" rule: rune_len.cases) simp_all

lemma rune_len_extend:
  assumes "rune_len s = n" and "0 < n"
  shows "rune_len (take n s @ t) = n"
proof -
  define R2 where "R2 a b \<longleftrightarrow> byte_in 0xC2 0xDF a \<and> cont b" for a b
  define R3 where "R3 a b c \<longleftrightarrow> (a = CHR 0xE0 \<and> byte_in 0xA0 0xBF b \<or> a = CHR 0xED \<and> byte_in 0x80 0x9F b
    \<or> byte_in 0xE1 0xEF a \<and> a \<noteq> CHR 0xED \<and> cont b) \<and> cont c" for a b c
  define R4 where "R4 a b c d \<longleftrightarrow> (a = CHR 0xF0 \<and> byte_in 0x90 0xBF b \<or> a = CHR 0xF4 \<and> byte_in 0x80 0x8F b
    \<or> byte_in 0xF1 0xF3 a \<and> cont b) \<and> cont c \<and> cont d" for a b c d
  have eqs: "rune_len (a # b # c # d # cs) = (if byte_in 0 0x7F a then 1 else if R2 a b then 2
      else if R3 a b c then 3 else if R4 a b c d then 4 else 0)"
    "rune_len [a, b, c] = (if byte_in 0 0x7F a then 1 else if R2 a b then 2 else if R3 a b c then 3 else 0)"
    "rune_len [a, b] = (if byte_in 0 0x7F a then 1 else if R2 a b then 2 else 0)"
    "rune_len [a] = (if byte_in 0 0x7F a then 1 else 0)" for a b c d cs
    unfolding R2_def R3_def R4_def by (simp_all only: rune_len.simps)
  have two: "rune_len (a # b # t) = 2" if "\<not> byte_in 0 0x7F a" "R2 a b" for a b
    using that by (cases "a # b # t" rule: rune_len.cases) (simp_all del: rune_len.simps add: eqs)
  have three: "rune_len (a # b # c # t) = 3" if "\<not> byte_in 0 0x7F a" "\<not> R2 a b" "R3 a b c" for a b c
    using that by (cases "a # b # c # t" rule: rune_len.cases) (simp_all del: rune_len.simps add: eqs)
  show ?thesis
    using assms two three rune_len_ascii
    by (cases s rule: rune_len.cases) (auto simp del: rune_len.simps(1-4) simp add: eqs split: if_splits)
qed

lemma hex_val_hex_digit [simp]: "n < 16 \<Longrightarrow> hex_val (hex_digit n) = Some n"
  by (simp add: hex_val_def hex_digit_def Let_def)

lemma get_u4_hex4: "n < 65536 \<Longrightarrow> get_u4 (hex4 n @ t) = Some (n, t)"
proof -
  assume "n < 65536"
  then have top: "n div 4096 < 16" by simp
  have "n div 16 div 16 = n div 256" "n div 256 div 16 = n div 4096" by (simp_all flip: div_mult2_eq)
  with mult_div_mod_eq [of 16 n] mult_div_mod_eq [of 16 "n div 16"] mult_div_mod_eq [of 16 "n div 256"]
  have "4096 * (n div 4096) + 256 * (n div 256 mod 16) + 16 * (n div 16 mod 16) + n mod 16 = n" by linarith
  then show ?thesis using top by (simp add: hex4_def)
qed

lemma step_u_escape:
  assumes "n < 0xD800 \<or> 0xDFFF < n" and "n < 65536"
  shows "string_step (u_escape n @ t) = Some (Some (encode_rune n), t)"
  using assms by (auto simp: string_step_def u_escape_def get_u4_hex4 surrogate_pair_def)

lemma step_escape_byte:
  assumes "byte_in 0 0x7F c"
  shows "string_step (escape_byte c @ t) = Some (Some [c], t)"
proof -
  have ascii: "of_char c < (128 :: nat)" using assms by (simp add: byte_in_def)
  show ?thesis
  proof (cases "c \<in> {CHR 0x5C, CHR 0x22, CHR 0x08, CHR 0x0C, CHR 0x0A, CHR 0x0D, CHR 0x09}")
    case True
    then show ?thesis by (auto simp: escape_byte_def string_step_def escape_char_def)
  next
    case False
    show ?thesis
    proof (cases "byte_in 0 0x1F c \<or> c = CHR ''<'' \<or> c = CHR ''>'' \<or> c = CHR ''&''")
      case True
      with False have "escape_byte c = u_escape (of_char c)" by (simp add: escape_byte_def)
      then show ?thesis using step_u_escape [of "of_char c" t] ascii by (simp add: encode_rune_def)
    next
      case plain: False
      with False have "escape_byte c = [c]" by (simp add: escape_byte_def)
      then show ?thesis using rune_len_ascii [OF assms, of t] plain False by (simp add: string_step_def)
    qed
  qed
qed

lemma escape_separator:
  assumes "x = CHR 0xA8 \<and> u = 0x2028 \<or> x = CHR 0xA9 \<and> u = 0x2029"
  shows "rune_len ([CHR 0xE2, CHR 0x80, x] @ t) = 3" and "escape ([CHR 0xE2, CHR 0x80, x] @ t) = u_escape u @ escape t"
proof -
  show three: "rune_len ([CHR 0xE2, CHR 0x80, x] @ t) = 3"
    using assms by (cases t) (auto simp: byte_in_def)
  show "escape ([CHR 0xE2, CHR 0x80, x] @ t) = u_escape u @ escape t"
    using assms three
    by (auto simp: escape.simps(2) [of "CHR 0xE2"] byte_in_def Let_def simp del: escape.simps rune_len.simps)
qed

lemma scan_separator:
  assumes "x = CHR 0xA8 \<and> u = 0x2028 \<or> x = CHR 0xA9 \<and> u = (0x2029 :: nat)" and "s = [CHR 0xE2, CHR 0x80, x] @ t"
    and "scan_string (escape (drop (rune_len s) s) @ CHR 0x22 # r) = Some (drop (rune_len s) s, r)"
  shows "scan_string (escape s @ CHR 0x22 # r) = Some (s, r)"
proof -
  have three: "rune_len s = 3" and esc: "escape s = u_escape u @ escape t"
    unfolding assms(2) using escape_separator [OF assms(1)] by blast+
  have u: "encode_rune u = [CHR 0xE2, CHR 0x80, x]" "u < 0xD800 \<or> 0xDFFF < u" "u < 65536"
    using assms(1) by (auto simp: encode_rune_def char_of_eq_iff take_bit_eq_mod)
  have "scan_string (escape t @ CHR 0x22 # r) = Some (t, r)"
    using assms(3) unfolding three by (simp add: assms(2) del: escape.simps)
  from scan_string_piece [OF step_u_escape [OF u(2,3)] this] show ?thesis
    unfolding esc by (simp add: u(1) assms(2) del: escape.simps)
qed

lemma scan_escape: "utf8 s \<Longrightarrow> scan_string (escape s @ CHR 0x22 # r) = Some (s, r)"
proof (induction s rule: utf8.induct)
  case (1 s)
  show ?case
  proof (cases s)
    case Nil
    then show ?thesis by (simp add: scan_string.simps string_step_def)
  next
    case (Cons c cs)
    let ?n = "rune_len s"
    have n: "0 < ?n" and rest: "utf8 (drop ?n s)" using "1.prems" Cons by (auto simp: utf8.simps [of "c # cs"] split: if_splits)
    have IH: "scan_string (escape (drop ?n s) @ CHR 0x22 # r) = Some (drop ?n s, r)"
      using "1.IH" Cons n rest by blast
    consider (ascii) "byte_in 0 0x7F c"
      | (sep) x where "take 3 s = [CHR 0xE2, CHR 0x80, x]" "x = CHR 0xA8 \<or> x = CHR 0xA9"
      | (plain) "\<not> byte_in 0 0x7F c" "\<not> (\<exists>x. take 3 s = [CHR 0xE2, CHR 0x80, x] \<and> (x = CHR 0xA8 \<or> x = CHR 0xA9))"
      by blast
    then show ?thesis
    proof cases
      case ascii
      then have "?n = 1" using Cons rune_len_ascii by simp
      then show ?thesis
        using IH Cons ascii scan_string_piece [OF step_escape_byte [OF ascii], of _ cs r] by simp
    next
      case (sep x)
      from sep(1) obtain t where "s = [CHR 0xE2, CHR 0x80, x] @ t" by (metis append_take_drop_id)
      then show ?thesis using scan_separator [OF _ _ IH] sep(2) by blast
    next
      case plain
      then have esc: "escape s = take ?n s @ escape (drop ?n s)"
        using Cons n by (cases ?n) (auto simp: Let_def simp del: rune_len.simps)
      have "string_step (take ?n s @ t) = Some (Some (take ?n s), t)" for t
        using rune_len_extend [OF refl n, of t] plain(1) Cons n rune_len_le [of s]
        by (cases ?n) (auto simp: string_step_def byte_in_def simp del: rune_len.simps)
      from scan_string_piece [OF this IH] show ?thesis by (simp add: esc)
    qed
  qed
qed

subsection \<open>Numbers\<close>

text \<open>What may follow a number: nothing that would continue it.\<close>

definition ends_number :: "string \<Rightarrow> bool" where
  "ends_number r \<longleftrightarrow> (case r of [] \<Rightarrow> True
     | c # _ \<Rightarrow> \<not> is_digit c \<and> c \<noteq> CHR ''.'' \<and> c \<noteq> CHR ''e'' \<and> c \<noteq> CHR ''E'')"

definition is_number :: "string \<Rightarrow> bool" where
  "is_number l \<longleftrightarrow> scan_number l = Some (l, [])"

lemma digits_extend:
  assumes "ends_number r"
  shows "digits (s @ r) = digits s" and "drop (length (digits s)) (s @ r) = drop (length (digits s)) s @ r"
proof -
  have "takeWhile is_digit r = []" using assms by (cases r) (simp_all add: ends_number_def)
  then show "digits (s @ r) = digits s" unfolding digits_def by (induction s) auto
  show "drop (length (digits s)) (s @ r) = drop (length (digits s)) s @ r"
    by (simp add: digits_def length_takeWhile_le)
qed

lemma take_sign_extend: "s \<noteq> [] \<Longrightarrow> take_sign cs (s @ r) = take_sign cs s"
  by (cases s) (auto simp: take_sign_def)

lemma drop_sign_extend: "drop (length (take_sign cs s)) (s @ r) = drop (length (take_sign cs s)) s @ r"
  by (cases s) (auto simp: take_sign_def)

lemma scan_exp_extend:
  assumes "scan_exp lit s = Some (l, [])" and r: "ends_number r"
  shows "scan_exp lit (s @ r) = Some (l, r)"
proof (cases s)
  case Nil
  then show ?thesis using assms by (auto simp: scan_exp_def ends_number_def split: list.splits)
next
  case (Cons e t)
  let ?sign = "take_sign ''+-'' t"
  let ?t = "drop (length ?sign) t"
  have e: "e = CHR ''e'' \<or> e = CHR ''E''" and d: "digits ?t \<noteq> []" "l = lit @ e # ?sign @ digits ?t"
    "drop (length (digits ?t)) ?t = []"
    using assms(1) Cons by (auto simp: scan_exp_def Let_def split: if_splits)
  have "t \<noteq> []" using d(1) by (auto simp: digits_def)
  from Cons e d take_sign_extend [OF this, of "''+-''" r] show ?thesis
    by (simp add: scan_exp_def Let_def drop_sign_extend digits_extend [OF r] del: drop_append drop_drop)
qed

lemma scan_frac_extend:
  assumes "scan_frac lit s = Some (l, [])" and r: "ends_number r"
  shows "scan_frac lit (s @ r) = Some (l, r)"
proof (cases s)
  case Nil
  then have "l = lit" using assms(1) by (simp add: scan_frac_def)
  moreover have "scan_exp lit ([] @ r) = Some (lit, r)"
    by (rule scan_exp_extend [OF _ r]) (simp add: scan_exp_def)
  ultimately show ?thesis using Nil r by (auto simp: scan_frac_def ends_number_def split: list.split)
next
  case (Cons c t)
  show ?thesis
  proof (cases "c = CHR ''.''")
    case True
    then have "scan_exp (lit @ c # digits t) (drop (length (digits t)) t @ r) = Some (l, r)" "digits t \<noteq> []"
      using assms(1) Cons scan_exp_extend [OF _ r] by (auto simp: scan_frac_def split: if_splits)
    then show ?thesis using Cons True by (simp add: scan_frac_def digits_extend [OF r] del: drop_append)
  next
    case False
    then have "scan_exp lit (s @ r) = Some (l, r)"
      using assms(1) Cons by (intro scan_exp_extend [OF _ r]) (simp add: scan_frac_def)
    then show ?thesis using Cons False by (simp add: scan_frac_def)
  qed
qed

lemma scan_number_extend:
  assumes "is_number l" and r: "ends_number r"
  shows "scan_number (l @ r) = Some (l, r)"
proof -
  let ?sign = "take_sign ''-'' l"
  obtain d ds where t: "drop (length ?sign) l = d # ds"
    using assms(1) by (cases "drop (length ?sign) l") (auto simp: is_number_def scan_number_def Let_def)
  then have "l \<noteq> []" by auto
  note sign = take_sign_extend [OF this, of "''-''" r]
  have scan: "(if d = CHR ''0'' then scan_frac (?sign @ [d]) ds
      else if is_digit d then scan_frac (?sign @ digits (d # ds)) (drop (length (digits (d # ds))) (d # ds))
      else None) = Some (l, [])"
    using assms(1) unfolding is_number_def scan_number_def Let_def t list.case .
  have t': "drop (length ?sign) (l @ r) = (d # ds) @ r" by (simp only: drop_sign_extend t)
  show ?thesis
    unfolding scan_number_def Let_def sign t' using scan scan_frac_extend [OF _ r]
    by (simp add: digits_extend [OF r, of "d # ds", simplified] del: drop_append split: if_splits)
qed

lemma itoa_nat_head: "0 < n \<Longrightarrow> hd (itoa_nat n) \<noteq> CHR ''0''"
proof (induction n rule: itoa_nat.induct)
  case (1 n)
  show ?case
  proof (cases "n < 10")
    case True
    then show ?thesis using "1.prems" by (auto simp: itoa_nat.simps [of n] digit_def char_of_eq_iff take_bit_eq_mod)
  next
    case False
    then show ?thesis using "1.IH" itoa_nat_digits [of "n div 10"] by (simp add: itoa_nat.simps [of n])
  qed
qed

lemma is_number_itoa: "is_number (itoa i)"
proof -
  have nat: "scan_number (sign @ itoa_nat n) = Some (sign @ itoa_nat n, [])" if "sign = [] \<or> sign = ''-''" for sign n
  proof -
    obtain d ds where s: "itoa_nat n = d # ds" using itoa_nat_digits [of n] by (cases "itoa_nat n") auto
    have dig: "list_all is_digit (d # ds)" using itoa_nat_digits [of n] by (simp add: s)
    then have all: "digits (d # ds) = d # ds" by (simp add: digits_def takeWhile_eq_all_conv list_all_iff)
    have zero: "ds = []" if "d = CHR ''0''"
      using that itoa_nat_head [of n] s by (cases "n = 0") (auto simp: itoa_nat.simps)
    have frac: "scan_frac l [] = Some (l, [])" for l by (simp add: scan_frac_def)
    have "d \<noteq> CHR ''-''" using dig digit_not_minus by simp
    then show ?thesis
      using that dig all zero frac by (auto simp: s scan_number_def Let_def take_sign_def)
  qed
  show ?thesis using nat [of "[]" "nat i"] nat [of "''-''" "nat (- i)"] by (simp add: is_number_def itoa_def)
qed

lemma is_number_head: "is_number l \<Longrightarrow> \<exists>c t. l = c # t \<and> (is_digit c \<or> c = CHR ''-'')"
  by (cases l) (auto simp: is_number_def scan_number_def take_sign_def Let_def is_digit_def split: if_splits)

subsection \<open>Values\<close>

text \<open>Both writers are the layout \<open>pretty\<close>: \<open>nl d\<close> stands before what is at depth \<open>d\<close>, \<open>gap\<close> after a colon.\<close>

fun pretty :: "(nat \<Rightarrow> string) \<Rightarrow> string \<Rightarrow> nat \<Rightarrow> json \<Rightarrow> string" where
  "pretty nl gap d (JArr xs) =
     (if xs = [] then ''[]''
      else CHR ''['' # join '','' (map (\<lambda>v. nl (Suc d) @ pretty nl gap (Suc d) v) xs) @ nl d @ '']'')"
| "pretty nl gap d (JObj kvs) =
     (if kvs = [] then ''{}''
      else CHR ''{'' # join '',''
             (map (\<lambda>(k, v). nl (Suc d) @ quote k @ '':'' @ gap @ pretty nl gap (Suc d) v) kvs) @ nl d @ ''}'')"
| "pretty nl gap d JNull = json_text JNull"
| "pretty nl gap d (JBool b) = json_text (JBool b)"
| "pretty nl gap d (JNum l) = json_text (JNum l)"
| "pretty nl gap d (JStr s) = json_text (JStr s)"

lemma pretty_json_text: "pretty (\<lambda>_. []) [] d j = json_text j"
proof (induction j arbitrary: d)
  case (JArr xs)
  then show ?case by (simp cong: map_cong)
next
  case (JObj kvs)
  then have "map (\<lambda>(k, v). quote k @ '':'' @ pretty (\<lambda>_. []) [] (Suc d) v) kvs =
      map (\<lambda>(k, v). quote k @ '':'' @ json_text v) kvs"
    by (force simp: snds.simps)
  then show ?case by (simp del: map_eq_conv)
qed simp_all

lemma pretty_json_indent_text: "pretty newline_indent '' '' d j = json_indent_text d j"
proof (induction j arbitrary: d)
  case (JArr xs)
  then show ?case by (simp cong: map_cong)
next
  case (JObj kvs)
  then have "map (\<lambda>(k, v). newline_indent (Suc d) @ quote k @ '': '' @ pretty newline_indent '' '' (Suc d) v) kvs =
      map (\<lambda>(k, v). newline_indent (Suc d) @ quote k @ '': '' @ json_indent_text (Suc d) v) kvs"
    by (force simp: snds.simps)
  then show ?case by (simp del: map_eq_conv)
qed simp_all

text \<open>The values that can be written and read: at most \<open>n\<close> containers inside each other, UTF-8 strings, JSON numbers.\<close>

fun json_ok :: "nat \<Rightarrow> json \<Rightarrow> bool" where
  "json_ok n (JNum l) \<longleftrightarrow> is_number l"
| "json_ok n (JStr s) \<longleftrightarrow> utf8 s"
| "json_ok n (JArr xs) \<longleftrightarrow> 0 < n \<and> (\<forall>x \<in> set xs. json_ok (n - 1) x)"
| "json_ok n (JObj kvs) \<longleftrightarrow> 0 < n \<and> (\<forall>(k, v) \<in> set kvs. utf8 k \<and> json_ok (n - 1) v)"
| "json_ok n JNull \<longleftrightarrow> True"
| "json_ok n (JBool b) \<longleftrightarrow> True"

lemma skip_ws_append: "list_all is_ws w \<Longrightarrow> skip_ws (w @ s) = skip_ws s"
  by (induction w) (simp_all add: skip_ws_def)

lemma skip_ws_head: "\<not> is_ws c \<Longrightarrow> skip_ws (c # s) = c # s"
  by (simp add: skip_ws_def)

lemma join_Cons: "join '','' (x # xs) = x @ concat (map (\<lambda>y. CHR '','' # y) xs)"
  by (induction xs arbitrary: x) simp_all

lemma scan_key_quote: "utf8 k \<Longrightarrow> scan_key (quote k @ CHR '':'' # t) = Some (k, t)"
  by (simp add: scan_key_def quote_def scan_escape skip_ws_head is_ws_def)

lemma scan_scalar_number:
  assumes "is_number l" and "ends_number r"
  shows "scan_scalar (l @ r) = Some (JNum l, r)"
proof -
  obtain c t where "l = c # t" "is_digit c \<or> c = CHR ''-''" using is_number_head [OF assms(1)] by blast
  then have "\<not> prefix ''null'' (l @ r)" "\<not> prefix ''true'' (l @ r)" "\<not> prefix ''false'' (l @ r)" "\<not> prefix [CHR 0x22] (l @ r)"
    by (auto simp: is_digit_def)
  then show ?thesis by (simp add: scan_scalar_def scan_number_extend [OF assms])
qed

lemma scan_scalar_other:
  "scan_scalar (''null'' @ r) = Some (JNull, r)"
  "scan_scalar (''true'' @ r) = Some (JBool True, r)"
  "scan_scalar (''false'' @ r) = Some (JBool False, r)"
  "utf8 s \<Longrightarrow> scan_scalar (quote s @ r) = Some (JStr s, r)"
  by (simp_all add: scan_scalar_def quote_def scan_escape)

text \<open>No value starts with white space or a closing bracket.\<close>

lemma pretty_head:
  assumes "json_ok n j"
  shows "\<exists>c t. pretty nl gap d j = c # t \<and> \<not> is_ws c \<and> c \<noteq> CHR '']'' \<and> c \<noteq> CHR ''}''"
proof (cases j)
  case (JNum l)
  with assms obtain c t where "l = c # t" "is_digit c \<or> c = CHR ''-''" using is_number_head [of l] by auto
  then show ?thesis using JNum by (auto simp: is_ws_def is_digit_def)
qed (auto simp: is_ws_def quote_def)

text \<open>A value is read, whatever is open around it, and what follows is treated next.\<close>

definition reads :: "nat \<Rightarrow> string \<Rightarrow> json \<Rightarrow> bool" where
  "reads n text j \<longleftrightarrow> (\<forall>st w r. list_all is_ws w \<and> n + length st \<le> maxNestingDepth \<and> ends_number r \<longrightarrow>
     json_value st (w @ text @ r) = json_after st j r)"

lemma readsD:
  "reads n text j \<Longrightarrow> list_all is_ws w \<Longrightarrow> n + length st \<le> maxNestingDepth \<Longrightarrow> ends_number r \<Longrightarrow>
   json_value st (w @ text @ r) = json_after st j r"
  by (simp add: reads_def)

lemma reads_scalar:
  assumes "\<And>r. ends_number r \<Longrightarrow> scan_scalar (text @ r) = Some (j, r)"
    and "\<exists>c t. text = c # t \<and> \<not> is_ws c \<and> c \<noteq> CHR ''['' \<and> c \<noteq> CHR ''{''"
  shows "reads n text j"
  unfolding reads_def
proof (intro allI impI, elim conjE)
  fix st w r
  assume w: "list_all is_ws w" and r: "ends_number r"
  obtain c t where t: "text = c # t" "\<not> is_ws c" "c \<noteq> CHR ''[''" "c \<noteq> CHR ''{''" using assms(2) by blast
  then show "json_value st (w @ text @ r) = json_after st j r"
    using assms(1) [OF r] by (simp add: json_value.simps [of st] skip_ws_append [OF w] skip_ws_head)
qed

lemma ends_number_ws: "list_all is_ws w \<Longrightarrow> \<not> is_digit c \<Longrightarrow> c \<noteq> CHR ''.'' \<Longrightarrow> c \<noteq> CHR ''e'' \<Longrightarrow> c \<noteq> CHR ''E'' \<Longrightarrow>
    ends_number (w @ c # r)"
  by (cases w) (auto simp: ends_number_def is_ws_def is_digit_def)

lemma array_elements:
  assumes "\<forall>v \<in> set (x # xs). reads n (P v) v" and "n + Suc (length st) \<le> maxNestingDepth"
    and "list_all is_ws a" and "list_all is_ws b"
  shows "json_value (InArr vs # st) (a @ P x @ concat (map (\<lambda>y. CHR '','' # a @ P y) xs) @ b @ CHR '']'' # r) =
    json_after st (JArr (rev vs @ x # xs)) r"
  using assms(1)
proof (induction xs arbitrary: x vs)
  case Nil
  have "ends_number (b @ CHR '']'' # r)" using assms(4) by (rule ends_number_ws) (simp_all add: is_digit_def)
  then show ?case
    using Nil assms(2-4) readsD [of n "P x" x a "InArr vs # st" "b @ CHR '']'' # r"]
    by (simp add: skip_ws_append skip_ws_head is_ws_def)
next
  case (Cons y ys)
  let ?rest = "concat (map (\<lambda>y. CHR '','' # a @ P y) (y # ys)) @ b @ CHR '']'' # r"
  have "ends_number ?rest" by (simp add: ends_number_def is_digit_def)
  then have "json_value (InArr vs # st) (a @ P x @ ?rest) = json_after (InArr vs # st) x ?rest"
    using Cons.prems assms(2,3) by (intro readsD) auto
  also have "\<dots> = json_value (InArr (x # vs) # st)
      (a @ P y @ concat (map (\<lambda>y. CHR '','' # a @ P y) ys) @ b @ CHR '']'' # r)"
    by (simp add: skip_ws_head is_ws_def)
  also have "\<dots> = json_after st (JArr (rev (x # vs) @ y # ys)) r"
    using Cons.IH [of y "x # vs"] Cons.prems by simp
  finally show ?case by simp
qed

lemma object_entries:
  assumes "\<forall>(k, v) \<in> set ((k, v) # kvs). utf8 k \<and> reads n (P v) v" and "n + Suc (length st) \<le> maxNestingDepth"
    and "list_all is_ws a" and "list_all is_ws b" and "list_all is_ws gap"
  shows "json_value (InObj es k # st)
      (gap @ P v @ concat (map (\<lambda>(k, v). CHR '','' # a @ quote k @ CHR '':'' # gap @ P v) kvs) @ b @ CHR ''}'' # r) =
    json_after st (JObj (rev es @ (k, v) # kvs)) r"
  using assms(1)
proof (induction kvs arbitrary: k v es)
  case Nil
  have "ends_number (b @ CHR ''}'' # r)" using assms(4) by (rule ends_number_ws) (simp_all add: is_digit_def)
  then show ?case
    using Nil assms(2-5) readsD [of n "P v" v gap "InObj es k # st" "b @ CHR ''}'' # r"]
    by (simp add: skip_ws_append skip_ws_head is_ws_def)
next
  case (Cons kv kvs)
  obtain k' v' where kv: "kv = (k', v')" by (cases kv)
  let ?rest' = "concat (map (\<lambda>(k, v). CHR '','' # a @ quote k @ CHR '':'' # gap @ P v) kvs) @ b @ CHR ''}'' # r"
  let ?rest = "CHR '','' # a @ quote k' @ CHR '':'' # gap @ P v' @ ?rest'"
  have "ends_number ?rest" by (simp add: ends_number_def is_digit_def)
  then have "json_value (InObj es k # st) (gap @ P v @ ?rest) = json_after (InObj es k # st) v ?rest"
    using Cons.prems assms(2,5) by (intro readsD) auto
  also have "\<dots> = json_value (InObj ((k, v) # es) k' # st) (gap @ P v' @ ?rest')"
  proof -
    have "skip_ws (a @ quote k' @ CHR '':'' # gap @ P v' @ ?rest') = quote k' @ CHR '':'' # gap @ P v' @ ?rest'"
      by (simp add: skip_ws_append [OF assms(3)] quote_def skip_ws_head is_ws_def)
    moreover have "utf8 k'" using Cons.prems kv by simp
    ultimately show ?thesis by (simp add: scan_key_quote skip_ws_head [of "CHR '',''"] is_ws_def)
  qed
  also have "\<dots> = json_after st (JObj (rev ((k, v) # es) @ (k', v') # kvs)) r"
    using Cons.IH [of k' v' "(k, v) # es"] Cons.prems kv by simp
  finally show ?case by (simp add: kv)
qed

lemma reads_array:
  assumes "\<forall>v \<in> set xs. reads n (pretty nl gap (Suc d) v) v \<and> json_ok m v" and "\<forall>d. list_all is_ws (nl d)"
  shows "reads (Suc n) (pretty nl gap d (JArr xs)) (JArr xs)"
  unfolding reads_def
proof (intro allI impI, elim conjE)
  fix st :: "jframe list" and w r :: string
  assume w: "list_all is_ws w" and n: "Suc n + length st \<le> maxNestingDepth"
  show "json_value st (w @ pretty nl gap d (JArr xs) @ r) = json_after st (JArr xs) r"
  proof (cases xs)
    case Nil
    then show ?thesis using n
      by (simp add: json_value.simps [of st] skip_ws_append [OF w] skip_ws_head is_ws_def)
  next
    case (Cons x ys)
    let ?P = "pretty nl gap (Suc d)"
    let ?body = "nl (Suc d) @ ?P x @ concat (map (\<lambda>y. CHR '','' # nl (Suc d) @ ?P y) ys) @ nl d @ CHR '']'' # r"
    have layout: "pretty nl gap d (JArr xs) @ r = CHR ''['' # ?body"
      by (simp add: Cons join_Cons comp_def)
    obtain c t where "?P x = c # t" "\<not> is_ws c" "c \<noteq> CHR '']''" using pretty_head [of m x] assms(1) Cons by fastforce
    then have "\<not> prefix '']'' (skip_ws ?body)" using assms(2) by (simp add: skip_ws_append skip_ws_head)
    then have "json_value st (w @ CHR ''['' # ?body) = json_value (InArr [] # st) ?body"
      using n by (simp add: json_value.simps [of st] skip_ws_append [OF w] skip_ws_head [of "CHR ''[''"] is_ws_def)
    also have "\<dots> = json_after st (JArr xs) r"
      using array_elements [of x ys n ?P st "nl (Suc d)" "nl d" "[]" r] assms n Cons by simp
    finally show ?thesis unfolding layout .
  qed
qed

lemma reads_object:
  assumes "\<forall>(k, v) \<in> set kvs. utf8 k \<and> reads n (pretty nl gap (Suc d) v) v" and "\<forall>d. list_all is_ws (nl d)"
    and "list_all is_ws gap"
  shows "reads (Suc n) (pretty nl gap d (JObj kvs)) (JObj kvs)"
  unfolding reads_def
proof (intro allI impI, elim conjE)
  fix st :: "jframe list" and w r :: string
  assume w: "list_all is_ws w" and n: "Suc n + length st \<le> maxNestingDepth"
  show "json_value st (w @ pretty nl gap d (JObj kvs) @ r) = json_after st (JObj kvs) r"
  proof (cases kvs)
    case Nil
    then show ?thesis using n
      by (simp add: json_value.simps [of st] skip_ws_append [OF w] skip_ws_head is_ws_def)
  next
    case (Cons kv ys)
    obtain k v where kv: "kv = (k, v)" by (cases kv)
    let ?P = "pretty nl gap (Suc d)"
    let ?vals = "gap @ ?P v @ concat (map (\<lambda>(k, v). CHR '','' # nl (Suc d) @ quote k @ CHR '':'' # gap @ ?P v) ys) @ nl d @ CHR ''}'' # r"
    let ?body = "nl (Suc d) @ quote k @ CHR '':'' # ?vals"
    have layout: "pretty nl gap d (JObj kvs) @ r = CHR ''{'' # ?body"
      by (simp add: Cons kv join_Cons comp_def prod.case_distrib [of "\<lambda>t. CHR '','' # t"])
    have skip: "skip_ws ?body = quote k @ CHR '':'' # ?vals"
      using assms(2) by (simp add: skip_ws_append quote_def skip_ws_head is_ws_def)
    have "utf8 k" using assms(1) Cons kv by simp
    then have "json_value st (w @ CHR ''{'' # ?body) = json_value (InObj [] k # st) ?vals"
      using n skip by (simp add: json_value.simps [of st] skip_ws_append [OF w] skip_ws_head [of "CHR ''{''"] is_ws_def
          scan_key_quote) (simp add: quote_def)
    also have "\<dots> = json_after st (JObj kvs) r"
      using object_entries [of k v ys n ?P st "nl (Suc d)" "nl d" gap "[]" r] assms n Cons kv by simp
    finally show ?thesis unfolding layout .
  qed
qed

lemma reads_pretty:
  assumes "\<forall>d. list_all is_ws (nl d)" and "list_all is_ws gap"
  shows "json_ok n j \<Longrightarrow> reads n (pretty nl gap d j) j"
proof (induction j arbitrary: n d)
  case (JBool b)
  show ?case by (rule reads_scalar) (use scan_scalar_other(2,3) in \<open>auto simp: is_ws_def\<close>)
next
  case (JNum l)
  then obtain c t where "l = c # t" "is_digit c \<or> c = CHR ''-''" using is_number_head [of l] by auto
  then show ?case using JNum scan_scalar_number [of l]
    by (intro reads_scalar) (auto simp: is_ws_def is_digit_def)
next
  case (JStr s)
  then show ?case using scan_scalar_other(4) [of s] by (intro reads_scalar) (auto simp: quote_def is_ws_def)
next
  case (JArr xs)
  then obtain m where n: "n = Suc m" by (cases n) auto
  have "\<forall>v \<in> set xs. reads m (pretty nl gap (Suc d) v) v \<and> json_ok m v" using JArr n by auto
  from reads_array [OF this assms(1)] show ?case by (simp only: n)
next
  case (JObj kvs)
  then obtain m where n: "n = Suc m" by (cases n) auto
  have "\<forall>(k, v) \<in> set kvs. utf8 k \<and> reads m (pretty nl gap (Suc d) v) v"
    using JObj n by (fastforce simp: snds.simps)
  from reads_object [OF this assms] show ?case by (simp only: n)
qed (rule reads_scalar, use scan_scalar_other(1) in \<open>auto simp: is_ws_def\<close>)

lemma read_back:
  assumes "\<forall>d. list_all is_ws (nl d)" and "list_all is_ws gap" and "json_ok maxNestingDepth j"
  shows "json_value [] (pretty nl gap d j) = Some (j, [])"
proof -
  have "json_value [] ([] @ pretty nl gap d j @ []) = json_after [] j []"
    by (rule readsD [OF reads_pretty [OF assms]]) (simp_all add: ends_number_def)
  then show ?thesis by simp
qed

text \<open>The JSON of the two writers is read back as the value it was written from.\<close>

lemma json_value_json_text: "json_ok maxNestingDepth j \<Longrightarrow> json_value [] (json_text j) = Some (j, [])"
  using read_back [of "\<lambda>_. []" "[]" j 0] by (simp add: pretty_json_text)

lemma unmarshal_json_text: "json_ok maxNestingDepth j \<Longrightarrow> json_unmarshal (json_text j) = Some j"
  by (simp add: json_value_json_text json_unmarshal_def skip_ws_def)

lemma decode_json_text: "json_ok maxNestingDepth j \<Longrightarrow> json_decode (json_text j) = Some j"
  by (simp add: json_value_json_text json_decode_def)

text \<open>The encoder of a response writes a newline after the value.\<close>

lemma decode_json_line: "json_ok maxNestingDepth j \<Longrightarrow> json_decode (json_text j @ [CHR 0x0A]) = Some j"
proof -
  assume "json_ok maxNestingDepth j"
  then have "reads maxNestingDepth (pretty (\<lambda>_. []) [] 0 j) j" by (intro reads_pretty) simp_all
  then have "json_value [] ([] @ json_text j @ [CHR 0x0A]) = json_after [] j [CHR 0x0A]"
    unfolding pretty_json_text by (rule readsD) (simp_all add: ends_number_def is_digit_def)
  then show ?thesis by (simp add: json_decode_def)
qed

lemma unmarshal_json_indent_text: "json_ok maxNestingDepth j \<Longrightarrow> json_unmarshal (json_indent_text 0 j) = Some j"
  using read_back [of newline_indent "'' ''" j 0]
  by (simp add: pretty_json_indent_text newline_indent_def is_ws_def list_all_iff json_unmarshal_def skip_ws_def)

text \<open>Plain text is UTF-8.\<close>

lemma utf8_ascii: "list_all (byte_in 0 0x7F) s \<Longrightarrow> utf8 s"
proof (induction s)
  case (Cons c cs)
  then show ?case using rune_len_ascii [of c cs] by (simp add: utf8.simps [of "c # cs"])
qed (simp add: utf8.simps)

lemma json_ok_mono: "json_ok m j \<Longrightarrow> m \<le> n \<Longrightarrow> json_ok n j"
proof (induction j arbitrary: m n)
  case (JArr xs)
  then show ?case by (auto intro: diff_le_mono)
next
  case (JObj kvs)
  then show ?case by (fastforce simp: snds.simps intro: diff_le_mono)
qed auto

text \<open>An environment for the examples.\<close>

definition sample_env :: go_env where
  "sample_env = \<lparr>float_lit = Some, unicode_lower = id\<rparr>"

end
