(* ===== verification/Messages.thy ===== *)
theory Messages
  imports JsonScan
begin

text \<open>
  \<^verbatim>\<open>internal/hub/message.go\<close>: the wire protocol. A \<open>Message\<close> payload is the JSON image of the Go value
  stored in the \<^verbatim>\<open>interface{}\<close> (\<open>JNull\<close> for nil). \<open>Message_json\<close> and \<open>UserInfo_json\<close> follow the struct
  tags, with the \<^verbatim>\<open>omitempty\<close> fields left out; \<open>decode_Message\<close> and \<open>decode_UserInfo\<close> are the inverse
  that \<^verbatim>\<open>json.Unmarshal\<close> applies. The main lemma is the round trip of a message.
\<close>

definition MsgTypeUserInfo :: string where "MsgTypeUserInfo = ''user_info''"
definition MsgTypePing :: string where "MsgTypePing = ''ping''"
definition MsgTypeJoinRoom :: string where "MsgTypeJoinRoom = ''join_room''"
definition MsgTypeLeaveRoom :: string where "MsgTypeLeaveRoom = ''leave_room''"
definition MsgTypeDirect :: string where "MsgTypeDirect = ''direct''"
definition MsgTypeRoomMessage :: string where "MsgTypeRoomMessage = ''room_message''"
definition MsgTypeBroadcast :: string where "MsgTypeBroadcast = ''broadcast''"
definition MsgTypePong :: string where "MsgTypePong = ''pong''"
definition MsgTypeError :: string where "MsgTypeError = ''error''"
definition MsgTypeSystem :: string where "MsgTypeSystem = ''system''"
definition MsgTypeAck :: string where "MsgTypeAck = ''ack''"
definition MsgTypeUserJoined :: string where "MsgTypeUserJoined = ''user_joined''"
definition MsgTypeUserLeft :: string where "MsgTypeUserLeft = ''user_left''"
definition MsgTypePresence :: string where "MsgTypePresence = ''presence''"

lemmas MsgType_defs =
  MsgTypeUserInfo_def MsgTypePing_def MsgTypeJoinRoom_def MsgTypeLeaveRoom_def MsgTypeDirect_def
  MsgTypeRoomMessage_def MsgTypeBroadcast_def MsgTypePong_def MsgTypeError_def MsgTypeSystem_def
  MsgTypeAck_def MsgTypeUserJoined_def MsgTypeUserLeft_def MsgTypePresence_def

record Message =
  m_Type :: string
  m_ID :: string
  m_UserID :: string
  m_TargetID :: string
  m_Room :: string
  m_Payload :: json
  m_Timestamp :: int

record UserInfo =
  ui_UserID :: string
  ui_DisplayName :: string
  ui_Avatar :: string
  ui_Status :: string
  ui_Metadata :: "(string, string) gomap"

text \<open>The zero values, which a composite literal gives to the fields it does not name.\<close>

definition zero_Message :: Message where
  "zero_Message = \<lparr>m_Type = [], m_ID = [], m_UserID = [], m_TargetID = [], m_Room = [],
     m_Payload = JNull, m_Timestamp = 0\<rparr>"

definition zero_UserInfo :: UserInfo where
  "zero_UserInfo = \<lparr>ui_UserID = [], ui_DisplayName = [], ui_Avatar = [], ui_Status = [],
     ui_Metadata = []\<rparr>"

definition NewMessage :: "int \<Rightarrow> string \<Rightarrow> json \<Rightarrow> Message" where
  "NewMessage now msgType payload =
     zero_Message\<lparr>m_Type := msgType, m_Payload := payload, m_Timestamp := now\<rparr>"

definition NewSystemMessage :: "int \<Rightarrow> string \<Rightarrow> Message" where
  "NewSystemMessage now text = zero_Message\<lparr>m_Type := MsgTypeSystem,
     m_Payload := JObj [(''text'', JStr text)], m_Timestamp := now\<rparr>"

definition NewErrorMessage :: "int \<Rightarrow> string \<Rightarrow> Message" where
  "NewErrorMessage now err = zero_Message\<lparr>m_Type := MsgTypeError,
     m_Payload := JObj [(''error'', JStr err)], m_Timestamp := now\<rparr>"

definition NewAckMessage :: "int \<Rightarrow> string \<Rightarrow> Message" where
  "NewAckMessage now originalID = zero_Message\<lparr>m_Type := MsgTypeAck, m_ID := originalID,
     m_Payload := JObj [(''status'', JStr ''ok'')], m_Timestamp := now\<rparr>"

section \<open>The struct tags\<close>

definition opt_json :: "string \<Rightarrow> json \<Rightarrow> (string \<times> json) list" where
  "opt_json k j = (if j = JNull then [] else [(k, j)])"

definition Message_json :: "Message \<Rightarrow> json" where
  "Message_json m = JObj (
     [(''type'', JStr (m_Type m))]
     @ opt_str ''id'' (m_ID m)
     @ opt_str ''user_id'' (m_UserID m)
     @ opt_str ''target_id'' (m_TargetID m)
     @ opt_str ''room'' (m_Room m)
     @ opt_json ''payload'' (m_Payload m)
     @ [(''timestamp'', JNum (itoa (m_Timestamp m)))])"

definition UserInfo_json :: "UserInfo \<Rightarrow> json" where
  "UserInfo_json u = JObj (
     [(''user_id'', JStr (ui_UserID u))]
     @ opt_str ''display_name'' (ui_DisplayName u)
     @ opt_str ''avatar'' (ui_Avatar u)
     @ opt_str ''status'' (ui_Status u)
     @ (if ui_Metadata u = [] then [] else [(''metadata'', map_json JStr (ui_Metadata u))]))"

text \<open>\<^verbatim>\<open>json.Marshal(msg)\<close>. The values a message can hold always have a JSON text, so the error
  result, which every caller handles, does not occur.\<close>

definition Marshal :: "Message \<Rightarrow> string option" where
  "Marshal m = Some (json_text (Message_json m))"

definition Message_fields :: "string list" where
  "Message_fields = [''type'', ''id'', ''user_id'', ''target_id'', ''room'', ''payload'', ''timestamp'']"

definition set_Message_field ::
  "(string \<Rightarrow> string option) \<Rightarrow> string \<Rightarrow> json \<Rightarrow> Message \<Rightarrow> Message option" where
  "set_Message_field fl n j m =
     (if n = ''type'' then map_option (\<lambda>s. m\<lparr>m_Type := s\<rparr>) (decode_str j (m_Type m))
      else if n = ''id'' then map_option (\<lambda>s. m\<lparr>m_ID := s\<rparr>) (decode_str j (m_ID m))
      else if n = ''user_id'' then map_option (\<lambda>s. m\<lparr>m_UserID := s\<rparr>) (decode_str j (m_UserID m))
      else if n = ''target_id'' then map_option (\<lambda>s. m\<lparr>m_TargetID := s\<rparr>) (decode_str j (m_TargetID m))
      else if n = ''room'' then map_option (\<lambda>s. m\<lparr>m_Room := s\<rparr>) (decode_str j (m_Room m))
      else if n = ''payload'' then map_option (\<lambda>v. m\<lparr>m_Payload := v\<rparr>) (to_iface fl j)
      else map_option (\<lambda>i. m\<lparr>m_Timestamp := i\<rparr>) (decode_int64 j (m_Timestamp m)))"

definition decode_Message :: "(string \<Rightarrow> string option) \<Rightarrow> json \<Rightarrow> Message option" where
  "decode_Message fl j = decode_struct Message_fields (set_Message_field fl) j zero_Message"

text \<open>\<^verbatim>\<open>json.Unmarshal(raw, &msg)\<close>: a scan of the bytes, then the fields.\<close>

definition Unmarshal_Message :: "go_env \<Rightarrow> string \<Rightarrow> Message option" where
  "Unmarshal_Message env raw = (case json_unmarshal raw of
       None \<Rightarrow> None
     | Some j \<Rightarrow> decode_Message (float_lit env) j)"

definition UserInfo_fields :: "string list" where
  "UserInfo_fields = [''user_id'', ''display_name'', ''avatar'', ''status'', ''metadata'']"

definition set_UserInfo_field :: "string \<Rightarrow> json \<Rightarrow> UserInfo \<Rightarrow> UserInfo option" where
  "set_UserInfo_field n j u =
     (if n = ''user_id'' then map_option (\<lambda>s. u\<lparr>ui_UserID := s\<rparr>) (decode_str j (ui_UserID u))
      else if n = ''display_name''
      then map_option (\<lambda>s. u\<lparr>ui_DisplayName := s\<rparr>) (decode_str j (ui_DisplayName u))
      else if n = ''avatar'' then map_option (\<lambda>s. u\<lparr>ui_Avatar := s\<rparr>) (decode_str j (ui_Avatar u))
      else if n = ''status'' then map_option (\<lambda>s. u\<lparr>ui_Status := s\<rparr>) (decode_str j (ui_Status u))
      else map_option (\<lambda>v. u\<lparr>ui_Metadata := v\<rparr>) (decode_str_map j (ui_Metadata u)))"

definition decode_UserInfo :: "json \<Rightarrow> UserInfo option" where
  "decode_UserInfo j = decode_struct UserInfo_fields set_UserInfo_field j zero_UserInfo"

section \<open>Round trip\<close>

lemma decode_fields_opt_str:
  "k \<in> set names \<Longrightarrow>
   decode_fields names f (opt_str k s) r = (if s = [] then Some r else f k (JStr s) r)"
  by (auto simp: opt_str_def split: option.splits)

lemma decode_fields_opt_json:
  "k \<in> set names \<Longrightarrow>
   decode_fields names f (opt_json k j) r = (if j = JNull then Some r else f k j r)"
  by (auto simp: opt_json_def split: option.splits)

lemma decode_fields_one:
  "k \<in> set names \<Longrightarrow> decode_fields names f [(k, j)] r = f k j r"
  by (auto split: option.splits)

lemmas decode_step_simps =
  decode_fields_append decode_fields_opt_str decode_fields_opt_json decode_fields_one

lemma Message_roundtrip:
  assumes "- (2 ^ 63) \<le> m_Timestamp m" and "m_Timestamp m < 2 ^ 63"
    and "to_iface fl (m_Payload m) = Some (m_Payload m)"
  shows "decode_Message fl (Message_json m) = Some m"
proof -
  have ts: "ParseInt64 (itoa (m_Timestamp m)) = Some (m_Timestamp m)"
    using assms(1,2) by (rule ParseInt64_itoa)
  have mem: "set Message_fields = {''type'', ''id'', ''user_id'', ''target_id'', ''room'',
      ''payload'', ''timestamp''}"
    by (simp add: Message_fields_def)
  show ?thesis
    using assms(3) ts
    by (cases m)
       (simp add: decode_Message_def decode_struct_def Message_json_def decode_step_simps mem
          set_Message_field_def decode_str_def decode_int64_def zero_Message_def
          del: append.simps)
qed

text \<open>The JSON of a message is one that is read back: its strings are UTF-8 and its payload can be written and read.\<close>

definition message_ok :: "Message \<Rightarrow> bool" where
  "message_ok m \<longleftrightarrow> utf8 (m_Type m) \<and> utf8 (m_ID m) \<and> utf8 (m_UserID m) \<and> utf8 (m_TargetID m) \<and> utf8 (m_Room m) \<and>
     json_ok 1000 (m_Payload m)"

lemma Message_json_ok:
  assumes "message_ok m"
  shows "json_ok 1001 (Message_json m)"
proof -
  have "utf8 ''type'' \<and> utf8 ''id'' \<and> utf8 ''user_id'' \<and> utf8 ''target_id'' \<and> utf8 ''room'' \<and> utf8 ''payload'' \<and> utf8 ''timestamp''"
    by (simp add: utf8_ascii byte_in_def)
  then show ?thesis
    using assms is_number_itoa by (auto simp: Message_json_def message_ok_def opt_str_def opt_json_def)
qed

text \<open>C34. Messages survive the wire: a message whose payload is a value the decoder can produce, whose strings are UTF-8 and whose time
  fits an \<^verbatim>\<open>int64\<close> is read back unchanged from the text \<^verbatim>\<open>json.Marshal\<close> writes.\<close>

theorem message_survives_wire:
  assumes "- (2 ^ 63) \<le> m_Timestamp m" and "m_Timestamp m < 2 ^ 63"
    and "to_iface (float_lit env) (m_Payload m) = Some (m_Payload m)"
    and "message_ok m" and "Marshal m = Some data"
  shows "Unmarshal_Message env data = Some m"
proof -
  have "json_unmarshal data = Some (Message_json m)"
    using assms(5) json_ok_mono [OF Message_json_ok [OF assms(4)], of maxNestingDepth]
    by (auto simp: Marshal_def unmarshal_json_text maxNestingDepth_def)
  then show ?thesis using Message_roundtrip [OF assms(1-3)] by (simp add: Unmarshal_Message_def)
qed

definition ping_message :: Message where
  "ping_message = zero_Message\<lparr>m_Type := MsgTypePing, m_ID := ''7'', m_Payload := JObj [(''n'', JStr ''x'')], m_Timestamp := 1780931032659\<rparr>"

theorem message_survives_wire_witness:
  "Unmarshal_Message sample_env (json_text (Message_json ping_message)) = Some ping_message"
proof -
  have "message_ok ping_message"
    by (simp add: message_ok_def ping_message_def zero_Message_def MsgTypePing_def utf8_ascii byte_in_def)
  then show ?thesis
    using message_survives_wire [of ping_message sample_env "json_text (Message_json ping_message)"]
    by (simp add: Marshal_def sample_env_def ping_message_def zero_Message_def last_wins_def)
qed

end
