(* ===== verification/SseBroker.thy ===== *)
theory SseBroker
  imports GoChan Messages
begin

text \<open>
  \<^verbatim>\<open>internal/transport/sse.go\<close>, the broker: subscriptions per channel and the replay buffers. An
  \<^verbatim>\<open>*SSEClient\<close> is an address in \<open>sb_heap\<close>, so that the broker's sets and the handler that serves the
  client see the same object. The methods hold their locks while they work on the maps, so each is
  one step; \<^verbatim>\<open>replayLimit\<close> is the field \<open>sb_limit\<close>, which \<^verbatim>\<open>NewSSEBroker\<close> sets to 100, and the event
  counter is a 64-bit word.
\<close>

type_synonym sref = nat

record SSEClient =
  sc_Channel :: string
  sc_APIKey :: string
  sc_Events :: "string gochan"
  sc_Done :: "unit gochan"

record ReplayEntry =
  re_ID :: "64 word"
  re_Data :: string

record SSEBroker =
  sb_heap :: "sref \<rightharpoonup> SSEClient"
  sb_next :: sref
  sb_clients :: "(string, sref list) gomap"
  sb_replay :: "(string, ReplayEntry list) gomap"
  sb_limit :: nat
  sb_eventID :: "64 word"

definition NewSSEBroker :: SSEBroker where
  "NewSSEBroker = \<lparr>sb_heap = Map.empty, sb_next = 0, sb_clients = [], sb_replay = [],
     sb_limit = 100, sb_eventID = 0\<rparr>"

text \<open>The set stored for a channel; a missing entry reads as the nil map, which is empty.\<close>

definition subs_of :: "SSEBroker \<Rightarrow> string \<Rightarrow> sref list" where
  "subs_of b channel = members (sb_clients b) channel"

definition Subscribe :: "string \<Rightarrow> string \<Rightarrow> SSEBroker \<Rightarrow> SSEBroker \<times> sref" where
  "Subscribe channel apiKey b =
     (let client = \<lparr>sc_Channel = channel, sc_APIKey = apiKey, sc_Events = make_chan 64,
                    sc_Done = make_chan 0\<rparr>;
          r = sb_next b
      in (b\<lparr>sb_heap := (sb_heap b)(r \<mapsto> client), sb_next := Suc r,
            sb_clients := AList.update channel (List.insert r (subs_of b channel)) (sb_clients b)\<rparr>, r))"

definition close_done :: "sref \<Rightarrow> SSEBroker \<Rightarrow> SSEBroker outcome" where
  "close_done r b = (case sb_heap b r of
       None \<Rightarrow> Panic NilDereference
     | Some c \<Rightarrow> and_then (close_chan (sc_Done c)) (\<lambda>q.
         Done (b\<lparr>sb_heap := (sb_heap b)(r \<mapsto> c\<lparr>sc_Done := q\<rparr>)\<rparr>)))"

definition remove_sub :: "string \<Rightarrow> sref \<Rightarrow> SSEBroker \<Rightarrow> SSEBroker" where
  "remove_sub channel r b = b\<lparr>sb_clients := AList.update channel (removeAll r (subs_of b channel)) (sb_clients b)\<rparr>"

definition Unsubscribe :: "sref \<Rightarrow> SSEBroker \<Rightarrow> SSEBroker outcome" where
  "Unsubscribe r b = (case sb_heap b r of
       None \<Rightarrow> Panic NilDereference
     | Some c \<Rightarrow>
         let ch = sc_Channel c;
             b1 = (case map_of (sb_clients b) ch of
                 None \<Rightarrow> b
               | Some subs \<Rightarrow>
                   if removeAll r subs = [] then b\<lparr>sb_clients := AList.delete ch (sb_clients b)\<rparr>
                   else remove_sub ch r b)
         in close_done r b1)"

text \<open>The body of the inner loop of \<^verbatim>\<open>DisconnectKey\<close>, with the count of the dropped clients.\<close>

definition disconnect_sub :: "string \<Rightarrow> string \<Rightarrow> sref \<Rightarrow> SSEBroker \<times> nat \<Rightarrow> (SSEBroker \<times> nat) outcome" where
  "disconnect_sub apiKey ch r st = (case st of (b, n) \<Rightarrow>
     (case sb_heap b r of
        None \<Rightarrow> Panic NilDereference
      | Some c \<Rightarrow>
          if sc_APIKey c = apiKey
          then and_then (close_done r b) (\<lambda>b1. Done (remove_sub ch r b1, Suc n))
          else Done (b, n)))"

definition DisconnectKey_sse :: "string \<Rightarrow> SSEBroker \<Rightarrow> (SSEBroker \<times> nat) outcome" where
  "DisconnectKey_sse apiKey b =
     and_then (each (\<lambda>(ch, subs) st. each (disconnect_sub apiKey ch) subs st) (sb_clients b) (b, 0))
       (\<lambda>(b', n). if 0 < n then and_then (slice_to 8 apiKey) (\<lambda>_. Done (b', n)) else Done (b', n))"

text \<open>\<^verbatim>\<open>select { case client.Events <- data: delivered++ default: }\<close>\<close>

definition sse_offer :: "string \<Rightarrow> sref \<Rightarrow> SSEBroker \<times> nat \<Rightarrow> (SSEBroker \<times> nat) outcome" where
  "sse_offer data r st = (case st of (b, n) \<Rightarrow>
     (case sb_heap b r of
        None \<Rightarrow> Panic NilDereference
      | Some c \<Rightarrow> and_then (try_send data (sc_Events c)) (\<lambda>(q, sent).
          Done (b\<lparr>sb_heap := (sb_heap b)(r \<mapsto> c\<lparr>sc_Events := q\<rparr>)\<rparr>, if sent then Suc n else n))))"

definition replay_of :: "SSEBroker \<Rightarrow> string \<Rightarrow> ReplayEntry list" where
  "replay_of b channel = (case map_of (sb_replay b) channel of None \<Rightarrow> [] | Some buf \<Rightarrow> buf)"

text \<open>The event ID and the entry of \<^verbatim>\<open>Publish\<close>: the next ID, and the entry at the end of a buffer that drops its oldest
  entry when it is full. The ID is taken before \<^verbatim>\<open>replayMu\<close> is locked; two publications at the same time may enter the buffer in
  the other order, which a step of the model, a whole \<^verbatim>\<open>Publish\<close>, does not show.\<close>

definition record_event :: "string \<Rightarrow> string \<Rightarrow> SSEBroker \<Rightarrow> SSEBroker outcome" where
  "record_event channel data b =
     (let eventID = sb_eventID b + 1;
          buf = replay_of b channel
      in and_then (if sb_limit b \<le> length buf then slice_from 1 buf else Done buf) (\<lambda>buf'.
           Done (b\<lparr>sb_eventID := eventID,
                   sb_replay := AList.update channel (buf' @ [\<lparr>re_ID = eventID, re_Data = data\<rparr>])
                                  (sb_replay b)\<rparr>)))"

definition Publish :: "string \<Rightarrow> Message \<Rightarrow> SSEBroker \<Rightarrow> (SSEBroker \<times> nat) outcome" where
  "Publish channel msg b = (case Marshal msg of
       None \<Rightarrow> Done (b, 0)
     | Some data \<Rightarrow> and_then (record_event channel data b) (\<lambda>b1.
         (case map_of (sb_clients b1) channel of
            None \<Rightarrow> Done (b1, 0)
          | Some subs \<Rightarrow> each (sse_offer data) subs (b1, 0))))"

definition PublishAll :: "Message \<Rightarrow> SSEBroker \<Rightarrow> (SSEBroker \<times> nat) outcome" where
  "PublishAll msg b = (case Marshal msg of
       None \<Rightarrow> Done (b, 0)
     | Some data \<Rightarrow> each (\<lambda>(_, subs) st. each (sse_offer data) subs st) (sb_clients b) (b, 0))"

definition GetCurrentEventID :: "SSEBroker \<Rightarrow> 64 word" where
  "GetCurrentEventID b = sb_eventID b"

definition GetReplaySince :: "SSEBroker \<Rightarrow> string \<Rightarrow> 64 word \<Rightarrow> ReplayEntry list" where
  "GetReplaySince b channel lastEventID = (case map_of (sb_replay b) channel of
       None \<Rightarrow> []
     | Some buf \<Rightarrow> filter (\<lambda>e. lastEventID < re_ID e) buf)"

definition TotalSubscribers :: "SSEBroker \<Rightarrow> nat" where
  "TotalSubscribers b = sum_list (map (\<lambda>(_, subs). length subs) (sb_clients b))"

section \<open>Invariants\<close>

text \<open>Every filed client is filed once, under its own channel; a client's \<^verbatim>\<open>Done\<close> channel is open
  exactly while it is filed, and nobody ever closes \<^verbatim>\<open>Events\<close>.\<close>

definition broker_ok :: "SSEBroker \<Rightarrow> bool" where
  "broker_ok b \<longleftrightarrow> gomap_ok (sb_clients b) \<and> 0 < sb_limit b \<and>
     (\<forall>ch. distinct (subs_of b ch)) \<and>
     (\<forall>ch r. r \<in> set (subs_of b ch) \<longrightarrow> (\<exists>c. sb_heap b r = Some c \<and> sc_Channel c = ch)) \<and>
     (\<forall>r c. sb_heap b r = Some c \<longrightarrow> r < sb_next b \<and> \<not> ch_closed (sc_Events c) \<and>
        (r \<in> set (subs_of b (sc_Channel c)) \<longleftrightarrow> \<not> ch_closed (sc_Done c)))"

definition sse_live :: "SSEBroker \<times> nat \<Rightarrow> sref \<Rightarrow> bool" where
  "sse_live st r \<longleftrightarrow> (\<exists>c. sb_heap (fst st) r = Some c \<and> \<not> ch_closed (sc_Events c))"

definition sse_inbox :: "SSEBroker \<times> nat \<Rightarrow> sref \<Rightarrow> string list" where
  "sse_inbox st r = (case sb_heap (fst st) r of None \<Rightarrow> [] | Some c \<Rightarrow> ch_buf (sc_Events c))"

definition sse_space :: "SSEBroker \<times> nat \<Rightarrow> sref \<Rightarrow> bool" where
  "sse_space st r = (case sb_heap (fst st) r of None \<Rightarrow> False | Some c \<Rightarrow> ch_space (sc_Events c))"

definition offered :: "string \<Rightarrow> sref \<Rightarrow> SSEClient \<Rightarrow> SSEBroker \<Rightarrow> SSEBroker" where
  "offered d r c b = b\<lparr>sb_heap := (sb_heap b)(r \<mapsto> c\<lparr>sc_Events := if ch_space (sc_Events c)
     then (sc_Events c)\<lparr>ch_buf := ch_buf (sc_Events c) @ [d]\<rparr> else sc_Events c\<rparr>)\<rparr>"

lemma sse_offer_eq:
  "sse_offer d r (b, n) = (case sb_heap b r of
       None \<Rightarrow> Panic NilDereference
     | Some c \<Rightarrow> if ch_closed (sc_Events c) then Panic SendOnClosedChannel
         else Done (offered d r c b, if ch_space (sc_Events c) then Suc n else n))"
  by (simp add: sse_offer_def try_send_def offered_def del: and_then_eq_Done split: option.split)

lemma sse_offer_Done:
  "sse_offer d r (b, n) = Done st \<longleftrightarrow> (\<exists>c. sb_heap b r = Some c \<and> \<not> ch_closed (sc_Events c) \<and>
     st = (offered d r c b, if ch_space (sc_Events c) then Suc n else n))"
  by (auto simp: sse_offer_eq split: option.splits)

text \<open>The loops of \<^verbatim>\<open>Publish\<close> and \<^verbatim>\<open>PublishAll\<close> are counted fan-outs.\<close>

interpretation sse: counted_fanout sse_offer sse_inbox sse_space sse_live snd
proof
  fix s :: "SSEBroker \<times> nat" and r d
  assume "sse_live s r"
  then show "\<exists>s'. sse_offer d r s = Done s'"
    by (cases s) (auto simp: sse_live_def sse_offer_Done)
next
  fix d r and s s' :: "SSEBroker \<times> nat" and q
  assume "sse_offer d r s = Done s'"
  then obtain b n c where "s = (b, n)" "sb_heap b r = Some c" "\<not> ch_closed (sc_Events c)"
    "s' = (offered d r c b, if ch_space (sc_Events c) then Suc n else n)"
    by (cases s) (auto simp: sse_offer_Done)
  then show "sse_inbox s' q = (if q = r \<and> sse_space s r then sse_inbox s r @ [d] else sse_inbox s q)"
    and "q \<noteq> r \<Longrightarrow> sse_space s' q = sse_space s q"
    and "sse_live s' q = sse_live s q"
    and "snd s' = (if sse_space s r then Suc (snd s) else snd s)"
    by (simp_all add: sse_inbox_def sse_space_def sse_live_def offered_def)
qed

lemma broker_ok_live: "broker_ok b \<Longrightarrow> r \<in> set (subs_of b ch) \<Longrightarrow> sse_live (b, n) r"
  by (fastforce simp: broker_ok_def sse_live_def)

lemma broker_ok_filed:
  "broker_ok b \<Longrightarrow> r \<in> set (subs_of b ch) \<Longrightarrow>
   \<exists>c. sb_heap b r = Some c \<and> sc_Channel c = ch \<and> \<not> ch_closed (sc_Done c) \<and> r < sb_next b"
  by (fastforce simp: broker_ok_def)

lemma broker_ok_offer:
  assumes "sse_offer d r (b, n) = Done (b', n')" and "broker_ok b"
  shows "broker_ok b'" and "sb_clients b' = sb_clients b" and "sb_replay b' = sb_replay b"
    and "sb_eventID b' = sb_eventID b" and "sb_limit b' = sb_limit b"
proof -
  obtain c where "sb_heap b r = Some c" "\<not> ch_closed (sc_Events c)" "b' = offered d r c b"
    using assms(1) by (auto simp: sse_offer_Done)
  moreover from this have "sc_Channel c = ch" if "r \<in> set (subs_of b ch)" for ch
    using broker_ok_filed [OF assms(2) that] by simp
  ultimately show "broker_ok b'" "sb_clients b' = sb_clients b" "sb_replay b' = sb_replay b"
    "sb_eventID b' = sb_eventID b" "sb_limit b' = sb_limit b"
    using assms(2) by (auto simp: broker_ok_def subs_of_def offered_def)
qed

lemma broker_ok_offers:
  "each (sse_offer d) rs (b, n) = Done (b', n') \<Longrightarrow> broker_ok b \<Longrightarrow>
   broker_ok b' \<and> sb_clients b' = sb_clients b \<and> sb_replay b' = sb_replay b \<and>
   sb_eventID b' = sb_eventID b \<and> sb_limit b' = sb_limit b"
proof (induction rs arbitrary: b n)
  case (Cons r rs)
  then obtain b1 n1 where "sse_offer d r (b, n) = Done (b1, n1)"
    and "each (sse_offer d) rs (b1, n1) = Done (b', n')" by auto
  then show ?case using broker_ok_offer Cons.IH Cons.prems(2) by metis
qed simp

lemma subs_of_Subscribe:
  "Subscribe ch k b = (b', r) \<Longrightarrow> subs_of b' = (subs_of b)(ch := List.insert r (subs_of b ch))"
  by (auto simp: Subscribe_def subs_of_def Let_def)

lemma broker_ok_Subscribe:
  assumes "broker_ok b" and "Subscribe ch k b = (b', r)"
  shows "broker_ok b'"
proof -
  have "sb_next b \<notin> set (subs_of b ch')" for ch'
    using broker_ok_filed [OF assms(1)] by blast
  moreover have "sb_heap b (sb_next b) = None"
    using assms(1) unfolding broker_ok_def by (metis less_irrefl not_None_eq)
  ultimately show ?thesis
    using assms
    by (auto simp: broker_ok_def Subscribe_def subs_of_def Let_def less_Suc_eq split: if_splits)
qed

section \<open>Leaving\<close>

text \<open>The broker without client \<open>r\<close>: unfiled, with \<^verbatim>\<open>Done\<close> closed; what \<^verbatim>\<open>Unsubscribe\<close> and one round of
  \<^verbatim>\<open>DisconnectKey\<close> have in common.\<close>

definition left_by :: "sref \<Rightarrow> SSEBroker \<Rightarrow> SSEBroker \<Rightarrow> bool" where
  "left_by r b b' \<longleftrightarrow> (\<forall>ch. subs_of b' ch = removeAll r (subs_of b ch)) \<and>
     gomap_ok (sb_clients b') \<and> sb_limit b' = sb_limit b \<and> sb_next b' = sb_next b \<and>
     sb_replay b' = sb_replay b \<and> sb_eventID b' = sb_eventID b \<and>
     (\<exists>c. sb_heap b r = Some c \<and> \<not> ch_closed (sc_Done c) \<and>
        sb_heap b' = (sb_heap b)(r \<mapsto> c\<lparr>sc_Done := (sc_Done c)\<lparr>ch_closed := True\<rparr>\<rparr>))"

lemma left_by_ok: "broker_ok b \<Longrightarrow> left_by r b b' \<Longrightarrow> broker_ok b'"
  by (auto simp: broker_ok_def left_by_def distinct_removeAll split: if_splits)

lemma filed_elsewhere:
  "broker_ok b \<Longrightarrow> r \<in> set (subs_of b ch) \<Longrightarrow> r \<in> set (subs_of b ch') \<longleftrightarrow> ch' = ch"
  by (metis broker_ok_filed option.inject)

lemma removeAll_elsewhere:
  "broker_ok b \<Longrightarrow> r \<in> set (subs_of b ch) \<Longrightarrow> ch' \<noteq> ch \<Longrightarrow> removeAll r (subs_of b ch') = subs_of b ch'"
  by (simp add: filed_elsewhere removeAll_id)

lemma close_done_Done:
  "close_done r b = Done b' \<longleftrightarrow> (\<exists>c. sb_heap b r = Some c \<and> \<not> ch_closed (sc_Done c) \<and>
     b' = b\<lparr>sb_heap := (sb_heap b)(r \<mapsto> c\<lparr>sc_Done := (sc_Done c)\<lparr>ch_closed := True\<rparr>\<rparr>)\<rparr>)"
  by (cases "sb_heap b r") (auto simp: close_done_def close_chan_Done)

lemma Unsubscribe_filed:
  assumes "broker_ok b" and "r \<in> set (subs_of b ch)"
  shows "\<exists>b'. Unsubscribe r b = Done b' \<and> left_by r b b'"
proof -
  obtain c where c: "sb_heap b r = Some c" "sc_Channel c = ch" "\<not> ch_closed (sc_Done c)"
    using broker_ok_filed [OF assms] by blast
  obtain subs where subs: "map_of (sb_clients b) ch = Some subs" "subs_of b ch = subs"
    using assms(2) by (cases "map_of (sb_clients b) ch") (auto simp: subs_of_def members_def)
  define b1 where "b1 = (if removeAll r subs = [] then b\<lparr>sb_clients := AList.delete ch (sb_clients b)\<rparr>
    else remove_sub ch r b)"
  have "Unsubscribe r b = close_done r b1"
    using c subs(1) by (simp add: Unsubscribe_def b1_def Let_def)
  moreover have "sb_heap b1 = sb_heap b" by (simp add: b1_def remove_sub_def)
  moreover have "subs_of b1 ch' = removeAll r (subs_of b ch')" for ch'
    using removeAll_elsewhere [OF assms] subs by (simp add: b1_def remove_sub_def subs_of_def)
  moreover have "gomap_ok (sb_clients b1)" "sb_limit b1 = sb_limit b" "sb_next b1 = sb_next b"
    "sb_replay b1 = sb_replay b" "sb_eventID b1 = sb_eventID b"
    using assms(1) by (auto simp: b1_def remove_sub_def broker_ok_def)
  ultimately show ?thesis using c by (auto simp: close_done_Done left_by_def subs_of_def)
qed

lemma Unsubscribe_unfiled:
  assumes "broker_ok b" and "sb_heap b r = Some c" and "r \<notin> set (subs_of b (sc_Channel c))"
  shows "Unsubscribe r b = Panic CloseOfClosedChannel"
proof -
  have "ch_closed (sc_Done c)" using assms by (auto simp: broker_ok_def)
  then show ?thesis using assms(2)
    by (simp add: Unsubscribe_def Let_def close_done_def close_chan_twice remove_sub_def
        split: option.split)
qed

text \<open>\<^verbatim>\<open>DisconnectKey\<close> is one loop over the filed pairs.\<close>

definition uses_key :: "SSEBroker \<Rightarrow> string \<Rightarrow> sref \<Rightarrow> bool" where
  "uses_key b k r \<longleftrightarrow> (case sb_heap b r of None \<Rightarrow> False | Some c \<Rightarrow> sc_APIKey c = k)"

lemma left_by_uses_key: "left_by r b b' \<Longrightarrow> uses_key b' k q = uses_key b k q"
  by (auto simp: left_by_def uses_key_def split: if_splits)

lemma disconnect_sub_filed:
  assumes "broker_ok b" and "r \<in> set (subs_of b ch)"
  shows "if uses_key b k r then \<exists>b'. disconnect_sub k ch r (b, n) = Done (b', Suc n) \<and> left_by r b b'
         else disconnect_sub k ch r (b, n) = Done (b, n)"
proof -
  obtain c where c: "sb_heap b r = Some c" "sc_Channel c = ch" "\<not> ch_closed (sc_Done c)"
    using broker_ok_filed [OF assms] by blast
  have "gomap_ok (sb_clients b)" using assms(1) by (simp add: broker_ok_def)
  with c removeAll_elsewhere [OF assms] show ?thesis
    by (auto simp: disconnect_sub_def uses_key_def close_done_Done left_by_def remove_sub_def subs_of_def)
qed

lemma disconnect_loop:
  assumes "broker_ok b" and "distinct ps" and "\<forall>(ch, r) \<in> set ps. r \<in> set (subs_of b ch)"
  shows "\<exists>b'. each (\<lambda>(ch, r). disconnect_sub k ch r) ps (b, n) =
           Done (b', n + length (filter (\<lambda>(ch, r). uses_key b k r) ps)) \<and> broker_ok b' \<and>
         sb_replay b' = sb_replay b \<and> sb_eventID b' = sb_eventID b \<and> sb_limit b' = sb_limit b \<and>
         (\<forall>r. (sb_heap b' r = None) = (sb_heap b r = None)) \<and>
         (\<forall>ch. subs_of b' ch = filter (\<lambda>r. \<not> ((ch, r) \<in> set ps \<and> uses_key b k r)) (subs_of b ch))"
  using assms
proof (induction ps arbitrary: b n)
  case Nil
  then show ?case by simp
next
  case (Cons p ps)
  obtain ch r where p: "p = (ch, r)" by fastforce
  with Cons.prems have r: "r \<in> set (subs_of b ch)" by simp
  show ?case
  proof (cases "uses_key b k r")
    case False
    then have "disconnect_sub k ch r (b, n) = Done (b, n)"
      using disconnect_sub_filed [OF Cons.prems(1) r] by simp
    then show ?thesis using Cons.IH [OF Cons.prems(1), of n] Cons.prems False p
      by (auto intro!: filter_cong)
  next
    case True
    then obtain b1 where step: "disconnect_sub k ch r (b, n) = Done (b1, Suc n)" and l: "left_by r b b1"
      using disconnect_sub_filed [OF Cons.prems(1) r] by (metis (full_types))
    have other: "r' \<noteq> r" if "(ch', r') \<in> set ps" for ch' r'
      using that Cons.prems p filed_elsewhere [OF Cons.prems(1) r] by fastforce
    have "\<forall>(ch', r') \<in> set ps. r' \<in> set (subs_of b1 ch')"
      using Cons.prems(3) l other by (fastforce simp: left_by_def)
    from Cons.IH [OF left_by_ok [OF Cons.prems(1) l] _ this, of "Suc n"] Cons.prems(2)
    obtain b' where b': "each (\<lambda>(ch, r). disconnect_sub k ch r) ps (b1, Suc n) =
        Done (b', Suc n + length (filter (\<lambda>(ch, r). uses_key b k r) ps))" "broker_ok b'"
      "sb_replay b' = sb_replay b1 \<and> sb_eventID b' = sb_eventID b1 \<and> sb_limit b' = sb_limit b1"
      "\<forall>r. (sb_heap b' r = None) = (sb_heap b1 r = None)"
      "\<forall>ch. subs_of b' ch = filter (\<lambda>r. \<not> ((ch, r) \<in> set ps \<and> uses_key b k r)) (subs_of b1 ch)"
      unfolding left_by_uses_key [OF l] by fastforce
    have "subs_of b' ch' = filter (\<lambda>q. \<not> ((ch', q) \<in> set (p # ps) \<and> uses_key b k q)) (subs_of b ch')" for ch'
      using b'(5) l True p filed_elsewhere [OF Cons.prems(1) r, of ch']
      by (auto simp: left_by_def removeAll_filter_not_eq intro!: filter_cong)
    then show ?thesis using b' step l True p by (auto simp: left_by_def split: if_splits)
  qed
qed

section \<open>Publishing\<close>

lemma record_event_Done:
  assumes "0 < sb_limit b"
  shows "record_event ch d b = Done (b\<lparr>sb_eventID := sb_eventID b + 1,
     sb_replay := AList.update ch
       ((if sb_limit b \<le> length (replay_of b ch) then drop 1 (replay_of b ch) else replay_of b ch) @
        [\<lparr>re_ID = sb_eventID b + 1, re_Data = d\<rparr>]) (sb_replay b)\<rparr>)"
  using assms by (auto simp: record_event_def Let_def slice_from_def)

lemma each_offers_ok:
  assumes "broker_ok b" and "distinct rs" and "\<forall>r \<in> set rs. \<exists>ch. r \<in> set (subs_of b ch)"
  shows "\<exists>b'. each (sse_offer d) rs (b, 0) = Done (b', length (filter (sse_space (b, 0)) rs)) \<and>
     broker_ok b' \<and> sb_clients b' = sb_clients b \<and> sb_replay b' = sb_replay b \<and>
     sb_eventID b' = sb_eventID b \<and> sb_limit b' = sb_limit b \<and>
     (\<forall>r. sse_inbox (b', 0) r = (if r \<in> set rs \<and> sse_space (b, 0) r
        then sse_inbox (b, 0) r @ [d] else sse_inbox (b, 0) r))"
proof -
  have "\<forall>r \<in> set rs. sse_live (b, 0) r" using assms broker_ok_live by blast
  then obtain b' n where run: "each (sse_offer d) rs (b, 0) = Done (b', n)"
    using sse.each_offer_returns by (metis surj_pair)
  have "sse_inbox (b', 0) r = sse_inbox (b', n) r" for r by (simp add: sse_inbox_def)
  with run sse.each_offer_tally [OF run assms(2)] sse.each_offer_inbox [OF run assms(2)]
    broker_ok_offers [OF run assms(1)]
  show ?thesis by simp
qed

lemma Publish_ok:
  assumes "broker_ok b" and "Marshal m = Some d"
  shows "\<exists>b'. Publish ch m b = Done (b', length (filter (sse_space (b, 0)) (subs_of b ch))) \<and>
     broker_ok b' \<and> sb_clients b' = sb_clients b \<and> sb_limit b' = sb_limit b \<and>
     (\<exists>b1. record_event ch d b = Done b1 \<and> sb_replay b' = sb_replay b1 \<and> sb_eventID b' = sb_eventID b1) \<and>
     (\<forall>r. sse_inbox (b', 0) r = (if r \<in> set (subs_of b ch) \<and> sse_space (b, 0) r
        then sse_inbox (b, 0) r @ [d] else sse_inbox (b, 0) r))"
proof -
  obtain b1 where b1: "record_event ch d b = Done b1"
    and same: "sb_heap b1 = sb_heap b" "sb_clients b1 = sb_clients b" "sb_limit b1 = sb_limit b"
      "sb_next b1 = sb_next b"
    using record_event_Done assms(1) by (fastforce simp: broker_ok_def)
  have subs: "subs_of b1 = subs_of b" using same by (simp add: subs_of_def fun_eq_iff)
  have ok: "broker_ok b1" using assms(1) same subs by (simp add: broker_ok_def)
  have "Publish ch m b = each (sse_offer d) (subs_of b ch) (b1, 0)"
    using assms(2) b1 same by (simp add: Publish_def subs_of_def members_def split: option.split)
  moreover have view: "sse_space (b1, 0) = sse_space (b, 0)" "sse_inbox (b1, 0) = sse_inbox (b, 0)"
    using same by (simp_all add: sse_space_def sse_inbox_def fun_eq_iff)
  moreover have "distinct (subs_of b ch)" using assms(1) by (simp add: broker_ok_def)
  moreover have "\<forall>r \<in> set (subs_of b ch). \<exists>ch. r \<in> set (subs_of b1 ch)" using subs by auto
  ultimately show ?thesis
    using each_offers_ok [OF ok, of "subs_of b ch" d] b1 same unfolding view by metis
qed

lemma PublishAll_ok:
  assumes "broker_ok b" and "Marshal m = Some d"
  shows "\<exists>b'. PublishAll m b = Done (b', length (filter (sse_space (b, 0)) (map snd (pairs_of (sb_clients b))))) \<and>
     broker_ok b' \<and> sb_clients b' = sb_clients b \<and> sb_limit b' = sb_limit b \<and>
     sb_replay b' = sb_replay b \<and> sb_eventID b' = sb_eventID b \<and>
     (\<forall>r. sse_inbox (b', 0) r = (if (\<exists>ch. r \<in> set (subs_of b ch)) \<and> sse_space (b, 0) r
        then sse_inbox (b, 0) r @ [d] else sse_inbox (b, 0) r))"
proof -
  let ?ps = "pairs_of (sb_clients b)"
  have ok: "gomap_ok (sb_clients b)" "\<And>ch. distinct (members (sb_clients b) ch)"
    using assms(1) by (auto simp: broker_ok_def subs_of_def)
  have in_ps: "(ch, r) \<in> set ?ps \<longleftrightarrow> r \<in> set (subs_of b ch)" for ch r
    using set_pairs_of [OF ok(1)] by (simp add: subs_of_def)
  have inj: "inj_on snd (set ?ps)"
    using in_ps filed_elsewhere [OF assms(1)] by (fastforce simp: inj_on_def)
  have "PublishAll m b = each (\<lambda>(ch, r). sse_offer d r) ?ps (b, 0)"
    using assms(2) each_nested [of "\<lambda>_. sse_offer d"] by (simp add: PublishAll_def)
  also have "(\<lambda>(ch :: string, r). sse_offer d r) = (\<lambda>p. sse_offer d (snd p))" by (simp add: fun_eq_iff)
  finally have "PublishAll m b = each (sse_offer d) (map snd ?ps) (b, 0)"
    by (simp add: each_map)
  moreover have "distinct (map snd ?ps)"
    using distinct_pairs_of [OF ok] inj by (simp add: distinct_map)
  moreover have "r \<in> set (map snd ?ps) \<longleftrightarrow> (\<exists>ch. r \<in> set (subs_of b ch))" for r
    using in_ps by (force simp: image_iff)
  ultimately show ?thesis using each_offers_ok [OF assms(1), of "map snd ?ps" d] by auto
qed

section \<open>Runs of the broker\<close>

text \<open>The operations, and the receive \<^verbatim>\<open>data := <-client.Events\<close> of the goroutine that serves a client, where there is something
  to receive.\<close>

definition receive_event :: "sref \<Rightarrow> SSEBroker \<Rightarrow> SSEBroker" where
  "receive_event r b = (case sb_heap b r of
       None \<Rightarrow> b
     | Some c \<Rightarrow> (case recv (sc_Events c) of
           Got data q \<Rightarrow> b\<lparr>sb_heap := (sb_heap b)(r \<mapsto> c\<lparr>sc_Events := q\<rparr>)\<rparr>
         | NotOk \<Rightarrow> b
         | WouldBlock \<Rightarrow> b))"

datatype broker_op =
    OpSubscribe string string
  | OpUnsubscribe sref
  | OpDisconnectKey string
  | OpPublish string Message
  | OpPublishAll Message
  | OpReceive sref

fun broker_step :: "broker_op \<Rightarrow> SSEBroker \<Rightarrow> SSEBroker outcome" where
  "broker_step (OpSubscribe ch k) b = Done (fst (Subscribe ch k b))"
| "broker_step (OpUnsubscribe r) b = Unsubscribe r b"
| "broker_step (OpDisconnectKey k) b = and_then (DisconnectKey_sse k b) (\<lambda>(b', _). Done b')"
| "broker_step (OpPublish ch m) b = and_then (Publish ch m b) (\<lambda>(b', _). Done b')"
| "broker_step (OpPublishAll m) b = and_then (PublishAll m b) (\<lambda>(b', _). Done b')"
| "broker_step (OpReceive r) b = Done (receive_event r b)"

lemma receive_event_frame:
  "sb_limit (receive_event r b) = sb_limit b \<and> sb_replay (receive_event r b) = sb_replay b \<and>
   sb_eventID (receive_event r b) = sb_eventID b \<and> subs_of (receive_event r b) = subs_of b"
  by (simp add: receive_event_def subs_of_def fun_eq_iff split: option.split received.split)

lemma receive_event_ok: "broker_ok b \<Longrightarrow> broker_ok (receive_event r b)"
proof -
  assume ok: "broker_ok b"
  have closed: "recv q = Got v q' \<Longrightarrow> ch_closed q' = ch_closed q" for q q' :: "string gochan" and v
    by (auto simp: recv_def split: list.splits if_splits)
  show ?thesis
    using ok closed by (fastforce simp: broker_ok_def receive_event_def subs_of_def split: option.split received.split)
qed

lemma broker_ok_New [simp]: "broker_ok NewSSEBroker"
  by (simp add: broker_ok_def NewSSEBroker_def subs_of_def members_def)

lemma DisconnectKey_loop:
  assumes "broker_ok b"
  shows "\<exists>b'. each (\<lambda>(ch, subs) st. each (disconnect_sub k ch) subs st) (sb_clients b) (b, 0) =
           Done (b', length (filter (\<lambda>(ch, r). uses_key b k r) (pairs_of (sb_clients b)))) \<and>
         broker_ok b' \<and> sb_replay b' = sb_replay b \<and> sb_eventID b' = sb_eventID b \<and>
         sb_limit b' = sb_limit b \<and> (\<forall>r. (sb_heap b' r = None) = (sb_heap b r = None)) \<and>
         (\<forall>ch. subs_of b' ch = filter (\<lambda>r. \<not> uses_key b k r) (subs_of b ch))"
proof -
  let ?ps = "pairs_of (sb_clients b)"
  have ok: "gomap_ok (sb_clients b)" "\<And>ch. distinct (members (sb_clients b) ch)"
    using assms by (auto simp: broker_ok_def subs_of_def)
  have in_ps: "(ch, r) \<in> set ?ps \<longleftrightarrow> r \<in> set (subs_of b ch)" for ch r
    using set_pairs_of [OF ok(1)] by (simp add: subs_of_def)
  have "filter (\<lambda>r. \<not> ((ch, r) \<in> set ?ps \<and> uses_key b k r)) (subs_of b ch) =
        filter (\<lambda>r. \<not> uses_key b k r) (subs_of b ch)" for ch
    by (rule filter_cong) (auto simp: in_ps)
  moreover have "\<forall>(ch, r) \<in> set ?ps. r \<in> set (subs_of b ch)" using in_ps by auto
  ultimately show ?thesis
    using disconnect_loop [OF assms distinct_pairs_of [OF ok], of k 0] by (simp add: each_nested)
qed

lemma DisconnectKey_long:
  "8 \<le> length k \<Longrightarrow> DisconnectKey_sse k b =
     each (\<lambda>(ch, subs) st. each (disconnect_sub k ch) subs st) (sb_clients b) (b, 0)"
  by (simp add: DisconnectKey_sse_def slice_to_def and_then_Done_right cong: if_cong)

lemma broker_step_ok:
  "broker_step op b = Done b' \<Longrightarrow> broker_ok b \<Longrightarrow> broker_ok b'"
proof (cases op)
  case (OpSubscribe ch k)
  assume "broker_step op b = Done b'" "broker_ok b"
  then show ?thesis using OpSubscribe broker_ok_Subscribe by (metis broker_step.simps(1) outcome.inject(1) prod.collapse)
next
  case (OpUnsubscribe r)
  assume a: "broker_step op b = Done b'" "broker_ok b"
  then obtain c where "sb_heap b r = Some c"
    using OpUnsubscribe by (auto simp: Unsubscribe_def split: option.splits)
  with a OpUnsubscribe Unsubscribe_filed Unsubscribe_unfiled left_by_ok show ?thesis
    by (metis broker_step.simps(2) outcome.distinct(1) outcome.inject(1))
next
  case (OpDisconnectKey k)
  assume a: "broker_step op b = Done b'" "broker_ok b"
  with OpDisconnectKey DisconnectKey_loop [OF a(2), of k] show ?thesis
    by (auto simp: DisconnectKey_sse_def split: if_splits)
next
  case (OpPublish ch m)
  assume a: "broker_step op b = Done b'" "broker_ok b"
  with OpPublish Publish_ok [OF a(2), of m _ ch] show ?thesis by (auto simp: Marshal_def)
next
  case (OpPublishAll m)
  assume a: "broker_step op b = Done b'" "broker_ok b"
  with OpPublishAll PublishAll_ok [OF a(2), of m] show ?thesis by (auto simp: Marshal_def)
qed (use receive_event_ok in auto)

lemma broker_run_ok: "each broker_step ops b = Done b' \<Longrightarrow> broker_ok b \<Longrightarrow> broker_ok b'"
  by (induction ops arbitrary: b) (auto dest: broker_step_ok)

section \<open>The replay history\<close>

text \<open>What a run has published, in order, and the entries it gives: event \<open>i\<close> has ID \<open>i\<close>.\<close>

fun published :: "broker_op list \<Rightarrow> (string \<times> string) list" where
  "published (OpPublish ch m # ops) = (ch, json_text (Message_json m)) # published ops"
| "published (_ # ops) = published ops"
| "published [] = []"

fun numbered :: "nat \<Rightarrow> (string \<times> string) list \<Rightarrow> (string \<times> ReplayEntry) list" where
  "numbered i [] = []"
| "numbered i ((ch, d) # l) = (ch, \<lparr>re_ID = word_of_nat (Suc i), re_Data = d\<rparr>) # numbered (Suc i) l"

definition history :: "string \<Rightarrow> nat \<Rightarrow> (string \<times> string) list \<Rightarrow> ReplayEntry list" where
  "history ch i l = map snd (filter (\<lambda>(c, _). c = ch) (numbered i l))"

definition last_n :: "nat \<Rightarrow> 'a list \<Rightarrow> 'a list" where
  "last_n n xs = drop (length xs - n) xs"

lemma numbered_append: "numbered i (l @ l') = numbered i l @ numbered (i + length l) l'"
  by (induction i l rule: numbered.induct) simp_all

lemma history_simps [simp]:
  "history ch i [] = []"
  "history ch i [(c, d)] = (if c = ch then [\<lparr>re_ID = word_of_nat (Suc i), re_Data = d\<rparr>] else [])"
  by (simp_all add: history_def)

lemma history_append: "history ch i (l @ l') = history ch i l @ history ch (i + length l) l'"
  by (simp add: history_def numbered_append)

lemma length_history: "length (history ch i l) = length (filter (\<lambda>(c, _). c = ch) l)"
  by (induction i l rule: numbered.induct) (auto simp: history_def)

lemma re_Data_history: "map re_Data (history ch i l) = map snd (filter (\<lambda>(c, _). c = ch) l)"
  by (induction i l rule: numbered.induct) (auto simp: history_def)

lemma history_IDs:
  "e \<in> set (history ch i l) \<Longrightarrow> \<exists>j. i < j \<and> j \<le> i + length l \<and> re_ID e = word_of_nat j"
proof (induction i l rule: numbered.induct)
  case (2 i c d l)
  then consider "e = \<lparr>re_ID = word_of_nat (Suc i), re_Data = d\<rparr>" | "e \<in> set (history ch (Suc i) l)"
    by (auto simp: history_def split: if_splits)
  then show ?case
  proof cases
    case 1
    then show ?thesis by (intro exI [of _ "Suc i"]) simp
  next
    case 2
    then obtain j where "Suc i < j" "j \<le> Suc i + length l" "re_ID e = word_of_nat j"
      using "2.IH" by blast
    then show ?thesis by (intro exI [of _ j]) simp
  qed
qed (simp add: history_def)

lemma last_n_snoc: "0 < n \<Longrightarrow> last_n n (xs @ [x]) =
    (if n \<le> length (last_n n xs) then drop 1 (last_n n xs) else last_n n xs) @ [x]"
  by (auto simp: last_n_def Suc_diff_le)

lemma last_n_append: "length ys \<le> n \<Longrightarrow> last_n n (xs @ ys) = last_n (n - length ys) xs @ ys"
  by (auto simp: last_n_def)

lemma broker_step_replay:
  assumes "broker_step op b = Done b'" and "broker_ok b"
  shows "sb_limit b' = sb_limit b"
    and "sb_eventID b' = sb_eventID b + word_of_nat (length (published [op]))"
    and "replay_of b' ch = (case op of OpPublish c m \<Rightarrow> if c = ch then
           (if sb_limit b \<le> length (replay_of b ch) then drop 1 (replay_of b ch) else replay_of b ch) @
           [\<lparr>re_ID = sb_eventID b + 1, re_Data = json_text (Message_json m)\<rparr>]
         else replay_of b ch | _ \<Rightarrow> replay_of b ch)"
proof -
  have "sb_limit b' = sb_limit b \<and> sb_replay b' = sb_replay b \<and> sb_eventID b' = sb_eventID b"
    if "\<And>c m. op \<noteq> OpPublish c m"
  proof (cases op)
    case (OpSubscribe c k)
    then show ?thesis using assms by (auto simp: Subscribe_def Let_def)
  next
    case (OpUnsubscribe r)
    then obtain c where "sb_heap b r = Some c"
      using assms by (auto simp: Unsubscribe_def split: option.splits)
    with assms OpUnsubscribe Unsubscribe_filed Unsubscribe_unfiled show ?thesis
      unfolding left_by_def by (metis broker_step.simps(2) outcome.distinct(1) outcome.inject(1))
  next
    case (OpDisconnectKey k)
    then show ?thesis using DisconnectKey_loop [OF assms(2), of k] assms(1)
      by (auto simp: DisconnectKey_sse_def split: if_splits)
  next
    case (OpPublishAll m)
    then show ?thesis using PublishAll_ok [OF assms(2), of m] assms(1) by (auto simp: Marshal_def)
  next
    case (OpReceive r)
    then show ?thesis using assms(1) receive_event_frame by auto
  qed (use that in simp)
  moreover have "sb_limit b' = sb_limit b \<and> sb_eventID b' = sb_eventID b + 1 \<and>
      sb_replay b' = AList.update c ((if sb_limit b \<le> length (replay_of b c) then drop 1 (replay_of b c)
        else replay_of b c) @ [\<lparr>re_ID = sb_eventID b + 1, re_Data = json_text (Message_json m)\<rparr>]) (sb_replay b)"
    if "op = OpPublish c m" for c m
    using that assms Publish_ok [OF assms(2), of m _ c] record_event_Done [of b c]
    by (auto simp: Marshal_def broker_ok_def)
  ultimately show "sb_limit b' = sb_limit b"
    and "sb_eventID b' = sb_eventID b + word_of_nat (length (published [op]))"
    and "replay_of b' ch = (case op of OpPublish c m \<Rightarrow> if c = ch then
           (if sb_limit b \<le> length (replay_of b ch) then drop 1 (replay_of b ch) else replay_of b ch) @
           [\<lparr>re_ID = sb_eventID b + 1, re_Data = json_text (Message_json m)\<rparr>]
         else replay_of b ch | _ \<Rightarrow> replay_of b ch)"
    by (cases op; auto simp: replay_of_def)+
qed

lemma published_snoc: "published (ops @ ops') = published ops @ published ops'"
  by (induction ops rule: published.induct) simp_all

text \<open>The refinement: after any run the buffers are the last entries of the histories.\<close>

lemma broker_run_replay:
  "each broker_step ops NewSSEBroker = Done b \<Longrightarrow>
   sb_limit b = 100 \<and> sb_eventID b = word_of_nat (length (published ops)) \<and>
   (\<forall>ch. replay_of b ch = last_n 100 (history ch 0 (published ops)))"
proof (induction ops arbitrary: b rule: rev_induct)
  case Nil
  then show ?case
    by (auto simp: NewSSEBroker_def replay_of_def history_def last_n_def)
next
  case (snoc op ops)
  then obtain b1 where run: "each broker_step ops NewSSEBroker = Done b1" and step: "broker_step op b1 = Done b"
    by (auto simp: each_append)
  have ok: "broker_ok b1" using broker_run_ok [OF run] by simp
  from snoc.IH [OF run] broker_step_replay [OF step ok] show ?case
    by (cases op) (auto simp: published_snoc history_append last_n_snoc add.commute)
qed

lemma replay_since:
  assumes "each broker_step ops NewSSEBroker = Done b"
    and "length (published ops) < 2 ^ 64" and "k \<le> length (published ops)"
    and "length (filter (\<lambda>(c, _). c = ch) (drop k (published ops))) \<le> 100"
  shows "map re_Data (GetReplaySince b ch (word_of_nat k)) =
         map snd (filter (\<lambda>(c, _). c = ch) (drop k (published ops)))"
proof -
  let ?old = "history ch 0 (take k (published ops))" and ?new = "history ch k (drop k (published ops))"
  have "history ch 0 (published ops) = ?old @ ?new"
    using assms(3) history_append [of ch 0 "take k (published ops)" "drop k (published ops)"] by simp
  with broker_run_replay [OF assms(1)] assms(4)
  have buf: "replay_of b ch = last_n (100 - length ?new) ?old @ ?new"
    by (simp add: last_n_append length_history)
  have less: "(word_of_nat i :: 64 word) < word_of_nat j \<longleftrightarrow> i < j" if "i < 2 ^ 64" "j < 2 ^ 64" for i j
    using that by (simp add: word_less_nat_alt unat_of_nat)
  have "\<not> word_of_nat k < re_ID e" if "e \<in> set (last_n (100 - length ?new) ?old)" for e
  proof -
    from that have "e \<in> set ?old" by (auto simp: last_n_def dest: in_set_dropD)
    then obtain j where "j \<le> k" "re_ID e = word_of_nat j" using history_IDs by fastforce
    with less [of k j] assms(2,3) show ?thesis by simp
  qed
  moreover have "word_of_nat k < re_ID e" if "e \<in> set ?new" for e
  proof -
    from history_IDs [OF that] assms(3) obtain j
      where "k < j" "j \<le> length (published ops)" "re_ID e = word_of_nat j" by auto
    with less [of k j] assms(2) show ?thesis by simp
  qed
  moreover have "GetReplaySince b ch (word_of_nat k) = filter (\<lambda>e. word_of_nat k < re_ID e) (replay_of b ch)"
    by (simp add: GetReplaySince_def replay_of_def split: option.split)
  ultimately have "GetReplaySince b ch (word_of_nat k) = ?new" unfolding buf by simp
  then show ?thesis by (simp add: re_Data_history)
qed

section \<open>What the broker guarantees\<close>

text \<open>C6. \<^verbatim>\<open>Publish\<close> never panics on a well-formed broker and keeps it well formed. It appends the
  message's text once to the queue of every subscriber of the channel that has room, changes no other
  queue, and returns the number of subscribers it reached.\<close>

theorem Publish_delivers:
  assumes "broker_ok b"
  shows "\<exists>b'. Publish ch m b = Done (b', length (filter (sse_space (b, 0)) (subs_of b ch))) \<and>
     broker_ok b' \<and> subs_of b' = subs_of b \<and>
     (\<forall>r. sse_inbox (b', 0) r = (if r \<in> set (subs_of b ch) \<and> sse_space (b, 0) r
        then sse_inbox (b, 0) r @ [json_text (Message_json m)] else sse_inbox (b, 0) r))"
  using Publish_ok [OF assms, of m _ ch] by (auto simp: Marshal_def subs_of_def fun_eq_iff)

text \<open>\<^verbatim>\<open>Unsubscribe\<close> of a client the broker has handed out completes exactly when the client is still
  filed; then it leaves its channel, everybody else stays and its \<^verbatim>\<open>Done\<close> is closed. In every other case
  it closes \<^verbatim>\<open>Done\<close> a second time, which panics.\<close>

lemma Unsubscribe_once:
  assumes "broker_ok b" and "sb_heap b r = Some c"
  shows "if r \<in> set (subs_of b (sc_Channel c))
         then \<exists>b'. Unsubscribe r b = Done b' \<and> broker_ok b' \<and>
                (\<forall>ch. subs_of b' ch = removeAll r (subs_of b ch)) \<and>
                (\<exists>c'. sb_heap b' r = Some c' \<and> ch_closed (sc_Done c'))
         else Unsubscribe r b = Panic CloseOfClosedChannel"
proof (cases "r \<in> set (subs_of b (sc_Channel c))")
  case True
  then obtain b' where "Unsubscribe r b = Done b'" and l: "left_by r b b'"
    using Unsubscribe_filed [OF assms(1)] by blast
  moreover from l have "\<exists>c'. sb_heap b' r = Some c' \<and> ch_closed (sc_Done c')"
    by (auto simp: left_by_def)
  ultimately show ?thesis using True left_by_ok [OF assms(1) l] l by (simp add: left_by_def)
qed (use Unsubscribe_unfiled [OF assms] in simp)

text \<open>\<^verbatim>\<open>DisconnectKey\<close> with a key of at least eight bytes completes, drops exactly the clients of that
  key, from every channel, and returns how many they were.\<close>

lemma DisconnectKey_drops:
  assumes "broker_ok b" and "8 \<le> length k"
  shows "\<exists>b'. DisconnectKey_sse k b =
       Done (b', length (filter (\<lambda>(ch, r). uses_key b k r) (pairs_of (sb_clients b)))) \<and>
     broker_ok b' \<and> (\<forall>ch. subs_of b' ch = filter (\<lambda>r. \<not> uses_key b k r) (subs_of b ch))"
  using DisconnectKey_loop [OF assms(1), of k] DisconnectKey_long [OF assms(2), of b] by auto

text \<open>C33. A request handler whose client \<^verbatim>\<open>DisconnectKey\<close> has dropped always ends in a panic: its deferred
  \<^verbatim>\<open>Unsubscribe\<close> closes the \<^verbatim>\<open>Done\<close> channel a second time.\<close>

theorem dropped_client_panics:
  assumes "broker_ok b" and "r \<in> set (subs_of b ch)" and "uses_key b k r"
    and "DisconnectKey_sse k b = Done (b', n)"
  shows "Unsubscribe r b' = Panic CloseOfClosedChannel"
proof -
  from assms(4) DisconnectKey_loop [OF assms(1), of k]
  have ok: "broker_ok b'" and heap: "\<forall>r. (sb_heap b' r = None) = (sb_heap b r = None)"
    and subs: "\<forall>ch. subs_of b' ch = filter (\<lambda>r. \<not> uses_key b k r) (subs_of b ch)"
    by (auto simp: DisconnectKey_sse_def split: if_splits)
  from heap broker_ok_filed [OF assms(1,2)] obtain c where c: "sb_heap b' r = Some c" by fastforce
  show ?thesis using Unsubscribe_unfiled [OF ok c] subs assms(3) by simp
qed

text \<open>C7. Reconnecting loses nothing the buffer can still hold: after any run of the broker that
  published fewer than \<open>2 ^ 64\<close> events, if at most 100 of the events after the \<open>k\<close>-th went to channel
  \<open>ch\<close>, then \<^verbatim>\<open>GetReplaySince(ch, k)\<close> returns exactly those, in the order of their publication.\<close>

theorem replay_exact:
  assumes "each broker_step ops NewSSEBroker = Done b"
    and "length (published ops) < 2 ^ 64" and "k \<le> length (published ops)"
    and "length (filter (\<lambda>(c, _). c = ch) (drop k (published ops))) \<le> 100"
  shows "map re_Data (GetReplaySince b ch (word_of_nat k)) =
         map snd (filter (\<lambda>(c, _). c = ch) (drop k (published ops)))"
  using assms by (rule replay_since)

section \<open>A broker with two subscribers\<close>

definition demo_key :: string where "demo_key = ''sk_12345678''"

definition demo_broker :: SSEBroker where
  "demo_broker = fst (Subscribe ''news'' demo_key (fst (Subscribe ''chat'' ''sk_other'' NewSSEBroker)))"

lemma demo_broker_ok: "broker_ok demo_broker"
  unfolding demo_broker_def by (metis broker_ok_New broker_ok_Subscribe prod.collapse)

lemmas demo_simps = demo_broker_def demo_key_def Subscribe_def NewSSEBroker_def subs_of_def members_def
  sse_space_def sse_inbox_def ch_space_def make_chan_def uses_key_def pairs_of_def Let_def

theorem Publish_delivers_witness:
  "\<exists>b'. Publish ''news'' zero_Message demo_broker = Done (b', 1) \<and>
     sse_inbox (b', 0) 1 = [json_text (Message_json zero_Message)] \<and> sse_inbox (b', 0) 0 = []"
proof -
  have "length (filter (sse_space (demo_broker, 0)) (subs_of demo_broker ''news'')) = 1"
    and "1 \<in> set (subs_of demo_broker ''news'') \<and> sse_space (demo_broker, 0) 1"
    and "0 \<notin> set (subs_of demo_broker ''news'')"
    and "sse_inbox (demo_broker, 0) 1 = []" and "sse_inbox (demo_broker, 0) 0 = []"
    by (simp_all add: demo_simps)
  then show ?thesis using Publish_delivers [OF demo_broker_ok, of "''news''" zero_Message] by force
qed

theorem dropped_client_panics_witness:
  "and_then (DisconnectKey_sse demo_key demo_broker) (\<lambda>(b', _). Unsubscribe 1 b') =
     Panic CloseOfClosedChannel"
proof -
  obtain b' n where run: "DisconnectKey_sse demo_key demo_broker = Done (b', n)"
    using DisconnectKey_loop [OF demo_broker_ok, of demo_key]
    by (auto simp: DisconnectKey_long demo_key_def)
  have "1 \<in> set (subs_of demo_broker ''news'')" and "uses_key demo_broker demo_key 1"
    by (simp_all add: demo_simps)
  then show ?thesis using dropped_client_panics [OF demo_broker_ok _ _ run] run by simp
qed

theorem replay_exact_witness:
  "\<exists>b. each broker_step [OpPublish ''news'' zero_Message, OpPublish ''chat'' zero_Message,
       OpPublish ''news'' zero_Message] NewSSEBroker = Done b \<and>
     map re_Data (GetReplaySince b ''news'' 1) = [json_text (Message_json zero_Message)]"
proof -
  let ?ops = "[OpPublish ''news'' zero_Message, OpPublish ''chat'' zero_Message, OpPublish ''news'' zero_Message]"
  obtain b where run: "each broker_step ?ops NewSSEBroker = Done b"
    by (simp add: Publish_def record_event_def slice_from_def NewSSEBroker_def replay_of_def Marshal_def Let_def)
  show ?thesis using replay_exact [OF run, of 1 "''news''"] run by (intro exI [of _ b]) simp
qed

end
