(* ===== verification/GoUrl.thy ===== *)
theory GoUrl
  imports GoText
begin

text \<open>
  \<^verbatim>\<open>url.Parse\<close> of \<^verbatim>\<open>net/url\<close> (Go 1.25.0, the version \<^verbatim>\<open>go.mod\<close> names), as far as \<^verbatim>\<open>ExtractHost\<close> looks
  at it: whether the text parses and what its \<^verbatim>\<open>Host\<close> is. \<open>unescape\<close> is the percent decoder in the
  modes that occur; its result is only needed for the host.
\<close>

datatype enc_mode = EncHost | EncZone | EncPath | EncUser | EncFragment

definition alnum :: "char \<Rightarrow> bool" where
  "alnum c = (let n = of_char c :: nat in
     48 \<le> n \<and> n \<le> 57 \<or> 65 \<le> n \<and> n \<le> 90 \<or> 97 \<le> n \<and> n \<le> 122)"

definition letter :: "char \<Rightarrow> bool" where
  "letter c = (let n = of_char c :: nat in 65 \<le> n \<and> n \<le> 90 \<or> 97 \<le> n \<and> n \<le> 122)"

text \<open>\<^verbatim>\<open>shouldEscape(c, encodeHost)\<close>, which is also its value for \<^verbatim>\<open>encodeZone\<close>.\<close>

definition should_escape_host :: "char \<Rightarrow> bool" where
  "should_escape_host c \<longleftrightarrow>
     \<not> (alnum c \<or> c \<in> set (CHR 0x22 # CHR 0x27 # ''!$&()*+,;=:[]<>-_.~''))"

definition is_hex :: "char \<Rightarrow> bool" where
  "is_hex c = (let n = of_char c :: nat in
     48 \<le> n \<and> n \<le> 57 \<or> 97 \<le> n \<and> n \<le> 102 \<or> 65 \<le> n \<and> n \<le> 70)"

definition unhex :: "char \<Rightarrow> nat" where
  "unhex c = (let n = of_char c :: nat in
     if 48 \<le> n \<and> n \<le> 57 then n - 48
     else if 97 \<le> n \<and> n \<le> 102 then n - 87
     else if 65 \<le> n \<and> n \<le> 70 then n - 55 else 0)"

definition escape_ok :: "enc_mode \<Rightarrow> char \<Rightarrow> char \<Rightarrow> bool" where
  "escape_ok mode a b \<longleftrightarrow>
     (mode = EncHost \<longrightarrow> 8 \<le> unhex a \<or> a = CHR ''2'' \<and> b = CHR ''5'') \<and>
     (mode = EncZone \<longrightarrow> a = CHR ''2'' \<and> b = CHR ''5'' \<or>
        (let v = char_of (16 * unhex a + unhex b) in v = CHR 0x20 \<or> \<not> should_escape_host v))"

fun unescape :: "enc_mode \<Rightarrow> string \<Rightarrow> string option" where
  "unescape mode [] = Some []"
| "unescape mode (c # cs) =
     (if c = CHR ''%'' then
        (case cs of
           a # b # rest \<Rightarrow>
             if is_hex a \<and> is_hex b \<and> escape_ok mode a b
             then map_option ((#) (char_of (16 * unhex a + unhex b))) (unescape mode rest)
             else None
         | _ \<Rightarrow> None)
      else if (mode = EncHost \<or> mode = EncZone) \<and> (of_char c :: nat) < 128 \<and> should_escape_host c
      then None
      else map_option ((#) c) (unescape mode cs))"

text \<open>\<open>cut_first\<close> and \<open>cut_last\<close> split at the first and the last occurrence of a byte.\<close>

fun cut_first :: "char \<Rightarrow> string \<Rightarrow> (string \<times> string) option" where
  "cut_first c [] = None"
| "cut_first c (x # xs) = (if x = c then Some ([], xs)
     else map_option (\<lambda>(a, b). (x # a, b)) (cut_first c xs))"

fun cut_last :: "char \<Rightarrow> string \<Rightarrow> (string \<times> string) option" where
  "cut_last c [] = None"
| "cut_last c (x # xs) = (case cut_last c xs of
       Some (a, b) \<Rightarrow> Some (x # a, b)
     | None \<Rightarrow> if x = c then Some ([], xs) else None)"

definition cut_default :: "char \<Rightarrow> string \<Rightarrow> string \<times> string" where
  "cut_default c s = (case cut_first c s of None \<Rightarrow> (s, []) | Some p \<Rightarrow> p)"

text \<open>\<^verbatim>\<open>getScheme\<close>: \<open>None\<close> is the error "missing protocol scheme".\<close>

function get_scheme :: "nat \<Rightarrow> string \<Rightarrow> (string \<times> string) option" where
  "get_scheme i raw =
     (if length raw \<le> i then Some ([], raw)
      else let c = raw ! i in
        if letter c then get_scheme (Suc i) raw
        else if alnum c \<or> c = CHR ''+'' \<or> c = CHR ''-'' \<or> c = CHR ''.''
        then (if i = 0 then Some ([], raw) else get_scheme (Suc i) raw)
        else if c = CHR '':'' then (if i = 0 then None else Some (take i raw, drop (Suc i) raw))
        else Some ([], raw))"
  by pat_completeness auto
termination
  by (relation "measure (\<lambda>(i, raw). length raw - i)") auto

declare get_scheme.simps [simp del]

definition valid_optional_port :: "string \<Rightarrow> bool" where
  "valid_optional_port s = (case s of [] \<Rightarrow> True
     | c # ds \<Rightarrow> c = CHR '':'' \<and> list_all is_digit ds)"

fun zone_index :: "string \<Rightarrow> nat option" where
  "zone_index [] = None"
| "zone_index (c # cs) =
     (if prefix ''%25'' (c # cs) then Some 0 else map_option Suc (zone_index cs))"

definition parse_host :: "string \<Rightarrow> string option" where
  "parse_host host =
     (if HasPrefix host ''['' then
        (case cut_last CHR '']'' host of
           None \<Rightarrow> None
         | Some (inside, port) \<Rightarrow>
             if \<not> valid_optional_port port then None
             else (case zone_index inside of
                 Some z \<Rightarrow>
                   (case (unescape EncHost (take z host),
                          unescape EncZone (take (length inside - z) (drop z host)),
                          unescape EncHost (drop (length inside) host)) of
                      (Some a, Some b, Some c) \<Rightarrow> Some (a @ b @ c)
                    | _ \<Rightarrow> None)
               | None \<Rightarrow> unescape EncHost host))
      else (case cut_last CHR '':'' host of
           Some (_, port) \<Rightarrow>
             if valid_optional_port (CHR '':'' # port) then unescape EncHost host else None
         | None \<Rightarrow> unescape EncHost host))"

definition valid_userinfo :: "string \<Rightarrow> bool" where
  "valid_userinfo s \<longleftrightarrow>
     list_all (\<lambda>c. alnum c \<or> c \<in> set (CHR 0x27 # ''-._:~!$&()*+,;=%@'')) s"

definition parse_authority :: "string \<Rightarrow> string option" where
  "parse_authority authority = (case cut_last CHR ''@'' authority of
       None \<Rightarrow> parse_host authority
     | Some (userinfo, host) \<Rightarrow> (case parse_host host of
           None \<Rightarrow> None
         | Some h \<Rightarrow>
             if \<not> valid_userinfo userinfo then None
             else let (u, p) = cut_default CHR '':'' userinfo in
               if unescape EncUser u = None \<or> unescape EncUser p = None then None else Some h))"

definition has_ctl_byte :: "string \<Rightarrow> bool" where
  "has_ctl_byte s \<longleftrightarrow> (\<exists>c \<in> set s. (of_char c :: nat) < 32 \<or> c = CHR 0x7F)"

definition parse_host_of :: "string \<Rightarrow> string option" where
  "parse_host_of raw =
     (if has_ctl_byte raw then None
      else if raw = ''*'' then Some []
      else (case get_scheme 0 raw of
        None \<Rightarrow> None
      | Some (scheme, rest0) \<Rightarrow>
          let rest = fst (cut_default CHR ''?'' rest0) in
          if \<not> HasPrefix rest ''/'' \<and> scheme \<noteq> [] then Some []
          else if \<not> HasPrefix rest ''/'' \<and> CHR '':'' \<in> set (before CHR ''/'' rest) then None
          else if (scheme \<noteq> [] \<or> \<not> HasPrefix rest ''///'') \<and> HasPrefix rest ''//'' then
            let authority = before CHR ''/'' (drop 2 rest);
                path = drop (length authority) (drop 2 rest)
            in (case parse_authority authority of
                  None \<Rightarrow> None
                | Some h \<Rightarrow> if unescape EncPath path = None then None else Some h)
          else if unescape EncPath rest = None then None else Some []))"

text \<open>\<^verbatim>\<open>u, err := url.Parse(raw)\<close> followed by \<^verbatim>\<open>u.Host\<close>: \<open>None\<close> when \<^verbatim>\<open>err\<close> is not nil.\<close>

definition url_Parse_Host :: "string \<Rightarrow> string option" where
  "url_Parse_Host raw =
     (let (u, frag) = cut_default CHR ''#'' raw in
      case parse_host_of u of
        None \<Rightarrow> None
      | Some h \<Rightarrow> if unescape EncFragment frag = None then None else Some h)"

section \<open>Browser origins\<close>

text \<open>The bytes of a host name, and of a host name with a port.\<close>

definition host_byte :: "char \<Rightarrow> bool" where
  "host_byte c \<longleftrightarrow> alnum c \<or> c = CHR ''-'' \<or> c = CHR ''.''"

definition authority_byte :: "char \<Rightarrow> bool" where
  "authority_byte c \<longleftrightarrow> host_byte c \<or> c = CHR '':''"

lemma has_ctl_byte_append: "has_ctl_byte (xs @ ys) \<longleftrightarrow> has_ctl_byte xs \<or> has_ctl_byte ys"
  by (auto simp: has_ctl_byte_def)

lemma cut_first_None: "c \<notin> set s \<Longrightarrow> cut_first c s = None"
  by (induction s) auto

lemma cut_default_None: "c \<notin> set s \<Longrightarrow> cut_default c s = (s, [])"
  by (simp add: cut_default_def cut_first_None)

lemma cut_last_None: "c \<notin> set s \<Longrightarrow> cut_last c s = None"
  by (induction s) auto

lemma cut_last_append: "c \<notin> set b \<Longrightarrow> cut_last c (a @ c # b) = Some (a, b)"
  by (induction a) (auto simp: cut_last_None)

lemma unescape_plain:
  "\<forall>c \<in> set s. c \<noteq> CHR ''%'' \<and> \<not> should_escape_host c \<Longrightarrow> unescape mode s = Some s"
  by (induction s) auto

lemma get_scheme_http:
  "get_scheme 0 (''http://'' @ s) = Some (''http'', ''//'' @ s)"
  "get_scheme 0 (''https://'' @ s) = Some (''https'', ''//'' @ s)"
  by (simp_all add: get_scheme.simps letter_def alnum_def Let_def)

lemma host_byte_code: "host_byte c \<Longrightarrow> of_char c \<in> {45::nat..122}"
  by (auto simp: host_byte_def alnum_def Let_def)

lemma digit_host: "is_digit c \<Longrightarrow> host_byte c"
  by (simp add: host_byte_def alnum_def is_digit_def)

lemma authority_byte_simps [simp]:
  "\<not> authority_byte CHR ''%''" "\<not> authority_byte CHR ''#''" "\<not> authority_byte CHR ''?''"
  "\<not> authority_byte CHR ''/''" "\<not> authority_byte CHR ''@''" "\<not> authority_byte CHR ''[''"
  "\<not> authority_byte CHR 0x7F"
  by (simp_all add: authority_byte_def host_byte_def alnum_def)

lemma authority_byte_host: "authority_byte c \<Longrightarrow> \<not> should_escape_host c \<and> \<not> (of_char c :: nat) < 32"
  by (auto simp: authority_byte_def host_byte_def alnum_def should_escape_host_def Let_def)

lemma authority_absent: "list_all authority_byte s \<Longrightarrow> \<not> authority_byte c \<Longrightarrow> c \<notin> set s"
  by (auto simp: list_all_iff)

lemma authority_plain:
  assumes "list_all host_byte host" "list_all is_digit port" "rest = [] \<or> rest = CHR '':'' # port"
  shows "list_all authority_byte (host @ rest)"
  using assms by (auto simp: list_all_iff authority_byte_def digit_host)

lemma host_byte_not_colon: "host_byte c \<Longrightarrow> c \<noteq> CHR '':''"
  by (auto simp: host_byte_def alnum_def)

lemma parse_host_plain:
  assumes "list_all host_byte host" "list_all is_digit port" "rest = [] \<or> rest = CHR '':'' # port"
  shows "parse_host (host @ rest) = Some (host @ rest)"
proof -
  note plain = authority_plain [OF assms]
  have "CHR ''%'' \<notin> set (host @ rest)" using plain by (rule authority_absent) simp
  with plain have un: "unescape EncHost (host @ rest) = Some (host @ rest)"
    by (intro unescape_plain) (auto simp: list_all_iff dest: authority_byte_host)
  have nb: "\<not> HasPrefix (host @ rest) ''[''"
    using plain by (cases "host @ rest") (auto simp: HasPrefix_def)
  have h: "CHR '':'' \<notin> set host" and p: "CHR '':'' \<notin> set port"
    using assms host_byte_not_colon digit_host by (auto simp: list_all_iff)
  from assms(3) show ?thesis
  proof
    assume "rest = []"
    with un nb h show ?thesis by (simp add: parse_host_def cut_last_None)
  next
    assume "rest = CHR '':'' # port"
    with un nb p assms(2) show ?thesis
      by (simp add: parse_host_def cut_last_append valid_optional_port_def)
  qed
qed

lemma url_Parse_Host_origin:
  assumes "list_all host_byte host" "list_all is_digit port" "rest = [] \<or> rest = CHR '':'' # port"
    and scheme: "scheme = ''http'' \<or> scheme = ''https''"
  shows "url_Parse_Host (scheme @ ''://'' @ host @ rest) = Some (host @ rest)"
proof -
  define a where "a = host @ rest"
  have plain: "list_all authority_byte a" unfolding a_def using assms(1-3) by (rule authority_plain)
  have abs: "CHR ''#'' \<notin> set a" "CHR ''?'' \<notin> set a" "CHR ''/'' \<notin> set a" "CHR ''@'' \<notin> set a"
    "CHR 0x7F \<notin> set a"
    using plain by (auto dest!: authority_absent)
  have pa: "parse_authority a = Some a"
    using parse_host_plain [OF assms(1-3)] abs by (simp add: parse_authority_def cut_last_None a_def)
  define rest0 where "rest0 = ''//'' @ a"
  define raw where "raw = scheme @ ''://'' @ a"
  have rest0: "HasPrefix rest0 ''/''" "HasPrefix rest0 ''//''" "drop 2 rest0 = a"
    by (simp_all add: rest0_def HasPrefix_def)
  have gs: "get_scheme 0 raw = Some (scheme, rest0)"
    using scheme get_scheme_http [of a] by (metis append.assoc append_Cons append_Nil raw_def rest0_def)
  have cut: "cut_default CHR ''#'' raw = (raw, [])" "cut_default CHR ''?'' rest0 = (rest0, [])"
    using abs scheme by (intro cut_default_None; simp add: raw_def rest0_def; auto)+
  have "\<not> has_ctl_byte a"
    using plain abs by (auto simp: has_ctl_byte_def list_all_iff dest: authority_byte_host)
  moreover have "\<not> has_ctl_byte scheme" "\<not> has_ctl_byte ''://''"
    using scheme by (elim disjE; simp add: has_ctl_byte_def) (simp add: has_ctl_byte_def)
  ultimately have "\<not> has_ctl_byte raw" by (simp only: raw_def has_ctl_byte_append simp_thms)
  moreover have "raw \<noteq> ''*''" "scheme \<noteq> []" using scheme by (auto simp: raw_def)
  ultimately have "parse_host_of raw = Some a"
    by (simp add: parse_host_of_def gs cut pa rest0 before_absent abs)
  then have "url_Parse_Host raw = Some a" by (simp add: url_Parse_Host_def cut)
  then show ?thesis by (simp add: raw_def a_def)
qed
end
