(* ===== verification/ApiKeys.thy ===== *)
theory ApiKeys
  imports JsonScan GoUrl
begin

text \<open>
  \<^verbatim>\<open>internal/security/apikey.go\<close>: the key store, the origin check and the persistence of the store in
  a JSON file. The store holds its Go map and, in \<open>disk\<close>, what its file contains (\<open>None\<close> when there
  is no readable file). The environment of an operation is passed to it: the clock, the bytes the random
  source returned and whether the write of the file succeeded.
\<close>

record APIKey =
  ak_Key :: string
  ak_Name :: string
  ak_AllowedDomains :: "string slice"
  ak_Channels :: "string list"
  ak_CreatedAt :: int
  ak_UpdatedAt :: int
  ak_Active :: bool

text \<open>
  The values of the map are pointers: \<open>None\<close> is a nil pointer, which only a \<^verbatim>\<open>null\<close> entry of a
  hand-written file can produce. \<open>keys_nil\<close> says that the map itself is nil, which a file holding
  just \<^verbatim>\<open>null\<close> leaves behind; reading a nil map is reading an empty one and assigning to it panics.
\<close>

record APIKeyStore =
  keys :: "(string, APIKey option) gomap"
  keys_nil :: bool
  disk :: "string option"

section \<open>Origins\<close>

definition MatchDomainPattern :: "(string \<Rightarrow> string) \<Rightarrow> string \<Rightarrow> string \<Rightarrow> bool" where
  "MatchDomainPattern ul pattern0 host0 =
     (let pattern = ToLower ul (TrimSpace pattern0);
          host = ToLower ul (TrimSpace host0)
      in if pattern = host then True
         else if HasPrefix pattern ''*.''
         then HasSuffix host (drop 1 pattern) \<or> host = drop 2 pattern
         else False)"

definition ExtractHost :: "string \<Rightarrow> string" where
  "ExtractHost origin0 =
     (let origin = TrimSpace origin0 in
      if origin = [] then []
      else if str_Contains origin ''://'' then
        (case url_Parse_Host origin of
           Some h \<Rightarrow> hd (Split h CHR '':'')
         | None \<Rightarrow> hd (Split origin CHR '':''))
      else hd (Split origin CHR '':''))"

definition matchesDomain :: "(string \<Rightarrow> string) \<Rightarrow> APIKey \<Rightarrow> string \<Rightarrow> bool" where
  "matchesDomain ul apiKey origin =
     (let host = ExtractHost origin in
      if host = [] then False
      else list_ex (\<lambda>pattern. pattern = ''*'' \<or> MatchDomainPattern ul pattern host)
             (elems (ak_AllowedDomains apiKey)))"

section \<open>Persistence\<close>

definition APIKey_json :: "APIKey \<Rightarrow> json" where
  "APIKey_json k = JObj (
     [(''key'', JStr (ak_Key k)), (''name'', JStr (ak_Name k)),
      (''allowed_domains'', str_slice_json (ak_AllowedDomains k))]
     @ (if ak_Channels k = [] then [] else [(''channels'', str_list_json (ak_Channels k))])
     @ [(''created_at'', JNum (itoa (ak_CreatedAt k)))]
     @ (if ak_UpdatedAt k = 0 then [] else [(''updated_at'', JNum (itoa (ak_UpdatedAt k)))])
     @ [(''active'', JBool (ak_Active k))])"

definition keys_json :: "APIKeyStore \<Rightarrow> json" where
  "keys_json s = (if keys_nil s then JNull
     else map_json (\<lambda>p. case p of None \<Rightarrow> JNull | Some k \<Rightarrow> APIKey_json k) (keys s))"

text \<open>\<open>write_ok\<close> says whether \<^verbatim>\<open>os.WriteFile\<close> succeeded; an error is only logged. A failed write may
  leave anything in the file, which \<open>junk\<close> stands for.\<close>

definition save :: "bool \<Rightarrow> string option \<Rightarrow> APIKeyStore \<Rightarrow> APIKeyStore" where
  "save write_ok junk s =
     s\<lparr>disk := (if write_ok then Some (json_indent_text 0 (keys_json s)) else junk)\<rparr>"

definition zero_APIKey :: APIKey where
  "zero_APIKey = \<lparr>ak_Key = [], ak_Name = [], ak_AllowedDomains = None, ak_Channels = [],
     ak_CreatedAt = 0, ak_UpdatedAt = 0, ak_Active = False\<rparr>"

definition APIKey_fields :: "string list" where
  "APIKey_fields = [''key'', ''name'', ''allowed_domains'', ''channels'', ''created_at'',
     ''updated_at'', ''active'']"

text \<open>
  \<^verbatim>\<open>json.Unmarshal(data, &s.keys)\<close>. A value of the wrong type is skipped and decoding goes on: the
  error is only logged, so the field keeps its zero value. An entry that is not an object gives a
  pointer to a zero struct, and \<^verbatim>\<open>null\<close> a nil pointer.
\<close>

definition keep_str :: "json \<Rightarrow> string \<Rightarrow> string" where
  "keep_str j old = (case decode_str j old of None \<Rightarrow> old | Some s \<Rightarrow> s)"

definition keep_int64 :: "json \<Rightarrow> int \<Rightarrow> int" where
  "keep_int64 j old = (case decode_int64 j old of None \<Rightarrow> old | Some i \<Rightarrow> i)"

definition keep_bool :: "json \<Rightarrow> bool \<Rightarrow> bool" where
  "keep_bool j old = (case decode_bool j old of None \<Rightarrow> old | Some b \<Rightarrow> b)"

definition keep_str_list :: "json \<Rightarrow> string list \<Rightarrow> string list" where
  "keep_str_list j old = (case j of
       JArr js \<Rightarrow> map (\<lambda>e. keep_str e []) js
     | JNull \<Rightarrow> []
     | _ \<Rightarrow> old)"

definition keep_str_slice :: "json \<Rightarrow> string slice \<Rightarrow> string slice" where
  "keep_str_slice j old = (case j of
       JArr js \<Rightarrow> Some (map (\<lambda>e. keep_str e []) js)
     | JNull \<Rightarrow> None
     | _ \<Rightarrow> old)"

definition set_APIKey_field :: "string \<Rightarrow> json \<Rightarrow> APIKey \<Rightarrow> APIKey" where
  "set_APIKey_field n j k =
     (if n = ''key'' then k\<lparr>ak_Key := keep_str j (ak_Key k)\<rparr>
      else if n = ''name'' then k\<lparr>ak_Name := keep_str j (ak_Name k)\<rparr>
      else if n = ''allowed_domains''
      then k\<lparr>ak_AllowedDomains := keep_str_slice j (ak_AllowedDomains k)\<rparr>
      else if n = ''channels'' then k\<lparr>ak_Channels := keep_str_list j (ak_Channels k)\<rparr>
      else if n = ''created_at'' then k\<lparr>ak_CreatedAt := keep_int64 j (ak_CreatedAt k)\<rparr>
      else if n = ''updated_at'' then k\<lparr>ak_UpdatedAt := keep_int64 j (ak_UpdatedAt k)\<rparr>
      else k\<lparr>ak_Active := keep_bool j (ak_Active k)\<rparr>)"

fun fill_APIKey :: "(string \<times> json) list \<Rightarrow> APIKey \<Rightarrow> APIKey" where
  "fill_APIKey [] k = k"
| "fill_APIKey ((n, j) # kvs) k = fill_APIKey kvs (case match_field APIKey_fields n of
       None \<Rightarrow> k
     | Some f \<Rightarrow> set_APIKey_field f j k)"

definition decode_APIKey :: "json \<Rightarrow> APIKey option" where
  "decode_APIKey j = (case j of
       JNull \<Rightarrow> None
     | JObj kvs \<Rightarrow> Some (fill_APIKey kvs zero_APIKey)
     | _ \<Rightarrow> Some zero_APIKey)"

fun decode_keys :: "(string \<times> json) list \<Rightarrow> (string, APIKey option) gomap \<Rightarrow> (string, APIKey option) gomap"
where
  "decode_keys [] m = m"
| "decode_keys ((k, j) # kvs) m = decode_keys kvs (AList.update k (decode_APIKey j) m)"

text \<open>A file that cannot be read, or whose text is not JSON, leaves the store as it was.\<close>

definition load :: "APIKeyStore \<Rightarrow> APIKeyStore" where
  "load s = (case disk s of
       None \<Rightarrow> s
     | Some data \<Rightarrow> (case json_unmarshal data of
           Some (JObj kvs) \<Rightarrow> s\<lparr>keys := decode_keys kvs (keys s)\<rparr>
         | Some JNull \<Rightarrow> s\<lparr>keys := [], keys_nil := True\<rparr>
         | _ \<Rightarrow> s))"

definition NewAPIKeyStore :: "string option \<Rightarrow> APIKeyStore" where
  "NewAPIKeyStore file = load \<lparr>keys = [], keys_nil = False, disk = file\<rparr>"

section \<open>Operations\<close>

text \<open>\<open>rnd n\<close> is what \<^verbatim>\<open>rand.Read\<close> put into a buffer of \<open>n\<close> bytes, or the text of its error.\<close>

type_synonym random_source = "nat \<Rightarrow> string + 8 word list"

definition GenerateRandomKey :: "random_source \<Rightarrow> nat \<Rightarrow> string + string" where
  "GenerateRandomKey rnd len = map_sum id EncodeToString (rnd len)"

definition GenerateKey ::
  "random_source \<Rightarrow> int \<Rightarrow> bool \<Rightarrow> string option \<Rightarrow> string \<Rightarrow> string slice
   \<Rightarrow> APIKeyStore \<Rightarrow> (APIKeyStore \<times> (string + APIKey)) outcome" where
  "GenerateKey rnd now write_ok junk name domains s =
     (if name = [] then Done (s, Inl ''name is required'')
      else if elems domains = [] then Done (s, Inl ''at least one allowed domain is required'')
      else (case GenerateRandomKey rnd 32 of
          Inl err \<Rightarrow> Done (s, Inl (''failed to generate key: '' @ err))
        | Inr key \<Rightarrow>
            let apiKey = \<lparr>ak_Key = key, ak_Name = name, ak_AllowedDomains = domains,
                          ak_Channels = [], ak_CreatedAt = now, ak_UpdatedAt = 0, ak_Active = True\<rparr>
            in if keys_nil s then Panic NilMapAssignment
               else and_then (slice_to 8 key) (\<lambda>_.
                 Done (save write_ok junk (s\<lparr>keys := AList.update key (Some apiKey) (keys s)\<rparr>),
                       Inr apiKey))))"

text \<open>A nil \<^verbatim>\<open>name\<close>, \<^verbatim>\<open>domains\<close> or \<^verbatim>\<open>active\<close> argument is \<open>None\<close>. An empty slice of domains is not nil and
  replaces the stored one.\<close>

definition updated_key :: "string option \<Rightarrow> string slice \<Rightarrow> bool option \<Rightarrow> int \<Rightarrow> APIKey \<Rightarrow> APIKey"
where
  "updated_key name domains active now k =
     (let k1 = (case name of None \<Rightarrow> k | Some n \<Rightarrow> k\<lparr>ak_Name := n\<rparr>);
          k2 = (case domains of None \<Rightarrow> k1 | Some ds \<Rightarrow> k1\<lparr>ak_AllowedDomains := Some ds\<rparr>);
          k3 = (case active of None \<Rightarrow> k2 | Some b \<Rightarrow> k2\<lparr>ak_Active := b\<rparr>)
      in k3\<lparr>ak_UpdatedAt := now\<rparr>)"

definition Update ::
  "int \<Rightarrow> bool \<Rightarrow> string option \<Rightarrow> string \<Rightarrow> string option \<Rightarrow> string slice \<Rightarrow> bool option
   \<Rightarrow> APIKeyStore \<Rightarrow> (APIKeyStore \<times> (string + APIKey)) outcome" where
  "Update now write_ok junk key name domains active s = (case map_of (keys s) key of
       None \<Rightarrow> Done (s, Inl ''key not found'')
     | Some None \<Rightarrow> Panic NilDereference
     | Some (Some k) \<Rightarrow>
         let k' = updated_key name domains active now k
         in and_then (slice_to 8 key) (\<lambda>_.
              Done (save write_ok junk (s\<lparr>keys := AList.update key (Some k') (keys s)\<rparr>), Inr k')))"

definition Validate :: "(string \<Rightarrow> string) \<Rightarrow> APIKeyStore \<Rightarrow> string \<Rightarrow> string \<Rightarrow> (string + APIKey) outcome"
where
  "Validate ul s key origin = (case map_of (keys s) key of
       None \<Rightarrow> Done (Inl ''invalid API key'')
     | Some None \<Rightarrow> Panic NilDereference
     | Some (Some k) \<Rightarrow>
         if \<not> ak_Active k then Done (Inl ''API key is deactivated'')
         else if origin \<noteq> [] \<and> \<not> matchesDomain ul k origin
         then Done (Inl (''origin '' @ [CHR 0x27] @ origin @ [CHR 0x27] @ '' not allowed for this API key''))
         else Done (Inr k))"

text \<open>\<open>None\<close> is a nil result, for a missing entry and for a nil one.\<close>

definition Get :: "APIKeyStore \<Rightarrow> string \<Rightarrow> APIKey option" where
  "Get s key = (case map_of (keys s) key of None \<Rightarrow> None | Some p \<Rightarrow> p)"

definition mask_key :: "string \<Rightarrow> string" where
  "mask_key key = (if 8 < length key
     then take 8 key @ ''...'' @ drop (length key - 4) key else key)"

fun List_entries :: "(string, APIKey option) gomap \<Rightarrow> APIKey list outcome" where
  "List_entries [] = Done []"
| "List_entries ((_, p) # kvs) = (case p of
       None \<Rightarrow> Panic NilDereference
     | Some k \<Rightarrow> and_then (List_entries kvs) (\<lambda>ks. Done (k\<lparr>ak_Key := mask_key (ak_Key k)\<rparr> # ks)))"

definition List_keys :: "APIKeyStore \<Rightarrow> APIKey list outcome" where
  "List_keys s = List_entries (keys s)"

definition Revoke :: "bool \<Rightarrow> string option \<Rightarrow> string \<Rightarrow> APIKeyStore \<Rightarrow> (APIKeyStore \<times> bool) outcome" where
  "Revoke write_ok junk key s = (case map_of (keys s) key of
       None \<Rightarrow> Done (s, False)
     | Some None \<Rightarrow> Panic NilDereference
     | Some (Some k) \<Rightarrow> and_then (slice_to 8 key) (\<lambda>_.
         Done (save write_ok junk
                 (s\<lparr>keys := AList.update key (Some (k\<lparr>ak_Active := False\<rparr>)) (keys s)\<rparr>), True)))"

section \<open>The invariant\<close>

text \<open>The store's own entries: no nil pointer, filed under their key, and every key long enough for
  the eight-byte prefix the log lines print.\<close>

definition store_ok :: "APIKeyStore \<Rightarrow> bool" where
  "store_ok s \<longleftrightarrow> gomap_ok (keys s) \<and> \<not> keys_nil s \<and>
     (\<forall>key p. map_of (keys s) key = Some p \<longrightarrow>
        8 \<le> length key \<and> (\<exists>k. p = Some k \<and> ak_Key k = key))"

lemma store_okD:
  assumes "store_ok s" and "map_of (keys s) key = Some p"
  obtains k where "p = Some k" and "ak_Key k = key" and "8 \<le> length key"
  using assms by (auto simp: store_ok_def)

lemma save_simps [simp]:
  "keys (save ok junk s) = keys s" "keys_nil (save ok junk s) = keys_nil s"
  by (simp_all add: save_def)

lemma store_ok_put:
  "store_ok s \<Longrightarrow> 8 \<le> length key \<Longrightarrow> ak_Key k = key \<Longrightarrow>
   store_ok (save ok junk (s\<lparr>keys := AList.update key (Some k) (keys s)\<rparr>))"
  by (simp add: store_ok_def)

lemma updated_key_Key [simp]: "ak_Key (updated_key name domains active now k) = ak_Key k"
  by (simp add: updated_key_def Let_def split: option.splits)

lemma slice_to_Done [simp]: "n \<le> length xs \<Longrightarrow> slice_to n xs = Done (take n xs)"
  by (simp add: slice_to_def)

section \<open>Facts about the operations\<close>

lemma store_ok_Update_Revoke_entry:
  assumes "store_ok s" and "map_of (keys s) key = Some (Some k)" and "ak_Key k' = ak_Key k"
  shows "store_ok (save ok junk (s\<lparr>keys := AList.update key (Some k') (keys s)\<rparr>))"
  using assms by (intro store_ok_put) (auto simp: store_ok_def)

lemma GenerateRandomKey_Inr:
  "GenerateRandomKey rnd len = Inr key \<longleftrightarrow> (\<exists>bs. rnd len = Inr bs \<and> key = EncodeToString bs)"
  by (cases "rnd len") (auto simp: GenerateRandomKey_def)

lemma GenerateKey_safe:
  assumes ok: "store_ok s"
    and rnd: "\<forall>n bs. rnd n = Inr bs \<longrightarrow> length bs = n"
  shows "\<exists>s' r. GenerateKey rnd now w junk name domains s = Done (s', r) \<and> store_ok s'"
proof (cases "GenerateRandomKey rnd 32")
  case (Inl e)
  with ok show ?thesis by (auto simp: GenerateKey_def)
next
  case (Inr key)
  with rnd have "length key = 64" by (auto simp: GenerateRandomKey_Inr)
  moreover from ok have "\<not> keys_nil s" by (simp add: store_ok_def)
  ultimately show ?thesis
    using ok Inr by (auto simp: GenerateKey_def Let_def intro!: store_ok_put)
qed

lemma Update_safe:
  assumes ok: "store_ok s"
  shows "\<exists>s' r. Update now w junk key nm ds act s = Done (s', r) \<and> store_ok s'"
proof (cases "map_of (keys s) key")
  case None
  with ok show ?thesis by (simp add: Update_def)
next
  case (Some p)
  with ok obtain k where "p = Some k" "ak_Key k = key" "8 \<le> length key" by (rule store_okD)
  with Some ok show ?thesis
    by (auto simp: Update_def Let_def store_ok_Update_Revoke_entry)
qed

lemma Revoke_safe:
  assumes ok: "store_ok s"
  shows "\<exists>s' r. Revoke w junk key s = Done (s', r) \<and> store_ok s'"
proof (cases "map_of (keys s) key")
  case None
  with ok show ?thesis by (auto simp: Revoke_def)
next
  case (Some p)
  with ok obtain k where "p = Some k" "ak_Key k = key" "8 \<le> length key" by (rule store_okD)
  with Some ok show ?thesis
    by (auto simp: Revoke_def store_ok_Update_Revoke_entry)
qed

lemma Validate_after_Revoke:
  assumes "Revoke w junk key s = Done (s', True)"
  shows "Validate ul s' key origin = Done (Inl ''API key is deactivated'')"
    and "other \<noteq> key \<Longrightarrow> Validate ul s' other origin = Validate ul s other origin"
proof -
  obtain k where "map_of (keys s) key = Some (Some k)"
      and "keys s' = AList.update key (Some (k\<lparr>ak_Active := False\<rparr>)) (keys s)"
    using assms by (auto simp: Revoke_def split: option.splits)
  then show "Validate ul s' key origin = Done (Inl ''API key is deactivated'')"
    and "other \<noteq> key \<Longrightarrow> Validate ul s' other origin = Validate ul s other origin"
    by (simp_all add: Validate_def)
qed

lemma Validate_safe: "store_ok s \<Longrightarrow> \<exists>r. Validate ul s key origin = Done r"
  by (cases "map_of (keys s) key") (auto simp: Validate_def elim: store_okD)

lemma List_entries_Done:
  "\<forall>(key, p) \<in> set kvs. p \<noteq> None \<Longrightarrow> \<exists>ks. List_entries kvs = Done ks \<and>
     ks = map (\<lambda>(key, p). (the p)\<lparr>ak_Key := mask_key (ak_Key (the p))\<rparr>) kvs"
  by (induction kvs) auto

lemma store_ok_entries: "store_ok s \<Longrightarrow> \<forall>(key, p) \<in> set (keys s). p \<noteq> None"
  by (fastforce simp: store_ok_def gomap_get_iff)

lemma fill_APIKey_append: "fill_APIKey (xs @ ys) k = fill_APIKey ys (fill_APIKey xs k)"
  by (induction xs k rule: fill_APIKey.induct) simp_all

definition times_ok :: "APIKey \<Rightarrow> bool" where
  "times_ok k \<longleftrightarrow> - (2 ^ 63) \<le> ak_CreatedAt k \<and> ak_CreatedAt k < 2 ^ 63 \<and>
     - (2 ^ 63) \<le> ak_UpdatedAt k \<and> ak_UpdatedAt k < 2 ^ 63"

lemma keep_str_list_json [simp]: "keep_str_list (str_list_json xs) old = xs"
  by (simp add: keep_str_list_def str_list_json_def keep_str_def decode_str_def comp_def)

lemma keep_str_slice_json [simp]: "keep_str_slice (str_slice_json s) old = s"
  by (simp add: keep_str_slice_def str_slice_json_def str_list_json_def keep_str_def decode_str_def comp_def split: option.split)

lemma decode_APIKey_json:
  assumes "times_ok k"
  shows "decode_APIKey (APIKey_json k) = Some k"
proof -
  have times: "ParseInt64 (itoa (ak_CreatedAt k)) = Some (ak_CreatedAt k)"
      "ParseInt64 (itoa (ak_UpdatedAt k)) = Some (ak_UpdatedAt k)"
    using assms by (auto simp: times_ok_def intro: ParseInt64_itoa)
  have mem: "set APIKey_fields = {''key'', ''name'', ''allowed_domains'', ''channels'',
      ''created_at'', ''updated_at'', ''active''}"
    by (simp add: APIKey_fields_def)
  show ?thesis
    using times
    by (cases k)
       (simp add: decode_APIKey_def APIKey_json_def fill_APIKey_append mem set_APIKey_field_def
          keep_str_def keep_int64_def keep_bool_def decode_str_def decode_int64_def decode_bool_def
          zero_APIKey_def del: append.simps)
qed

lemma map_of_decode_keys:
  "distinct (map fst kvs) \<Longrightarrow> map_of (decode_keys kvs m) k =
     (case map_of kvs k of None \<Rightarrow> map_of m k | Some j \<Rightarrow> Some (decode_APIKey j))"
proof (induction kvs m rule: decode_keys.induct)
  case (2 k' j kvs m)
  then have "map_of kvs k' = None" by (simp add: map_of_eq_None_iff)
  with 2 show ?case by (simp split: option.splits)
qed simp

lemma map_of_sort_key: "gomap_ok m \<Longrightarrow> map_of (sort_key fst m) k = map_of m k"
proof -
  assume m: "gomap_ok m"
  then have "gomap_ok (sort_key fst m)"
    unfolding gomap_ok_def by (metis distinct_map distinct_sort set_sort)
  then show ?thesis
    using m by (metis gomap_get_iff option.exhaust set_sort)
qed

section \<open>Sequences of operations\<close>

text \<open>The operations that write to the store, with what the environment gives them. \<open>names_key\<close>: the operation is about that
  key, or it happens to draw the key's bytes.\<close>

datatype store_op =
    OpGenerate random_source int bool "string option" string "string slice"
  | OpUpdate int bool "string option" string "string option" "string slice" "bool option"
  | OpRevoke bool "string option" string

fun store_step :: "store_op \<Rightarrow> APIKeyStore \<Rightarrow> APIKeyStore outcome" where
  "store_step (OpGenerate rnd now ok junk name domains) s = and_then (GenerateKey rnd now ok junk name domains s) (\<lambda>(s', r). Done s')"
| "store_step (OpUpdate now ok junk key nm ds act) s = and_then (Update now ok junk key nm ds act s) (\<lambda>(s', r). Done s')"
| "store_step (OpRevoke ok junk key) s = and_then (Revoke ok junk key s) (\<lambda>(s', r). Done s')"

fun names_key :: "string \<Rightarrow> store_op \<Rightarrow> bool" where
  "names_key key (OpGenerate rnd now ok junk name domains) \<longleftrightarrow> GenerateRandomKey rnd 32 = Inr key"
| "names_key key (OpUpdate now ok junk other nm ds act) \<longleftrightarrow> other = key"
| "names_key key (OpRevoke ok junk other) \<longleftrightarrow> other = key"

lemma store_step_other:
  assumes "store_step op s = Done s'" and "\<not> names_key key op"
  shows "Get s' key = Get s key"
  using assms
  by (cases op) (auto simp: GenerateKey_def Update_def Revoke_def Get_def Let_def split: if_splits sum.splits option.splits)

lemma store_run_other:
  "each store_step ops s = Done s' \<Longrightarrow> \<forall>op \<in> set ops. \<not> names_key key op \<Longrightarrow> Get s' key = Get s key"
proof (induction ops arbitrary: s)
  case (Cons op ops)
  then show ?case using store_step_other by fastforce
qed simp

section \<open>Properties\<close>

text \<open>C27. With a random source that fills its buffer, no operation panics on a well-formed store,
  and the operations that change the store keep it well-formed. (A stored key shorter than eight
  bytes or a nil entry, which only a hand-written file can bring in, would break the log lines and
  the field accesses; the invariant excludes both.)\<close>

theorem store_operations_safe:
  assumes "store_ok s" and "\<forall>n bs. rnd n = Inr bs \<longrightarrow> length bs = n"
  shows "(\<exists>s' r. GenerateKey rnd now w junk name domains s = Done (s', r) \<and> store_ok s') \<and>
    (\<exists>s' r. Update now w junk key nm ds act s = Done (s', r) \<and> store_ok s') \<and>
    (\<exists>s' r. Revoke w junk key s = Done (s', r) \<and> store_ok s') \<and>
    (\<exists>r. Validate ul s key origin = Done r) \<and>
    (\<exists>ks. List_keys s = Done ks)"
  using GenerateKey_safe [OF assms] Update_safe [OF assms(1)] Revoke_safe [OF assms(1)]
    Validate_safe [OF assms(1)] List_entries_Done [OF store_ok_entries [OF assms(1)]]
  by (auto simp: List_keys_def)

text \<open>\<^verbatim>\<open>Validate\<close> accepts a key exactly when the key is stored and active and the request either
  has no origin or comes from a host that is not empty and that one of the key's allowed domains
  matches, the bare star matching every host.\<close>

lemma Validate_accepts_iff:
  "Validate ul s key origin = Done (Inr k) \<longleftrightarrow>
     Get s key = Some k \<and> ak_Active k \<and>
     (origin = [] \<or> ExtractHost origin \<noteq> [] \<and>
        (\<exists>pattern \<in> set (elems (ak_AllowedDomains k)).
           pattern = ''*'' \<or> MatchDomainPattern ul pattern (ExtractHost origin)))"
  by (auto simp: Validate_def Get_def matchesDomain_def Let_def list_ex_iff
      split: option.splits if_splits)

text \<open>A domain pattern matches a host, both trimmed and lower-cased, exactly when they are
  equal or the pattern is a star label followed by a domain and the host is that domain or ends
  with a dot and that domain; so a host that merely ends with the domain's letters never matches.\<close>

lemma MatchDomainPattern_spec:
  "MatchDomainPattern ul pattern host \<longleftrightarrow>
     (let p = ToLower ul (TrimSpace pattern); h = ToLower ul (TrimSpace host) in
      p = h \<or> (\<exists>d. p = ''*.'' @ d \<and> (h = d \<or> (\<exists>sub. h = sub @ ''.'' @ d))))"
  by (auto simp: MatchDomainPattern_def Let_def HasPrefix_def HasSuffix_def prefix_def suffix_def)

text \<open>For an origin as browsers send it, a scheme, a host name and perhaps a port,
  \<^verbatim>\<open>ExtractHost\<close> returns the host name.\<close>

lemma ExtractHost_browser_origin:
  assumes "scheme = ''http'' \<or> scheme = ''https''" and "host \<noteq> []" and "list_all host_byte host"
    and "list_all is_digit port" and "rest = [] \<or> rest = CHR '':'' # port"
  shows "ExtractHost (scheme @ ''://'' @ host @ rest) = host"
proof -
  define raw where "raw = scheme @ ''://'' @ host @ rest"
  have ends: "raw \<noteq> []" "of_char (hd raw) \<in> {33::nat..126}"
    using assms(1) by (auto simp: raw_def)
  have "last raw \<in> set (host @ rest)"
    using assms(2) by (cases rest) (auto simp: raw_def last_append)
  moreover have "list_all authority_byte (host @ rest)" using assms(3-5) by (rule authority_plain)
  ultimately have "authority_byte (last raw)" by (auto simp: list_all_iff)
  then have "of_char (last raw) \<in> {33::nat..126}" by (auto simp: authority_byte_def dest: host_byte_code)
  with ends have trim: "TrimSpace raw = raw" by (intro TrimSpace_graphic)
  have has: "str_Contains raw ''://''" by (auto simp: str_Contains_def sublist_def raw_def)
  have parse: "url_Parse_Host raw = Some (host @ rest)"
    unfolding raw_def using assms by (intro url_Parse_Host_origin)
  have "CHR '':'' \<notin> set host" using assms(3) by (auto simp: list_all_iff dest: host_byte_not_colon)
  then have "before CHR '':'' (host @ rest) = host"
    using assms(5) by (auto simp: before_absent before_append)
  then have "ExtractHost raw = host"
    using trim has parse ends(1) by (simp add: ExtractHost_def Split_hd)
  then show ?thesis by (simp add: raw_def)
qed

text \<open>C12. Which sites may use a key: for an origin as browsers send it, \<^verbatim>\<open>Validate\<close> accepts a key exactly when it is stored and
  active and one of its domains is a star, or is the host, or is a star label followed by the host or by a domain that the host ends
  with after a dot; the scheme and the port play no part, nor does the case of letters. A host that merely ends with the letters of
  a domain (\<^verbatim>\<open>badexample.com\<close> for \<^verbatim>\<open>*.example.com\<close>) is refused.\<close>

theorem browser_origin_decided:
  assumes "scheme = ''http'' \<or> scheme = ''https''" and "host \<noteq> []" and "list_all host_byte host"
    and "list_all is_digit port" and "rest = [] \<or> rest = CHR '':'' # port"
  shows "Validate ul s key (scheme @ ''://'' @ host @ rest) = Done (Inr k) \<longleftrightarrow> Get s key = Some k \<and> ak_Active k \<and>
    (\<exists>pattern \<in> set (elems (ak_AllowedDomains k)). pattern = ''*'' \<or>
       (let p = ToLower ul (TrimSpace pattern); h = ToLower ul host in
        p = h \<or> (\<exists>d. p = ''*.'' @ d \<and> (h = d \<or> (\<exists>sub. h = sub @ ''.'' @ d)))))"
proof -
  have "host_byte (hd host)" "host_byte (last host)" using assms(2,3) by (auto simp: list_all_iff)
  then have "of_char (hd host) \<in> {33::nat..126}" "of_char (last host) \<in> {33::nat..126}" by (auto dest: host_byte_code)
  then have trim: "TrimSpace host = host" using assms(2) by (intro TrimSpace_graphic)
  have "scheme @ ''://'' @ host @ rest \<noteq> []" by simp
  then show ?thesis
    unfolding Validate_accepts_iff ExtractHost_browser_origin [OF assms] MatchDomainPattern_spec trim
    using assms(2) by simp
qed

text \<open>The strings of a key are UTF-8, as those of a decoded request are.\<close>

definition key_utf8 :: "APIKey \<Rightarrow> bool" where
  "key_utf8 k \<longleftrightarrow> utf8 (ak_Key k) \<and> utf8 (ak_Name k) \<and> list_all utf8 (elems (ak_AllowedDomains k)) \<and> list_all utf8 (ak_Channels k)"

lemma str_list_json_ok: "list_all utf8 xs \<Longrightarrow> 0 < n \<Longrightarrow> json_ok n (str_list_json xs)"
  by (auto simp: str_list_json_def list_all_iff)

lemma str_slice_json_ok: "list_all utf8 (elems s) \<Longrightarrow> 0 < n \<Longrightarrow> json_ok n (str_slice_json s)"
  by (auto simp: str_slice_json_def str_list_json_ok split: option.split)

lemma APIKey_json_ok:
  assumes "key_utf8 k" and "1 < n"
  shows "json_ok n (APIKey_json k)"
proof -
  have "utf8 ''key'' \<and> utf8 ''name'' \<and> utf8 ''allowed_domains'' \<and> utf8 ''channels'' \<and> utf8 ''created_at'' \<and> utf8 ''updated_at'' \<and> utf8 ''active''"
    by (simp add: utf8_ascii byte_in_def)
  then show ?thesis
    using assms str_list_json_ok [of _ "n - 1"] str_slice_json_ok [of _ "n - 1"] is_number_itoa by (auto simp: APIKey_json_def key_utf8_def)
qed

lemma keys_json_ok:
  assumes "store_ok s" and "\<forall>key k. Get s key = Some k \<longrightarrow> key_utf8 k"
  shows "json_ok maxNestingDepth (keys_json s)"
proof -
  have "utf8 key \<and> json_ok (maxNestingDepth - 1) (case p of None \<Rightarrow> JNull | Some k \<Rightarrow> APIKey_json k)"
    if "(key, p) \<in> set (keys s)" for key p
  proof -
    have p: "map_of (keys s) key = Some p" using that assms(1) by (simp add: store_ok_def gomap_ok_def)
    then obtain k where "p = Some k" "ak_Key k = key" using assms(1) by (blast elim: store_okD)
    moreover from this have "Get s key = Some k" using p by (simp add: Get_def)
    then have "key_utf8 k" using assms(2) by blast
    ultimately show ?thesis using APIKey_json_ok [of k] by (auto simp: key_utf8_def maxNestingDepth_def)
  qed
  then show ?thesis using assms(1) by (force simp: keys_json_def map_json_def maxNestingDepth_def store_ok_def)
qed

text \<open>C28. A key survives a restart: if the file was written, a store opened on it answers every lookup as the
  store that wrote it, provided that its strings are UTF-8 and its times fit an \<^verbatim>\<open>int64\<close>.\<close>

theorem keys_survive_restart:
  assumes ok: "store_ok s" and times: "\<forall>key k. Get s key = Some k \<longrightarrow> times_ok k"
    and strings: "\<forall>key k. Get s key = Some k \<longrightarrow> key_utf8 k"
  shows "Get (NewAPIKeyStore (disk (save True junk s))) key = Get s key"
proof -
  have scan: "json_unmarshal (json_indent_text 0 (keys_json s)) = Some (keys_json s)"
    using unmarshal_json_indent_text [OF keys_json_ok [OF ok strings]] .
  let ?f = "\<lambda>p. case p of None \<Rightarrow> JNull | Some k \<Rightarrow> APIKey_json k"
  let ?kvs = "map (\<lambda>(k, v). (k, ?f v)) (sort_key fst (keys s))"
  have m: "gomap_ok (keys s)" and nn: "\<not> keys_nil s" using ok by (simp_all add: store_ok_def)
  then have tree: "keys_json s = JObj ?kvs" by (simp add: keys_json_def map_json_def)
  have "distinct (map fst ?kvs)"
    using m by (simp add: gomap_ok_def comp_def case_prod_beta distinct_map distinct_sort)
  then have "map_of (keys (NewAPIKeyStore (disk (save True junk s)))) key =
      map_option (\<lambda>p. decode_APIKey (?f p)) (map_of (keys s) key)"
    using scan m
    by (simp add: NewAPIKeyStore_def load_def save_def tree map_of_decode_keys map_of_map
        map_of_sort_key split: option.splits)
  moreover have "decode_APIKey (APIKey_json k) = Some k" if "map_of (keys s) key = Some (Some k)" for k
  proof -
    from that have "Get s key = Some k" by (simp add: Get_def)
    with times show ?thesis by (intro decode_APIKey_json) blast
  qed
  ultimately show ?thesis
    using ok by (cases "map_of (keys s) key") (auto simp: Get_def elim!: store_okD)
qed

section \<open>Witnesses\<close>

definition sample_name :: string where
  "sample_name = ''0123456789abcdef''"

definition sample_key :: APIKey where
  "sample_key = \<lparr>ak_Key = sample_name, ak_Name = ''My App'', ak_AllowedDomains = Some [''*.example.com''],
     ak_Channels = [], ak_CreatedAt = 1780931032659, ak_UpdatedAt = 0, ak_Active = True\<rparr>"

definition sample_store :: APIKeyStore where
  "sample_store = \<lparr>keys = [(sample_name, Some sample_key)], keys_nil = False, disk = None\<rparr>"

lemma sample_store_ok: "store_ok sample_store"
  by (simp add: store_ok_def sample_store_def sample_key_def sample_name_def gomap_ok_def)

theorem store_operations_safe_witness:
  "\<exists>s' r. Revoke True None sample_name sample_store = Done (s', r) \<and> store_ok s'"
  using store_operations_safe [of sample_store "\<lambda>n. Inr (replicate n 0)" 0 True None "[]" None
      sample_name None None None id "[]"] sample_store_ok
  by simp

theorem browser_origin_decided_witness:
  "Validate id sample_store sample_name ''https://shop.example.com'' = Done (Inr sample_key) \<and>
   Validate id sample_store sample_name ''https://badexample.com:8443'' \<noteq> Done (Inr sample_key)"
proof -
  have store: "Get sample_store sample_name = Some sample_key" "ak_Active sample_key" "elems (ak_AllowedDomains sample_key) = [''*.example.com'']"
    by (simp_all add: Get_def sample_store_def sample_key_def)
  have lower: "ToLower id (TrimSpace ''*.example.com'') = ''*.example.com''" "ToLower id ''shop.example.com'' = ''shop.example.com''"
    "ToLower id ''badexample.com'' = ''badexample.com''" by code_simp+
  have hosts: "list_all host_byte ''shop.example.com''" "list_all host_byte ''badexample.com''" "list_all is_digit ''8443''" by code_simp+
  have tails: "\<exists>sub. ''shop.example.com'' = sub @ ''.example.com''" "\<nexists>sub. ''badexample.com'' = sub @ ''.example.com''"
    by (rule exI [of _ "''shop''"]) (auto simp: append_eq_Cons_conv)
  show ?thesis
    using browser_origin_decided [of "''https''" "''shop.example.com''" "[]" "[]" id sample_store sample_name sample_key]
      browser_origin_decided [of "''https''" "''badexample.com''" "''8443''" "'':8443''" id sample_store sample_name sample_key]
      store lower hosts tails by simp
qed

theorem keys_survive_restart_witness:
  "Get (NewAPIKeyStore (disk (save True None sample_store))) sample_name = Some sample_key"
proof -
  have "\<forall>key k. Get sample_store key = Some k \<longrightarrow> times_ok k"
    and "\<forall>key k. Get sample_store key = Some k \<longrightarrow> key_utf8 k"
    by (auto simp: Get_def sample_store_def sample_key_def sample_name_def times_ok_def key_utf8_def utf8_ascii byte_in_def split: if_splits)
  then have "Get (NewAPIKeyStore (disk (save True None sample_store))) sample_name = Get sample_store sample_name"
    using keys_survive_restart [OF sample_store_ok] by blast
  then show ?thesis by (simp add: Get_def sample_store_def)
qed

end
