(* ===== verification/Valkey.thy ===== *)
theory Valkey
  imports ApiKeys Messages
begin

text \<open>
  \<^verbatim>\<open>internal/valkey/valkey.go\<close>, the sending half of the bridge between the nodes. The Valkey client
  library is not part of the repository: \<open>connect\<close> stands for \<^verbatim>\<open>valkeylib.NewClient\<close> (whether it returned a
  client for the addresses), \<open>ping\<close> for the reply to a PING, and \<open>vb_outbox\<close> is the sequence of PUBLISH commands
  the bridge has handed to its open client, whose errors the code only logs; a closed client takes none. The receiving half needs the
  hub and is in the theory of the incoming messages.
\<close>

definition ChannelBroadcast :: string where "ChannelBroadcast = ''synchub:broadcast''"
definition ChannelRoom :: string where "ChannelRoom = ''synchub:room:''"
definition ChannelDirect :: string where "ChannelDirect = ''synchub:direct:''"

lemmas Channel_defs = ChannelBroadcast_def ChannelRoom_def ChannelDirect_def

record wrappedMessage =
  wm_NodeID :: string
  wm_Message :: Message

record Bridge =
  vb_enabled :: bool
  vb_client :: bool
  vb_nodeID :: string
  vb_closed :: bool
  vb_outbox :: "(string \<times> string) list"

definition NewBridge :: "(string list \<Rightarrow> bool) \<Rightarrow> random_source \<Rightarrow> string \<Rightarrow> Bridge" where
  "NewBridge connect rnd valkeyURL =
     (let nodeID = (case GenerateRandomKey rnd 8 of Inl _ \<Rightarrow> [] | Inr k \<Rightarrow> k);
          vb = \<lparr>vb_enabled = valkeyURL \<noteq> [], vb_client = False, vb_nodeID = nodeID, vb_closed = False, vb_outbox = []\<rparr>
      in if \<not> vb_enabled vb then vb
         else let addresses = map TrimSpace (Split valkeyURL CHR '','')
              in if connect addresses then vb\<lparr>vb_client := True\<rparr>
                 else vb\<lparr>vb_enabled := False\<rparr>)"

definition wrapped_json :: "wrappedMessage \<Rightarrow> json" where
  "wrapped_json w = JObj [(''node_id'', JStr (wm_NodeID w)), (''message'', Message_json (wm_Message w))]"

definition publish :: "string \<Rightarrow> Message \<Rightarrow> Bridge \<Rightarrow> Bridge" where
  "publish channel msg vb =
     (if vb_closed vb then vb
      else vb\<lparr>vb_outbox := vb_outbox vb @
        [(channel, json_text (wrapped_json \<lparr>wm_NodeID = vb_nodeID vb, wm_Message = msg\<rparr>))]\<rparr>)"

definition PublishBroadcast :: "Message \<Rightarrow> Bridge \<Rightarrow> Bridge" where
  "PublishBroadcast msg vb =
     (if \<not> vb_enabled vb \<or> \<not> vb_client vb then vb else publish ChannelBroadcast msg vb)"

definition PublishRoom :: "string \<Rightarrow> Message \<Rightarrow> Bridge \<Rightarrow> Bridge" where
  "PublishRoom room msg vb =
     (if \<not> vb_enabled vb \<or> \<not> vb_client vb then vb else publish (ChannelRoom @ room) msg vb)"

definition PublishDirect :: "string \<Rightarrow> Message \<Rightarrow> Bridge \<Rightarrow> Bridge" where
  "PublishDirect userID msg vb =
     (if \<not> vb_enabled vb \<or> \<not> vb_client vb then vb else publish (ChannelDirect @ userID) msg vb)"

definition HealthCheck :: "bool \<Rightarrow> Bridge \<Rightarrow> bool" where
  "HealthCheck ping vb = (if \<not> vb_enabled vb \<or> \<not> vb_client vb then True else ping)"

definition Bridge_Stats :: "bool \<Rightarrow> Bridge \<Rightarrow> json" where
  "Bridge_Stats ping vb = JObj [(''enabled'', JBool (vb_enabled vb)),
     (''healthy'', JBool (HealthCheck ping vb)), (''node_id'', JStr (vb_nodeID vb))]"

definition Close :: "Bridge \<Rightarrow> Bridge" where
  "Close vb = (if vb_client vb then vb\<lparr>vb_closed := True\<rparr> else vb)"

text \<open>The subscriptions that \<^verbatim>\<open>Subscribe\<close> starts, each in a goroutine of its own that calls the handler of the incoming
  messages: one to a channel and two to patterns. They last until the context is cancelled, which \<^verbatim>\<open>main\<close> does when
  it closes the bridge.\<close>

datatype subscription = SubChannel string | SubPattern string

definition Subscribe_bridge :: "Bridge \<Rightarrow> subscription list" where
  "Subscribe_bridge vb = (if \<not> vb_enabled vb \<or> \<not> vb_client vb then []
     else [SubChannel ChannelBroadcast, SubPattern (ChannelRoom @ ''*''), SubPattern (ChannelDirect @ ''*'')])"

section \<open>Reading a wrapped message back\<close>

definition wrapped_fields :: "string list" where
  "wrapped_fields = [''node_id'', ''message'']"

definition set_wrapped_field ::
  "(string \<Rightarrow> string option) \<Rightarrow> string \<Rightarrow> json \<Rightarrow> wrappedMessage \<Rightarrow> wrappedMessage option" where
  "set_wrapped_field fl n j w =
     (if n = ''node_id'' then map_option (\<lambda>s. w\<lparr>wm_NodeID := s\<rparr>) (decode_str j (wm_NodeID w))
      else map_option (\<lambda>m. w\<lparr>wm_Message := m\<rparr>)
        (decode_struct Message_fields (set_Message_field fl) j (wm_Message w)))"

definition decode_wrapped :: "(string \<Rightarrow> string option) \<Rightarrow> json \<Rightarrow> wrappedMessage option" where
  "decode_wrapped fl j = decode_struct wrapped_fields (set_wrapped_field fl) j
     \<lparr>wm_NodeID = [], wm_Message = zero_Message\<rparr>"

definition Unmarshal_wrapped :: "go_env \<Rightarrow> string \<Rightarrow> wrappedMessage option" where
  "Unmarshal_wrapped env data = (case json_unmarshal data of
       None \<Rightarrow> None
     | Some j \<Rightarrow> decode_wrapped (float_lit env) j)"

lemma wrapped_roundtrip:
  assumes "- (2 ^ 63) \<le> m_Timestamp (wm_Message w)" and "m_Timestamp (wm_Message w) < 2 ^ 63"
    and "to_iface fl (m_Payload (wm_Message w)) = Some (m_Payload (wm_Message w))"
  shows "decode_wrapped fl (wrapped_json w) = Some w"
  using Message_roundtrip [OF assms]
  by (simp add: decode_wrapped_def decode_struct_def wrapped_json_def wrapped_fields_def
      set_wrapped_field_def decode_str_def decode_Message_def)

lemma wrapped_survives:
  assumes "- (2 ^ 63) \<le> m_Timestamp (wm_Message w)" and "m_Timestamp (wm_Message w) < 2 ^ 63"
    and "to_iface (float_lit env) (m_Payload (wm_Message w)) = Some (m_Payload (wm_Message w))"
    and "message_ok (wm_Message w)" and "utf8 (wm_NodeID w)"
  shows "Unmarshal_wrapped env (json_text (wrapped_json w)) = Some w"
proof -
  have "json_ok 9999 (Message_json (wm_Message w))" using json_ok_mono [OF Message_json_ok [OF assms(4)]] by simp
  moreover have "utf8 ''node_id'' \<and> utf8 ''message''" by (simp add: utf8_ascii byte_in_def)
  ultimately have "json_ok maxNestingDepth (wrapped_json w)"
    using assms(5) by (auto simp: wrapped_json_def maxNestingDepth_def)
  then show ?thesis
    using wrapped_roundtrip [OF assms(1-3)] by (simp add: Unmarshal_wrapped_def unmarshal_json_text)
qed

lemma standalone_bridge:
  "\<not> vb_enabled (NewBridge connect rnd url) \<or> vb_client (NewBridge connect rnd url)"
  by (simp add: NewBridge_def Let_def)

end
