(* ===== verification/Jwt.thy ===== *)
theory Jwt
  imports GoText
begin

text \<open>
  \<^verbatim>\<open>internal/security/jwt.go\<close>: token issue, token validation and the channel check on the claims of a
  token. The library \<^verbatim>\<open>golang-jwt\<close> is the parameter \<open>lib\<close>: signing, parsing with a key function and
  the rounding of a time to a numeric date. \<open>jwt_signs\<close> and \<open>jwt_verifies\<close> name what the code relies
  on of it. Times and durations are nanoseconds.
\<close>

record JWTClaims =
  jc_UserID :: string
  jc_DisplayName :: string
  jc_Roles :: "string list"
  jc_Channels :: "string list"
  jc_Permissions :: "(string, string) gomap"
  jc_Issuer :: string
  jc_Subject :: string
  jc_ExpiresAt :: int
  jc_IssuedAt :: int

record JWTAuth =
  ja_secretKey :: string
  ja_issuer :: string

datatype SigningMethod = SigningMethodHMAC nat | OtherSigningMethod string

abbreviation SigningMethodHS256 :: SigningMethod where
  "SigningMethodHS256 \<equiv> SigningMethodHMAC 256"

record jwt_lib =
  NewNumericDate :: "int \<Rightarrow> int"
  SignedString :: "SigningMethod \<Rightarrow> JWTClaims \<Rightarrow> string \<Rightarrow> string + string"
  ParseWithClaims :: "string \<Rightarrow> (SigningMethod \<Rightarrow> string + string) \<Rightarrow> string + JWTClaims \<times> bool"

definition NewJWTAuth :: "string \<Rightarrow> string \<Rightarrow> JWTAuth option" where
  "NewJWTAuth secretKey issuer =
     (if secretKey = [] then None
      else Some \<lparr>ja_secretKey = secretKey, ja_issuer = issuer\<rparr>)"

text \<open>The clock is read twice: \<open>t0\<close> for the expiry and \<open>t1\<close> for the issue time.\<close>

definition GenerateToken ::
  "jwt_lib \<Rightarrow> JWTAuth \<Rightarrow> string \<Rightarrow> string \<Rightarrow> string list \<Rightarrow> string list
   \<Rightarrow> (string, string) gomap \<Rightarrow> int \<Rightarrow> int \<Rightarrow> int \<Rightarrow> string + string" where
  "GenerateToken lib j userID displayName roles channels permissions ttl t0 t1 =
     (if userID = [] then Inl ''user_id is required''
      else SignedString lib SigningMethodHS256
        \<lparr>jc_UserID = userID, jc_DisplayName = displayName, jc_Roles = roles,
         jc_Channels = channels, jc_Permissions = permissions, jc_Issuer = ja_issuer j,
         jc_Subject = userID, jc_ExpiresAt = NewNumericDate lib (t0 + ttl),
         jc_IssuedAt = NewNumericDate lib t1\<rparr>
        (ja_secretKey j))"

definition jwt_keyfunc :: "JWTAuth \<Rightarrow> SigningMethod \<Rightarrow> string + string" where
  "jwt_keyfunc j m = (case m of
       SigningMethodHMAC _ \<Rightarrow> Inr (ja_secretKey j)
     | OtherSigningMethod _ \<Rightarrow> Inl ''unexpected signing method'')"

definition ValidateToken :: "jwt_lib \<Rightarrow> JWTAuth option \<Rightarrow> string \<Rightarrow> string + JWTClaims" where
  "ValidateToken lib auth tokenString = (case auth of
       None \<Rightarrow> Inl ''JWT auth not configured''
     | Some j \<Rightarrow>
         (case ParseWithClaims lib (TrimSpace (TrimPrefix tokenString ''Bearer '')) (jwt_keyfunc j) of
            Inl err \<Rightarrow> Inl err
          | Inr (claims, valid) \<Rightarrow> if \<not> valid then Inl ''invalid token'' else Inr claims))"

definition PermissionLevel :: "(string \<Rightarrow> string) \<Rightarrow> string \<Rightarrow> nat" where
  "PermissionLevel ul perm =
     (let p = ToLower ul perm in
      if p = ''read'' then 1 else if p = ''write'' then 2 else if p = ''admin'' then 3 else 0)"

definition HasChannelAccess ::
  "(string \<Rightarrow> string) \<Rightarrow> JWTClaims option \<Rightarrow> string \<Rightarrow> string \<Rightarrow> bool" where
  "HasChannelAccess ul claims channel requiredPermission = (case claims of
       None \<Rightarrow> False
     | Some c \<Rightarrow>
         if jc_Channels c = [] \<and> jc_Permissions c = [] then True
         else (case map_of (jc_Permissions c) channel of
           Some perm \<Rightarrow> PermissionLevel ul requiredPermission \<le> PermissionLevel ul perm
         | None \<Rightarrow> (case map_of (jc_Permissions c) ''*'' of
             Some perm \<Rightarrow> PermissionLevel ul requiredPermission \<le> PermissionLevel ul perm
           | None \<Rightarrow> list_ex (\<lambda>ch. ch = channel \<or> ch = ''*'') (jc_Channels c))))"

text \<open>
  The documented behaviour of the library. A signed token has no blank at its ends and does not
  start with the scheme word; parsed before it expires, with a key function that answers its
  method with the signing key, it gives its claims back. A token that parses as valid carries a
  signature that verifies under the method of the token and the key the key function gave for it.
\<close>

definition jwt_signs :: "jwt_lib \<Rightarrow> (JWTClaims \<Rightarrow> bool) \<Rightarrow> bool" where
  "jwt_signs lib unexpired \<longleftrightarrow>
     (\<forall>m claims key tok kf. SignedString lib m claims key = Inr tok \<longrightarrow>
        TrimSpace tok = tok \<and> \<not> prefix ''Bearer '' tok \<and>
        (unexpired claims \<longrightarrow> kf m = Inr key \<longrightarrow> ParseWithClaims lib tok kf = Inr (claims, True)))"

definition jwt_verifies ::
  "jwt_lib \<Rightarrow> (SigningMethod \<Rightarrow> string \<Rightarrow> string \<Rightarrow> JWTClaims \<Rightarrow> bool) \<Rightarrow> bool" where
  "jwt_verifies lib verified \<longleftrightarrow>
     (\<forall>tok kf claims. ParseWithClaims lib tok kf = Inr (claims, True) \<longrightarrow>
        (\<exists>m key. kf m = Inr key \<and> verified m key tok claims))"

section \<open>Facts\<close>

lemma jwt_keyfunc_hmac: "jwt_keyfunc j m = Inr key \<longleftrightarrow> (\<exists>n. m = SigningMethodHMAC n) \<and> key = ja_secretKey j"
  by (cases m) (auto simp: jwt_keyfunc_def)

lemma PermissionLevel_bound: "PermissionLevel ul p \<le> 3"
  by (simp add: PermissionLevel_def Let_def)

lemma PermissionLevel_words [simp]:
  "PermissionLevel ul ''read'' = 1" "PermissionLevel ul ''write'' = 2" "PermissionLevel ul ''admin'' = 3"
  by (simp_all add: PermissionLevel_def ToLower_def is_ascii_def lower_byte_def)

lemma HasChannelAccess_mono:
  assumes "PermissionLevel ul weak \<le> PermissionLevel ul strong"
    and "HasChannelAccess ul claims channel strong"
  shows "HasChannelAccess ul claims channel weak"
  using assms by (auto simp: HasChannelAccess_def split: option.splits if_splits)

lemma TrimPrefix_bearer:
  "TrimPrefix (''Bearer '' @ tok) ''Bearer '' = tok" "\<not> prefix ''Bearer '' tok \<Longrightarrow> TrimPrefix tok ''Bearer '' = tok"
  by (simp_all add: TrimPrefix_def HasPrefix_def)

section \<open>Properties\<close>

text \<open>C29. Token round trip: what \<^verbatim>\<open>GenerateToken\<close> signs, \<^verbatim>\<open>ValidateToken\<close> of the same configuration accepts until it
  expires, with or without the scheme word, and returns the claims that were signed.\<close>

theorem token_roundtrip:
  assumes "jwt_signs lib unexpired"
    and "GenerateToken lib j userID displayName roles channels permissions ttl t0 t1 = Inr tok"
    and "unexpired \<lparr>jc_UserID = userID, jc_DisplayName = displayName, jc_Roles = roles, jc_Channels = channels,
      jc_Permissions = permissions, jc_Issuer = ja_issuer j, jc_Subject = userID,
      jc_ExpiresAt = NewNumericDate lib (t0 + ttl), jc_IssuedAt = NewNumericDate lib t1\<rparr>"
  shows "\<exists>claims. ValidateToken lib (Some j) tok = Inr claims \<and> ValidateToken lib (Some j) (''Bearer '' @ tok) = Inr claims \<and>
    jc_UserID claims = userID \<and> jc_DisplayName claims = displayName \<and> jc_Roles claims = roles \<and>
    jc_Channels claims = channels \<and> jc_Permissions claims = permissions"
proof -
  let ?c = "\<lparr>jc_UserID = userID, jc_DisplayName = displayName, jc_Roles = roles, jc_Channels = channels,
      jc_Permissions = permissions, jc_Issuer = ja_issuer j, jc_Subject = userID,
      jc_ExpiresAt = NewNumericDate lib (t0 + ttl), jc_IssuedAt = NewNumericDate lib t1\<rparr>"
  have signed: "SignedString lib SigningMethodHS256 ?c (ja_secretKey j) = Inr tok"
    using assms(2) by (auto simp: GenerateToken_def split: if_splits)
  have tok: "TrimSpace tok = tok" "\<not> prefix ''Bearer '' tok"
    and parsed: "ParseWithClaims lib tok (jwt_keyfunc j) = Inr (?c, True)"
    using assms(1,3) signed unfolding jwt_signs_def by (auto simp: jwt_keyfunc_def)
  show ?thesis using tok parsed by (simp add: ValidateToken_def TrimPrefix_bearer del: append.simps)
qed

text \<open>C30. No token is accepted under another kind of signature: a token that \<^verbatim>\<open>ValidateToken\<close> accepts carries an
  HMAC signature that verifies under the configured secret, so neither the algorithm \<^verbatim>\<open>none\<close> nor an asymmetric
  one with the secret as its public key gets through.\<close>

theorem only_hmac_tokens:
  assumes "jwt_verifies lib verified" and "ValidateToken lib (Some j) token = Inr claims"
  shows "\<exists>n tok. verified (SigningMethodHMAC n) (ja_secretKey j) tok claims"
proof -
  obtain tok where "ParseWithClaims lib tok (jwt_keyfunc j) = Inr (claims, True)"
    using assms(2) by (auto simp: ValidateToken_def split: sum.splits if_splits)
  then show ?thesis using assms(1) jwt_keyfunc_hmac unfolding jwt_verifies_def by metis
qed

section \<open>A library that keeps its promises\<close>

text \<open>A token is the claims in the clear; one secret, one key.\<close>

definition demo_claims :: JWTClaims where
  "demo_claims = \<lparr>jc_UserID = ''ann'', jc_DisplayName = ''Ann'', jc_Roles = [], jc_Channels = [''chat''],
     jc_Permissions = [], jc_Issuer = ''synchub'', jc_Subject = ''ann'', jc_ExpiresAt = 10, jc_IssuedAt = 0\<rparr>"

definition demo_lib :: jwt_lib where
  "demo_lib = \<lparr>NewNumericDate = id,
     SignedString = (\<lambda>m claims key. if claims = demo_claims \<and> m = SigningMethodHS256 \<and> key = ''secret'' then Inr ''tok'' else Inl ''no''),
     ParseWithClaims = (\<lambda>tok kf. if tok = ''tok'' \<and> kf SigningMethodHS256 = Inr ''secret'' then Inr (demo_claims, True) else Inl ''bad'')\<rparr>"

definition demo_auth :: JWTAuth where
  "demo_auth = \<lparr>ja_secretKey = ''secret'', ja_issuer = ''synchub''\<rparr>"

lemma TrimSpace_tok: "TrimSpace ''tok'' = ''tok''"
  by code_simp

lemma demo_lib_signs: "jwt_signs demo_lib (\<lambda>_. True)"
  using TrimSpace_tok by (auto simp: jwt_signs_def demo_lib_def split: if_splits)

lemma demo_token:
  "GenerateToken demo_lib demo_auth ''ann'' ''Ann'' [] [''chat''] [] 10 0 0 = Inr ''tok''"
  by (simp add: GenerateToken_def demo_lib_def demo_auth_def demo_claims_def)

theorem token_roundtrip_witness:
  "\<exists>claims. ValidateToken demo_lib (Some demo_auth) (''Bearer '' @ ''tok'') = Inr claims \<and> jc_UserID claims = ''ann''"
  using token_roundtrip [OF demo_lib_signs demo_token] by (auto simp del: append.simps)

theorem only_hmac_tokens_witness:
  "ValidateToken demo_lib (Some demo_auth) ''tok'' = Inr demo_claims \<and>
   (\<exists>n. SigningMethodHMAC n = SigningMethodHS256 \<and> ja_secretKey demo_auth = ''secret'')"
proof -
  let ?v = "\<lambda>m key tok claims. m = SigningMethodHS256 \<and> key = ''secret'' \<and> claims = demo_claims"
  have v: "jwt_verifies demo_lib ?v" by (auto simp: jwt_verifies_def demo_lib_def split: if_splits)
  have tok: "ValidateToken demo_lib (Some demo_auth) ''tok'' = Inr demo_claims"
    by (simp add: ValidateToken_def demo_lib_def demo_auth_def jwt_keyfunc_def TrimSpace_tok TrimPrefix_def HasPrefix_def)
  show ?thesis using only_hmac_tokens [OF v tok] tok by auto
qed

end
