(* ===== verification/Acl.thy ===== *)
theory Acl
  imports Jwt
begin

text \<open>
  \<^verbatim>\<open>internal/security/acl.go\<close>: the access rules of the channels. The manager's \<^verbatim>\<open>map[string]*ChannelACL\<close>
  is a Go map of records; the rules are only read once they are stored. Each method takes the lock
  for its whole body, or copies the one entry it needs under it, so it is one step.
\<close>

record ChannelACL =
  acl_Channel :: string
  acl_Public :: bool
  acl_MaxMembers :: int
  acl_AllowedKeys :: "string slice"
  acl_Permissions :: "(string \<times> string) slice"

record ACLManager =
  channels :: "(string, ChannelACL) gomap"

definition NewACLManager :: ACLManager where
  "NewACLManager = \<lparr>channels = []\<rparr>"

definition SetChannelACL :: "ChannelACL \<Rightarrow> ACLManager \<Rightarrow> ACLManager" where
  "SetChannelACL acl am = am\<lparr>channels := AList.update (acl_Channel acl) acl (channels am)\<rparr>"

definition GetChannelACL :: "ACLManager \<Rightarrow> string \<Rightarrow> ChannelACL option" where
  "GetChannelACL am channel = map_of (channels am) channel"

definition RemoveChannelACL :: "string \<Rightarrow> ACLManager \<Rightarrow> ACLManager \<times> bool" where
  "RemoveChannelACL channel am = (case map_of (channels am) channel of
       Some _ \<Rightarrow> (am\<lparr>channels := AList.delete channel (channels am)\<rparr>, True)
     | None \<Rightarrow> (am, False))"

definition ListACLs :: "ACLManager \<Rightarrow> ChannelACL list" where
  "ListACLs am = map snd (channels am)"

definition CanJoin :: "ACLManager \<Rightarrow> string \<Rightarrow> string \<Rightarrow> string \<Rightarrow> bool" where
  "CanJoin am channel apiKey userID = (case map_of (channels am) channel of
       None \<Rightarrow> True
     | Some acl \<Rightarrow>
         if acl_Public acl then True
         else if elems (acl_AllowedKeys acl) \<noteq> [] \<and> \<not> list_ex (\<lambda>k. k = apiKey) (elems (acl_AllowedKeys acl)) then False
         else if elems (acl_Permissions acl) \<noteq> [] then map_of (elems (acl_Permissions acl)) userID \<noteq> None
         else True)"

definition CanWrite :: "(string \<Rightarrow> string) \<Rightarrow> ACLManager \<Rightarrow> string \<Rightarrow> string \<Rightarrow> bool" where
  "CanWrite ul am channel userID = (case map_of (channels am) channel of
       None \<Rightarrow> True
     | Some acl \<Rightarrow>
         if acl_Public acl then True
         else if elems (acl_Permissions acl) = [] then True
         else (case map_of (elems (acl_Permissions acl)) userID of
             None \<Rightarrow> False
           | Some perm \<Rightarrow> PermissionLevel ul ''write'' \<le> PermissionLevel ul perm))"

definition CheckMaxMembers :: "ACLManager \<Rightarrow> string \<Rightarrow> int \<Rightarrow> bool" where
  "CheckMaxMembers am channel currentCount = (case map_of (channels am) channel of
       None \<Rightarrow> True
     | Some acl \<Rightarrow> if acl_MaxMembers acl = 0 then True else currentCount < acl_MaxMembers acl)"

text \<open>The manager files every rule under the channel it is for.\<close>

definition acl_ok :: "ACLManager \<Rightarrow> bool" where
  "acl_ok am \<longleftrightarrow> gomap_ok (channels am) \<and>
     (\<forall>ch acl. map_of (channels am) ch = Some acl \<longrightarrow> acl_Channel acl = ch)"

section \<open>Facts\<close>

lemma acl_ok_New [simp]: "acl_ok NewACLManager"
  by (simp add: acl_ok_def NewACLManager_def)

lemma acl_ok_Set [simp]: "acl_ok am \<Longrightarrow> acl_ok (SetChannelACL acl am)"
  by (simp add: acl_ok_def SetChannelACL_def)

lemma acl_ok_Remove [simp]: "acl_ok am \<Longrightarrow> acl_ok (fst (RemoveChannelACL ch am))"
  by (simp add: acl_ok_def RemoveChannelACL_def split: option.splits)

lemma Get_Set [simp]:
  "GetChannelACL (SetChannelACL acl am) ch = (if ch = acl_Channel acl then Some acl else GetChannelACL am ch)"
  by (simp add: GetChannelACL_def SetChannelACL_def)

lemma Get_Remove [simp]:
  "GetChannelACL (fst (RemoveChannelACL c am)) ch = (if ch = c then None else GetChannelACL am ch)"
  by (simp add: GetChannelACL_def RemoveChannelACL_def split: option.splits)

text \<open>The decisions about a channel depend on its own rule only.\<close>

lemma decisions_of_rule:
  assumes "GetChannelACL am ch = GetChannelACL am' ch"
  shows "CanJoin am ch k u = CanJoin am' ch k u"
    and "CanWrite ul am ch u = CanWrite ul am' ch u"
    and "CheckMaxMembers am ch n = CheckMaxMembers am' ch n"
  using assms by (simp_all add: GetChannelACL_def CanJoin_def CanWrite_def CheckMaxMembers_def)

lemma CanJoin_iff:
  "GetChannelACL am ch = Some acl \<Longrightarrow>
   CanJoin am ch k u \<longleftrightarrow> acl_Public acl \<or>
     (elems (acl_AllowedKeys acl) = [] \<or> k \<in> set (elems (acl_AllowedKeys acl))) \<and>
     (elems (acl_Permissions acl) = [] \<or> u \<in> fst ` set (elems (acl_Permissions acl)))"
  by (auto simp: GetChannelACL_def CanJoin_def list_ex_iff map_of_eq_None_iff)

lemma CanWrite_iff:
  "GetChannelACL am ch = Some acl \<Longrightarrow>
   CanWrite ul am ch u \<longleftrightarrow> acl_Public acl \<or> elems (acl_Permissions acl) = [] \<or>
     (\<exists>perm. map_of (elems (acl_Permissions acl)) u = Some perm \<and> 2 \<le> PermissionLevel ul perm)"
  by (auto simp: GetChannelACL_def CanWrite_def split: option.splits)

section \<open>Properties\<close>

text \<open>The access rules decide as documented: a channel without a rule or with a public one admits and lets
  write everybody; otherwise the key must be listed if keys are listed, the user must be listed if permissions
  are listed, and to write the user's permission must be \<^verbatim>\<open>write\<close> or \<^verbatim>\<open>admin\<close>. Rules of other channels play no
  part, and setting a rule changes the decisions of its own channel only.\<close>

lemma acl_decisions:
  "(CanJoin am ch k u \<longleftrightarrow> (case GetChannelACL am ch of None \<Rightarrow> True | Some acl \<Rightarrow> acl_Public acl \<or>
      (elems (acl_AllowedKeys acl) = [] \<or> k \<in> set (elems (acl_AllowedKeys acl))) \<and>
      (elems (acl_Permissions acl) = [] \<or> u \<in> fst ` set (elems (acl_Permissions acl))))) \<and>
   (CanWrite ul am ch u \<longleftrightarrow> (case GetChannelACL am ch of None \<Rightarrow> True | Some acl \<Rightarrow> acl_Public acl \<or>
      elems (acl_Permissions acl) = [] \<or> (case map_of (elems (acl_Permissions acl)) u of None \<Rightarrow> False
        | Some perm \<Rightarrow> ToLower ul perm = ''write'' \<or> ToLower ul perm = ''admin''))) \<and>
   GetChannelACL (SetChannelACL rule am) ch = (if ch = acl_Channel rule then Some rule else GetChannelACL am ch)"
proof -
  have level: "2 \<le> PermissionLevel ul p \<longleftrightarrow> ToLower ul p = ''write'' \<or> ToLower ul p = ''admin''" for p
    by (auto simp: PermissionLevel_def Let_def)
  show ?thesis
  proof (cases "GetChannelACL am ch")
    case None
    then show ?thesis by (simp add: CanJoin_def CanWrite_def GetChannelACL_def SetChannelACL_def)
  next
    case (Some acl)
    then show ?thesis using CanJoin_iff [OF Some] CanWrite_iff [OF Some] by (auto simp: level split: option.split)
  qed
qed

end
