(* ===== verification/Metrics.thy ===== *)
theory Metrics
  imports GoText
begin

text \<open>
  \<^verbatim>\<open>internal/metrics/metrics.go\<close>: the counters of the broker and the text of the \<^verbatim>\<open>/metrics\<close> endpoint.
  Every \<^verbatim>\<open>atomic.Int64\<close> is a 64-bit word, so \<^verbatim>\<open>Add\<close> wraps as it does in Go; it is read as a signed
  number. \<^verbatim>\<open>HttpRequests\<close> is a \<^verbatim>\<open>sync.Map\<close> no code reads or writes and is left out. The uptime line
  prints a \<^verbatim>\<open>float64\<close> with two decimals; its text is the argument \<open>uptime\<close>.
\<close>

record Metrics =
  WsConnections :: "64 word"
  SseConnections :: "64 word"
  MessagesPublished :: "64 word"
  MessagesDelivered :: "64 word"
  WsMessagesIn :: "64 word"
  WsMessagesOut :: "64 word"
  HttpErrors :: "64 word"
  RateLimitHits :: "64 word"
  KeyRevocations :: "64 word"
  WebhookDeliveries :: "64 word"
  WebhookFailures :: "64 word"
  StartTime :: int

definition Metrics_New :: "int \<Rightarrow> Metrics" where
  "Metrics_New now = \<lparr>WsConnections = 0, SseConnections = 0, MessagesPublished = 0,
     MessagesDelivered = 0, WsMessagesIn = 0, WsMessagesOut = 0, HttpErrors = 0,
     RateLimitHits = 0, KeyRevocations = 0, WebhookDeliveries = 0, WebhookFailures = 0,
     StartTime = now\<rparr>"

definition metric_block :: "string \<Rightarrow> string \<Rightarrow> string \<Rightarrow> string \<Rightarrow> string" where
  "metric_block name help kind val =
     ''# HELP '' @ name @ '' '' @ help @ [CHR 0x0A] @
     ''# TYPE '' @ name @ '' '' @ kind @ [CHR 0x0A] @
     name @ '' '' @ val @ [CHR 0x0A, CHR 0x0A]"

definition Load :: "64 word \<Rightarrow> string" where
  "Load w = itoa (sint w)"

definition ServeMetrics :: "string \<Rightarrow> Metrics \<Rightarrow> string" where
  "ServeMetrics uptime m = concat
     [metric_block ''synchub_uptime_seconds'' ''Time since server start in seconds.'' ''gauge'' uptime,
      metric_block ''synchub_ws_connections_active'' ''Current active WebSocket connections.''
        ''gauge'' (Load (WsConnections m)),
      metric_block ''synchub_sse_connections_active'' ''Current active SSE connections.''
        ''gauge'' (Load (SseConnections m)),
      metric_block ''synchub_messages_published_total''
        ''Total messages published via /publish endpoint.'' ''counter'' (Load (MessagesPublished m)),
      metric_block ''synchub_messages_delivered_total''
        ''Total messages delivered to subscribers.'' ''counter'' (Load (MessagesDelivered m)),
      metric_block ''synchub_ws_messages_received_total''
        ''Total WebSocket messages received from clients.'' ''counter'' (Load (WsMessagesIn m)),
      metric_block ''synchub_ws_messages_sent_total''
        ''Total WebSocket messages sent to clients.'' ''counter'' (Load (WsMessagesOut m)),
      metric_block ''synchub_http_errors_total'' ''Total HTTP error responses.''
        ''counter'' (Load (HttpErrors m)),
      metric_block ''synchub_rate_limit_hits_total'' ''Total rate limit rejections.''
        ''counter'' (Load (RateLimitHits m)),
      metric_block ''synchub_key_revocations_total'' ''Total API key revocations.''
        ''counter'' (Load (KeyRevocations m)),
      metric_block ''synchub_webhook_deliveries_total'' ''Total webhook delivery attempts.''
        ''counter'' (Load (WebhookDeliveries m)),
      metric_block ''synchub_webhook_failures_total'' ''Total webhook delivery failures.''
        ''counter'' (Load (WebhookFailures m))]"

end
