(* ===== verification/HubCore.thy ===== *)
theory HubCore
  imports SseBroker Valkey Acl Metrics
begin

text \<open>
  \<^verbatim>\<open>internal/hub/hub.go\<close> and the data of \<^verbatim>\<open>internal/hub/client.go\<close>. A \<^verbatim>\<open>*Client\<close> is an address in
  \<open>hb_heap\<close>, because the maps \<^verbatim>\<open>Clients\<close> and \<^verbatim>\<open>Rooms\<close> and the goroutines of a connection share the object
  and close and fill the same \<^verbatim>\<open>Send\<close> channel. The hub's record holds what one process has: the two
  maps, the broker and the bridge behind the interfaces \<^verbatim>\<open>SSEPublisher\<close> and \<^verbatim>\<open>ValkeyPublisher\<close>
  (\<open>None\<close> while they are not attached), and the one access manager and metrics object that
  the clients point to. A client's pointers to these two are Booleans: \<open>False\<close> is nil.

  The three cases of the \<^verbatim>\<open>select\<close> in \<^verbatim>\<open>Run\<close> are \<open>Run_register\<close>, \<open>Run_unregister\<close> and
  \<open>Run_broadcast\<close>; the readings of the clock they make are arguments, in the order of the calls.
  A handler of one goroutine is one step of the model.
\<close>

type_synonym cref = nat

record Client =
  cl_conn_closed :: bool
  cl_Send :: "string gochan"
  cl_UserID :: string
  cl_APIKey :: string
  cl_Rooms :: "string list"
  cl_Info :: "UserInfo option"
  cl_JWTClaims :: "JWTClaims option"
  cl_ACLManager :: bool
  cl_Metrics :: bool

record Hub =
  hb_heap :: "cref \<rightharpoonup> Client"
  hb_next :: cref
  Clients :: "(string, cref) gomap"
  Rooms :: "(string, cref list) gomap"
  hb_valkey :: "Bridge option"
  hb_sse :: "SSEBroker option"
  hb_acl :: ACLManager
  hb_metrics :: Metrics

definition Hub_New :: "ACLManager \<Rightarrow> Metrics \<Rightarrow> Hub" where
  "Hub_New acl m = \<lparr>hb_heap = Map.empty, hb_next = 0, Clients = [], Rooms = [], hb_valkey = None,
     hb_sse = None, hb_acl = acl, hb_metrics = m\<rparr>"

definition SetValkey :: "Bridge \<Rightarrow> Hub \<Rightarrow> Hub" where
  "SetValkey v h = h\<lparr>hb_valkey := Some v\<rparr>"

definition SetSSE :: "SSEBroker \<Rightarrow> Hub \<Rightarrow> Hub" where
  "SetSSE s h = h\<lparr>hb_sse := Some s\<rparr>"

definition NewClient :: "string \<Rightarrow> string \<Rightarrow> Hub \<Rightarrow> Hub \<times> cref" where
  "NewClient userID apiKey h =
     (let c = \<lparr>cl_conn_closed = False, cl_Send = make_chan 256, cl_UserID = userID, cl_APIKey = apiKey,
               cl_Rooms = [], cl_Info = None, cl_JWTClaims = None, cl_ACLManager = False, cl_Metrics = False\<rparr>;
          r = hb_next h
      in (h\<lparr>hb_heap := (hb_heap h)(r \<mapsto> c), hb_next := Suc r\<rparr>, r))"

section \<open>Sending\<close>

text \<open>\<^verbatim>\<open>select { case client.Send <- data: default: }\<close>\<close>

definition hub_offer :: "string \<Rightarrow> cref \<Rightarrow> Hub \<Rightarrow> Hub outcome" where
  "hub_offer data r h = (case hb_heap h r of
       None \<Rightarrow> Panic NilDereference
     | Some c \<Rightarrow> and_then (try_send data (cl_Send c)) (\<lambda>(q, _).
         Done (h\<lparr>hb_heap := (hb_heap h)(r \<mapsto> c\<lparr>cl_Send := q\<rparr>)\<rparr>)))"

definition SendMessage :: "cref \<Rightarrow> Message \<Rightarrow> Hub \<Rightarrow> Hub outcome" where
  "SendMessage r msg h = (case Marshal msg of None \<Rightarrow> Done h | Some data \<Rightarrow> hub_offer data r h)"

text \<open>The calls through the two interfaces: nothing happens while they are nil.\<close>

definition sse_publish :: "(SSEBroker \<Rightarrow> (SSEBroker \<times> nat) outcome) \<Rightarrow> Hub \<Rightarrow> Hub outcome" where
  "sse_publish op h = (case hb_sse h of
       None \<Rightarrow> Done h
     | Some b \<Rightarrow> and_then (op b) (\<lambda>(b', _). Done (h\<lparr>hb_sse := Some b'\<rparr>)))"

definition valkey_publish :: "(Bridge \<Rightarrow> Bridge) \<Rightarrow> Hub \<Rightarrow> Hub" where
  "valkey_publish op h = h\<lparr>hb_valkey := map_option op (hb_valkey h)\<rparr>"

definition SendToUser :: "string \<Rightarrow> Message \<Rightarrow> Hub \<Rightarrow> (Hub \<times> bool) outcome" where
  "SendToUser userID msg h = (case map_of (Clients h) userID of
       None \<Rightarrow> if hb_valkey h \<noteq> None then Done (valkey_publish (PublishDirect userID msg) h, True)
               else Done (h, False)
     | Some client \<Rightarrow> and_then (SendMessage client msg h) (\<lambda>h'. Done (h', True)))"

definition room_offer :: "string \<Rightarrow> string \<Rightarrow> cref \<Rightarrow> Hub \<Rightarrow> Hub outcome" where
  "room_offer excludeUserID data r h = (case hb_heap h r of
       None \<Rightarrow> Panic NilDereference
     | Some c \<Rightarrow> if cl_UserID c = excludeUserID then Done h else hub_offer data r h)"

definition BroadcastToRoom :: "string \<Rightarrow> Message \<Rightarrow> string \<Rightarrow> Hub \<Rightarrow> Hub outcome" where
  "BroadcastToRoom room msg excludeUserID h = (case map_of (Rooms h) room of
       None \<Rightarrow> Done h
     | Some ms \<Rightarrow> (case Marshal msg of
           None \<Rightarrow> Done h
         | Some data \<Rightarrow> and_then (each (room_offer excludeUserID data) ms h) (\<lambda>h1.
             and_then (sse_publish (Publish room msg) h1) (\<lambda>h2.
             Done (valkey_publish (PublishRoom room msg) h2)))))"

definition BroadcastMessage :: "Message \<Rightarrow> Hub \<Rightarrow> Hub outcome" where
  "BroadcastMessage msg h = (case Marshal msg of
       None \<Rightarrow> Done h
     | Some data \<Rightarrow> and_then (each (hub_offer data) (map snd (Clients h)) h) (\<lambda>h1.
         and_then (sse_publish (PublishAll msg) h1) (\<lambda>h2.
         Done (valkey_publish (PublishBroadcast msg) h2))))"

section \<open>Rooms\<close>

definition JoinRoom :: "string \<Rightarrow> cref \<Rightarrow> Hub \<Rightarrow> Hub" where
  "JoinRoom room r h = h\<lparr>Rooms := AList.update room (List.insert r (members (Rooms h) room)) (Rooms h)\<rparr>"

definition LeaveRoom :: "string \<Rightarrow> cref \<Rightarrow> Hub \<Rightarrow> Hub" where
  "LeaveRoom room r h = (case map_of (Rooms h) room of
       None \<Rightarrow> h
     | Some ms \<Rightarrow> if removeAll r ms = [] then h\<lparr>Rooms := AList.delete room (Rooms h)\<rparr>
                  else h\<lparr>Rooms := AList.update room (removeAll r ms) (Rooms h)\<rparr>)"

text \<open>\<^verbatim>\<open>client.Rooms[room] = true\<close> and \<^verbatim>\<open>delete(client.Rooms, room)\<close>, the client's own record of its rooms.\<close>

definition mark_room :: "cref \<Rightarrow> string \<Rightarrow> Hub \<Rightarrow> Hub outcome" where
  "mark_room r room h = (case hb_heap h r of
       None \<Rightarrow> Panic NilDereference
     | Some c \<Rightarrow> Done (h\<lparr>hb_heap := (hb_heap h)(r \<mapsto> c\<lparr>cl_Rooms := List.insert room (cl_Rooms c)\<rparr>)\<rparr>))"

definition unmark_room :: "cref \<Rightarrow> string \<Rightarrow> Hub \<Rightarrow> Hub outcome" where
  "unmark_room r room h = (case hb_heap h r of
       None \<Rightarrow> Panic NilDereference
     | Some c \<Rightarrow> Done (h\<lparr>hb_heap := (hb_heap h)(r \<mapsto> c\<lparr>cl_Rooms := removeAll room (cl_Rooms c)\<rparr>)\<rparr>))"

section \<open>The event loop\<close>

definition user_json :: "string \<Rightarrow> json" where
  "user_json userID = JObj [(''user_id'', JStr userID)]"

definition connected_message :: "int \<Rightarrow> string \<Rightarrow> Message" where
  "connected_message now userID = zero_Message\<lparr>m_Type := MsgTypeSystem,
     m_Payload := JObj [(''text'', JStr ''connected''), (''user_id'', JStr userID)], m_Timestamp := now\<rparr>"

definition user_message :: "string \<Rightarrow> int \<Rightarrow> string \<Rightarrow> string \<Rightarrow> Message" where
  "user_message type now userID room = zero_Message\<lparr>m_Type := type, m_UserID := userID,
     m_Room := room, m_Payload := user_json userID, m_Timestamp := now\<rparr>"

definition close_send :: "cref \<Rightarrow> Hub \<Rightarrow> Hub outcome" where
  "close_send r h = (case hb_heap h r of
       None \<Rightarrow> Panic NilDereference
     | Some c \<Rightarrow> and_then (close_chan (cl_Send c)) (\<lambda>q.
         Done (h\<lparr>hb_heap := (hb_heap h)(r \<mapsto> c\<lparr>cl_Send := q\<rparr>)\<rparr>)))"

definition kick :: "int \<Rightarrow> cref \<Rightarrow> Hub \<Rightarrow> Hub outcome" where
  "kick now existing h =
     and_then (SendMessage existing (NewSystemMessage now ''connected from another location'') h) (\<lambda>h1.
     and_then (close_send existing h1) (\<lambda>h2.
     (case hb_heap h2 existing of
        None \<Rightarrow> Panic NilDereference
      | Some c \<Rightarrow> Done (h2\<lparr>Clients := AList.delete (cl_UserID c) (Clients h2)\<rparr>))))"

definition Run_register :: "int \<Rightarrow> int \<Rightarrow> int \<Rightarrow> cref \<Rightarrow> Hub \<Rightarrow> Hub outcome" where
  "Run_register t0 t1 t2 client h = (case hb_heap h client of
       None \<Rightarrow> Panic NilDereference
     | Some c \<Rightarrow>
         let uid = cl_UserID c in
         and_then (case map_of (Clients h) uid of None \<Rightarrow> Done h | Some existing \<Rightarrow> kick t0 existing h) (\<lambda>h1.
         and_then (SendMessage client (connected_message t1 uid)
                     (h1\<lparr>Clients := AList.update uid client (Clients h1)\<rparr>)) (\<lambda>h2.
         BroadcastMessage (user_message MsgTypeUserJoined t2 uid []) h2)))"

definition Run_unregister :: "int \<Rightarrow> cref \<Rightarrow> Hub \<Rightarrow> Hub outcome" where
  "Run_unregister t0 client h = (case hb_heap h client of
       None \<Rightarrow> Panic NilDereference
     | Some c \<Rightarrow>
         let uid = cl_UserID c in
         and_then
           (if map_of (Clients h) uid \<noteq> None then
              close_send client
                (fold (\<lambda>room. LeaveRoom room client) (cl_Rooms c)
                   (h\<lparr>Clients := AList.delete uid (Clients h)\<rparr>))
            else Done h) (\<lambda>h1.
         let h2 = (if cl_Metrics c
                   then h1\<lparr>hb_metrics := (hb_metrics h1)\<lparr>WsConnections := WsConnections (hb_metrics h1) - 1\<rparr>\<rparr>
                   else h1)
         in BroadcastMessage (user_message MsgTypeUserLeft t0 uid []) h2))"

definition Run_broadcast :: "string \<Rightarrow> Hub \<Rightarrow> Hub outcome" where
  "Run_broadcast message h = each (hub_offer message) (map snd (Clients h)) h"

section \<open>Queries and revocation\<close>

definition ClientCount :: "Hub \<Rightarrow> nat" where
  "ClientCount h = length (Clients h)"

definition RoomCount :: "Hub \<Rightarrow> nat" where
  "RoomCount h = length (Rooms h)"

definition RoomMemberCount :: "string \<Rightarrow> Hub \<Rightarrow> nat" where
  "RoomMemberCount room h = (case map_of (Rooms h) room of Some ms \<Rightarrow> length ms | None \<Rightarrow> 0)"

definition disconnect_client :: "string \<Rightarrow> cref \<Rightarrow> Hub \<times> nat \<Rightarrow> (Hub \<times> nat) outcome" where
  "disconnect_client apiKey r st = (case st of (h, n) \<Rightarrow>
     (case hb_heap h r of
        None \<Rightarrow> Panic NilDereference
      | Some c \<Rightarrow>
          if cl_APIKey c = apiKey
          then Done (h\<lparr>hb_heap := (hb_heap h)(r \<mapsto> c\<lparr>cl_conn_closed := True\<rparr>)\<rparr>, Suc n)
          else Done (h, n)))"

definition DisconnectKey :: "string \<Rightarrow> Hub \<Rightarrow> (Hub \<times> nat) outcome" where
  "DisconnectKey apiKey h =
     and_then (each (disconnect_client apiKey) (map snd (Clients h)) (h, 0))
       (\<lambda>(h', n). if 0 < n then and_then (slice_to 8 apiKey) (\<lambda>_. Done (h', n)) else Done (h', n))"

definition GetOnlineUsers :: "Hub \<Rightarrow> string list" where
  "GetOnlineUsers h = map fst (Clients h)"

fun user_ids :: "Hub \<Rightarrow> cref list \<Rightarrow> string list outcome" where
  "user_ids h [] = Done []"
| "user_ids h (r # rs) = (case hb_heap h r of
     None \<Rightarrow> Panic NilDereference
   | Some c \<Rightarrow> and_then (user_ids h rs) (\<lambda>us. Done (cl_UserID c # us)))"

definition GetRoomMembers :: "string \<Rightarrow> Hub \<Rightarrow> string list outcome" where
  "GetRoomMembers room h = (case map_of (Rooms h) room of None \<Rightarrow> Done [] | Some ms \<Rightarrow> user_ids h ms)"

definition GetRooms :: "Hub \<Rightarrow> string list" where
  "GetRooms h = map fst (Rooms h)"

end
