(* ===== verification/HubInvariant.thy ===== *)
theory HubInvariant
  imports HubCore
begin

text \<open>
  The invariant of the hub and the operations that keep it. Every connection goes through the phases
  \<open>Joining\<close> (upgraded, its \<^verbatim>\<open>Register\<close> not yet taken by the event loop), \<open>Active\<close> (registered) and \<open>Gone\<close>
  (unregistered); the phases are ghost state, a map beside the hub. \<open>hub_inv\<close> ties the hub's maps,
  the rooms of the clients and the \<^verbatim>\<open>Send\<close> channels to the phases; the broker and the bridge are attached, as \<^verbatim>\<open>main\<close> does
  before it serves a request. \<open>keeps\<close> says that an operation
  completes and maintains the invariant; it is closed under sequencing, so that a handler that is a sequence of
  such operations needs no proof of its own.
\<close>

datatype phase = Joining | Active | Gone

type_synonym phases = "cref \<rightharpoonup> phase"

definition open_conn :: "phases \<Rightarrow> cref \<Rightarrow> bool" where
  "open_conn ph r \<longleftrightarrow> ph r = Some Joining \<or> ph r = Some Active"

section \<open>The loops over the clients are fan-outs\<close>

definition hub_live :: "Hub \<Rightarrow> cref \<Rightarrow> bool" where
  "hub_live h r \<longleftrightarrow> (case hb_heap h r of None \<Rightarrow> False | Some c \<Rightarrow> \<not> ch_closed (cl_Send c))"

definition hub_inbox :: "Hub \<Rightarrow> cref \<Rightarrow> string list" where
  "hub_inbox h r = (case hb_heap h r of None \<Rightarrow> [] | Some c \<Rightarrow> ch_buf (cl_Send c))"

definition hub_space :: "Hub \<Rightarrow> cref \<Rightarrow> bool" where
  "hub_space h r = (case hb_heap h r of None \<Rightarrow> False | Some c \<Rightarrow> ch_space (cl_Send c))"

definition posted :: "string \<Rightarrow> cref \<Rightarrow> Client \<Rightarrow> Hub \<Rightarrow> Hub" where
  "posted d r c h = h\<lparr>hb_heap := (hb_heap h)(r \<mapsto> c\<lparr>cl_Send := if ch_space (cl_Send c)
     then (cl_Send c)\<lparr>ch_buf := ch_buf (cl_Send c) @ [d]\<rparr> else cl_Send c\<rparr>)\<rparr>"

lemma hub_offer_eq:
  "hub_offer d r h = (case hb_heap h r of
       None \<Rightarrow> Panic NilDereference
     | Some c \<Rightarrow> if ch_closed (cl_Send c) then Panic SendOnClosedChannel else Done (posted d r c h))"
  by (simp add: hub_offer_def try_send_def posted_def del: and_then_eq_Done split: option.split)

lemma hub_offer_Done:
  "hub_offer d r h = Done h' \<longleftrightarrow> (\<exists>c. hb_heap h r = Some c \<and> \<not> ch_closed (cl_Send c) \<and> h' = posted d r c h)"
  by (auto simp: hub_offer_eq split: option.splits)

interpretation ws: fanout hub_offer hub_inbox hub_space hub_live
proof
  fix h r d
  assume "hub_live h r"
  then show "\<exists>h'. hub_offer d r h = Done h'"
    by (auto simp: hub_live_def hub_offer_eq split: option.splits)
next
  fix d r q and h h' :: Hub
  assume "hub_offer d r h = Done h'"
  then obtain c where "hb_heap h r = Some c" "\<not> ch_closed (cl_Send c)" "h' = posted d r c h"
    by (auto simp: hub_offer_Done)
  then show "hub_inbox h' q = (if q = r \<and> hub_space h r then hub_inbox h r @ [d] else hub_inbox h q)"
    and "q \<noteq> r \<Longrightarrow> hub_space h' q = hub_space h q"
    and "hub_live h' q = hub_live h q"
    by (simp_all add: hub_inbox_def hub_space_def hub_live_def posted_def)
qed

text \<open>What a send leaves alone: everything but the contents of the \<^verbatim>\<open>Send\<close> queues. \<open>core\<close> is a client
  without them.\<close>

definition core :: "Client \<Rightarrow> Client \<times> bool \<times> nat" where
  "core c = (c\<lparr>cl_Send := make_chan 0\<rparr>, ch_closed (cl_Send c), ch_cap (cl_Send c))"

definition queue_ok :: "Hub \<Rightarrow> cref \<Rightarrow> bool" where
  "queue_ok h r = (case hb_heap h r of None \<Rightarrow> True
     | Some c \<Rightarrow> chan_ok (cl_Send c) \<and> ch_cap (cl_Send c) = 256)"

definition same_but_queues :: "Hub \<Rightarrow> Hub \<Rightarrow> bool" where
  "same_but_queues h h' \<longleftrightarrow> Clients h' = Clients h \<and> Rooms h' = Rooms h \<and> hb_next h' = hb_next h \<and>
     hb_acl h' = hb_acl h \<and> hb_metrics h' = hb_metrics h \<and>
     (\<forall>r. map_option core (hb_heap h' r) = map_option core (hb_heap h r)) \<and>
     (\<forall>r. queue_ok h r \<longrightarrow> queue_ok h' r) \<and>
     (hb_sse h' = None \<longleftrightarrow> hb_sse h = None) \<and> (hb_valkey h' = None \<longleftrightarrow> hb_valkey h = None)"

lemma same_but_queues_refl [simp]: "same_but_queues h h"
  by (simp add: same_but_queues_def)

lemma same_but_queues_trans:
  "same_but_queues h1 h2 \<Longrightarrow> same_but_queues h2 h3 \<Longrightarrow> same_but_queues h1 h3"
  by (simp add: same_but_queues_def)

lemma hub_offer_same:
  "hub_offer d r h = Done h' \<Longrightarrow> same_but_queues h h' \<and> hb_sse h' = hb_sse h \<and> hb_valkey h' = hb_valkey h"
  by (auto simp: hub_offer_Done same_but_queues_def posted_def core_def queue_ok_def chan_ok_def ch_space_def)

lemma each_offer_same:
  "each (hub_offer d) rs h = Done h' \<Longrightarrow>
   same_but_queues h h' \<and> hb_sse h' = hb_sse h \<and> hb_valkey h' = hb_valkey h"
proof (induction rs arbitrary: h)
  case (Cons r rs)
  then obtain h1 where "hub_offer d r h = Done h1" and "each (hub_offer d) rs h1 = Done h'" by auto
  then show ?case using Cons.IH hub_offer_same same_but_queues_trans by metis
qed simp

lemma sse_publish_frame:
  assumes "sse_publish op h = Done h'"
  shows "hub_inbox h' = hub_inbox h" and "same_but_queues h h'" and "hb_valkey h' = hb_valkey h"
  using assms
  by (auto simp: sse_publish_def same_but_queues_def hub_inbox_def queue_ok_def fun_eq_iff split: option.splits)

lemma valkey_publish_frame:
  "hub_inbox (valkey_publish op h) = hub_inbox h" "same_but_queues h (valkey_publish op h)"
  by (auto simp: valkey_publish_def same_but_queues_def hub_inbox_def queue_ok_def fun_eq_iff)

lemma BroadcastMessage_same:
  assumes "BroadcastMessage msg h = Done h'"
  shows "same_but_queues h h'"
proof -
  obtain d h1 h2 where h1: "each (hub_offer d) (map snd (Clients h)) h = Done h1"
    and h2: "sse_publish (PublishAll msg) h1 = Done h2" and h': "h' = valkey_publish (PublishBroadcast msg) h2"
    using assms by (auto simp: BroadcastMessage_def Marshal_def)
  show ?thesis
    using each_offer_same [OF h1] sse_publish_frame(2) [OF h2] valkey_publish_frame(2) same_but_queues_trans
    unfolding h' by metis
qed

text \<open>The parts of a client the invariant speaks of.\<close>

definition user_of :: "Hub \<Rightarrow> cref \<Rightarrow> string option" where
  "user_of h r = map_option cl_UserID (hb_heap h r)"

definition rooms_of :: "Hub \<Rightarrow> cref \<Rightarrow> string list" where
  "rooms_of h r = (case hb_heap h r of None \<Rightarrow> [] | Some c \<Rightarrow> cl_Rooms c)"

lemma core_eq:
  assumes "core c' = core c"
  shows "cl_UserID c' = cl_UserID c" and "cl_Rooms c' = cl_Rooms c" and "cl_APIKey c' = cl_APIKey c"
    and "cl_Info c' = cl_Info c" and "cl_JWTClaims c' = cl_JWTClaims c"
    and "cl_ACLManager c' = cl_ACLManager c" and "cl_Metrics c' = cl_Metrics c"
    and "cl_conn_closed c' = cl_conn_closed c" and "ch_closed (cl_Send c') = ch_closed (cl_Send c)"
  using assms by (cases c'; cases c; simp add: core_def)+

lemma same_but_queues_views:
  assumes "same_but_queues h h'"
  shows "user_of h' = user_of h" and "rooms_of h' = rooms_of h" and "hub_live h' = hub_live h"
    and "(hb_heap h' r = None) = (hb_heap h r = None)"
proof -
  have core: "map_option core (hb_heap h' r) = map_option core (hb_heap h r)" for r
    using assms by (simp add: same_but_queues_def)
  have "user_of h' r = user_of h r \<and> rooms_of h' r = rooms_of h r \<and> hub_live h' r = hub_live h r \<and>
      (hb_heap h' r = None) = (hb_heap h r = None)" for r
  proof (cases "hb_heap h r")
    case None
    then show ?thesis using core [of r] by (simp add: user_of_def rooms_of_def hub_live_def)
  next
    case (Some c)
    then obtain c' where c': "hb_heap h' r = Some c'" "core c' = core c" using core [of r] by auto
    show ?thesis using Some c'(1) core_eq [OF c'(2)] by (simp add: user_of_def rooms_of_def hub_live_def)
  qed
  then show "user_of h' = user_of h" "rooms_of h' = rooms_of h" "hub_live h' = hub_live h"
    "(hb_heap h' r = None) = (hb_heap h r = None)"
    by auto
qed

section \<open>The invariant\<close>

definition rooms_ok :: "Hub \<Rightarrow> bool" where
  "rooms_ok h \<longleftrightarrow> gomap_ok (Rooms h) \<and>
     (\<forall>room ms. map_of (Rooms h) room = Some ms \<longrightarrow> ms \<noteq> [] \<and> distinct ms)"

definition hub_inv :: "phases \<Rightarrow> Hub \<Rightarrow> bool" where
  "hub_inv ph h \<longleftrightarrow> gomap_ok (Clients h) \<and> rooms_ok h \<and>
     (\<forall>r. hb_heap h r = None \<longleftrightarrow> ph r = None) \<and> (\<forall>r. ph r \<noteq> None \<longrightarrow> r < hb_next h) \<and>
     (\<forall>r. hub_live h r \<longleftrightarrow> open_conn ph r) \<and>
     (\<forall>uid r. map_of (Clients h) uid = Some r \<longleftrightarrow> ph r = Some Active \<and> user_of h r = Some uid) \<and>
     (\<forall>room r. r \<in> set (members (Rooms h) room) \<longleftrightarrow> open_conn ph r \<and> room \<in> set (rooms_of h r)) \<and>
     (\<forall>r q. open_conn ph r \<and> open_conn ph q \<and> user_of h r = user_of h q \<longrightarrow> r = q) \<and>
     (\<forall>r. queue_ok h r) \<and> (\<forall>b. hb_sse h = Some b \<longrightarrow> broker_ok b) \<and>
     (\<forall>r. user_of h r \<noteq> Some []) \<and> hb_sse h \<noteq> None \<and> hb_valkey h \<noteq> None"

lemma hub_invI:
  assumes "gomap_ok (Clients h)" and "rooms_ok h" and "\<And>r. hb_heap h r = None \<longleftrightarrow> ph r = None"
    and "\<And>r. ph r \<noteq> None \<Longrightarrow> r < hb_next h" and "\<And>r. hub_live h r \<longleftrightarrow> open_conn ph r"
    and "\<And>uid r. map_of (Clients h) uid = Some r \<longleftrightarrow> ph r = Some Active \<and> user_of h r = Some uid"
    and "\<And>room r. r \<in> set (members (Rooms h) room) \<longleftrightarrow> open_conn ph r \<and> room \<in> set (rooms_of h r)"
    and "\<And>r q. open_conn ph r \<Longrightarrow> open_conn ph q \<Longrightarrow> user_of h r = user_of h q \<Longrightarrow> r = q"
    and "\<And>r. queue_ok h r" and "\<And>b. hb_sse h = Some b \<Longrightarrow> broker_ok b" and "\<And>r. user_of h r \<noteq> Some []"
    and "hb_sse h \<noteq> None" and "hb_valkey h \<noteq> None"
  shows "hub_inv ph h"
  using assms unfolding hub_inv_def by blast

lemma hub_inv_same:
  "hub_inv ph h \<Longrightarrow> same_but_queues h h' \<Longrightarrow> (\<forall>b. hb_sse h' = Some b \<longrightarrow> broker_ok b) \<Longrightarrow> hub_inv ph h'"
  unfolding hub_inv_def by (simp add: same_but_queues_views) (auto simp: same_but_queues_def rooms_ok_def)

lemma hub_inv_parts:
  assumes "hub_inv ph h"
  shows "hb_sse h = Some b \<Longrightarrow> broker_ok b"
    and "hub_live h r \<longleftrightarrow> open_conn ph r"
    and "map_of (Clients h) uid = Some r \<longleftrightarrow> ph r = Some Active \<and> user_of h r = Some uid"
    and "r \<in> set (members (Rooms h) room) \<longleftrightarrow> open_conn ph r \<and> room \<in> set (rooms_of h r)"
    and "hb_heap h r = None \<longleftrightarrow> ph r = None"
    and "gomap_ok (Clients h)" and "rooms_ok h" and "ph r \<noteq> None \<Longrightarrow> r < hb_next h"
    and "open_conn ph r \<Longrightarrow> open_conn ph q \<Longrightarrow> user_of h r = user_of h q \<Longrightarrow> r = q"
    and "queue_ok h r" and "user_of h r \<noteq> Some []" and "hb_sse h \<noteq> None" and "hb_valkey h \<noteq> None"
  using assms unfolding hub_inv_def by blast+

lemma rooms_ok_distinct: "rooms_ok h \<Longrightarrow> distinct (members (Rooms h) room)"
  by (auto simp: rooms_ok_def members_def split: option.splits)

lemma open_conn_heap: "hub_inv ph h \<Longrightarrow> open_conn ph r \<Longrightarrow> \<exists>c. hb_heap h r = Some c"
  using hub_inv_parts(5) [of ph h r] by (auto simp: open_conn_def)

text \<open>An operation that completes, keeps the invariant and changes only queues, the broker and the
  bridge.\<close>

definition keeps :: "phases \<Rightarrow> (Hub \<Rightarrow> Hub outcome) \<Rightarrow> bool" where
  "keeps ph f \<longleftrightarrow> (\<forall>h. hub_inv ph h \<longrightarrow> (\<exists>h'. f h = Done h' \<and> hub_inv ph h'))"

lemma keepsD: "keeps ph f \<Longrightarrow> hub_inv ph h \<Longrightarrow> \<exists>h'. f h = Done h' \<and> hub_inv ph h'"
  by (simp add: keeps_def)

lemma keeps_Done [intro]: "keeps ph Done"
  by (simp add: keeps_def)

lemma keeps_and_then [intro]: "keeps ph f \<Longrightarrow> keeps ph g \<Longrightarrow> keeps ph (\<lambda>h. and_then (f h) g)"
  unfolding keeps_def by (metis and_then.simps(1))

lemma keeps_each: "(\<And>x. x \<in> set xs \<Longrightarrow> keeps ph (f x)) \<Longrightarrow> keeps ph (each f xs)"
proof (induction xs)
  case (Cons x xs)
  then have "keeps ph (\<lambda>h. and_then (f x h) (each f xs))" by (intro keeps_and_then) auto
  then show ?case by (simp add: keeps_def)
qed (simp add: keeps_def)

lemma keeps_hub_offer: "open_conn ph r \<Longrightarrow> keeps ph (hub_offer d r)"
proof -
  assume "open_conn ph r"
  have "\<exists>h'. hub_offer d r h = Done h' \<and> hub_inv ph h'" if inv: "hub_inv ph h" for h
  proof -
    from inv \<open>open_conn ph r\<close> have "hub_live h r" by (simp add: hub_inv_parts)
    then obtain h' where h': "hub_offer d r h = Done h'" using ws.offer_live by blast
    with hub_inv_same [OF inv] hub_offer_same [OF h'] hub_inv_parts(1) [OF inv] show ?thesis by auto
  qed
  then show ?thesis by (simp add: keeps_def)
qed

lemma keeps_SendMessage [intro]: "open_conn ph r \<Longrightarrow> keeps ph (SendMessage r msg)"
  using keeps_hub_offer by (simp add: SendMessage_def [abs_def] Marshal_def)

lemma keeps_sse_publish:
  assumes "\<And>b. broker_ok b \<Longrightarrow> \<exists>b' n. op b = Done (b', n) \<and> broker_ok b'"
  shows "keeps ph (sse_publish op)"
proof -
  have "\<exists>h'. sse_publish op h = Done h' \<and> hub_inv ph h'" if inv: "hub_inv ph h" for h
  proof (cases "hb_sse h")
    case (Some b)
    with assms hub_inv_parts(1) [OF inv] obtain b' n where "op b = Done (b', n)" "broker_ok b'" by blast
    moreover have "same_but_queues h (h\<lparr>hb_sse := Some b'\<rparr>)"
      using Some by (simp add: same_but_queues_def queue_ok_def)
    ultimately show ?thesis using Some hub_inv_same [OF inv] by (simp add: sse_publish_def)
  qed (use inv in \<open>simp add: sse_publish_def\<close>)
  then show ?thesis by (simp add: keeps_def)
qed

lemma hub_inv_valkey: "hub_inv ph h \<Longrightarrow> hub_inv ph (valkey_publish op h)"
  by (rule hub_inv_same [of ph h])
     (auto simp: valkey_publish_def same_but_queues_def queue_ok_def intro: hub_inv_parts(1))

lemma keeps_Publish: "keeps ph (sse_publish (Publish ch msg))"
  by (rule keeps_sse_publish) (use Publish_ok in \<open>fastforce simp: Marshal_def\<close>)

lemma keeps_PublishAll: "keeps ph (sse_publish (PublishAll msg))"
  by (rule keeps_sse_publish) (use PublishAll_ok in \<open>fastforce simp: Marshal_def\<close>)

text \<open>The two publications that follow a loop of sends.\<close>

lemma keeps_relay:
  assumes "keeps ph (sse_publish op)"
  shows "keeps ph (\<lambda>h. and_then (sse_publish op h) (\<lambda>h'. Done (valkey_publish vop h')))"
  using assms hub_inv_valkey unfolding keeps_def by (metis and_then.simps(1))

lemma keeps_BroadcastMessage [intro]: "keeps ph (BroadcastMessage msg)"
proof -
  have "\<exists>h'. BroadcastMessage msg h = Done h' \<and> hub_inv ph h'" if inv: "hub_inv ph h" for h
  proof -
    have "open_conn ph r" if "r \<in> set (map snd (Clients h))" for r
    proof -
      from hub_inv_parts(6) [OF inv] that obtain uid where "map_of (Clients h) uid = Some r" using gomap_values by metis
      with hub_inv_parts(3) [OF inv] show ?thesis by (simp add: open_conn_def)
    qed
    then have "keeps ph (each (hub_offer d) (map snd (Clients h)))" for d
      by (intro keeps_each keeps_hub_offer)
    from keepsD [OF keeps_and_then [OF this keeps_relay [OF keeps_PublishAll]] inv]
    show ?thesis by (simp add: BroadcastMessage_def Marshal_def del: and_then_eq_Done)
  qed
  then show ?thesis by (simp add: keeps_def)
qed

lemma keeps_room_offer: "open_conn ph r \<Longrightarrow> keeps ph (room_offer ex d r)"
proof -
  assume r: "open_conn ph r"
  have "\<exists>h'. room_offer ex d r h = Done h' \<and> hub_inv ph h'" if inv: "hub_inv ph h" for h
  proof -
    obtain c where "hb_heap h r = Some c" using open_conn_heap [OF inv r] by blast
    then show ?thesis using keepsD [OF keeps_hub_offer [OF r] inv] inv by (simp add: room_offer_def)
  qed
  then show ?thesis by (simp add: keeps_def)
qed

lemma keeps_BroadcastToRoom [intro]: "keeps ph (BroadcastToRoom room msg ex)"
proof -
  have "\<exists>h'. BroadcastToRoom room msg ex h = Done h' \<and> hub_inv ph h'" if inv: "hub_inv ph h" for h
  proof (cases "map_of (Rooms h) room")
    case (Some ms)
    then have "open_conn ph r" if "r \<in> set ms" for r
      using that hub_inv_parts(4) [OF inv, of r room] by (simp add: members_def)
    then have "keeps ph (each (room_offer ex d) ms)" for d
      by (intro keeps_each keeps_room_offer)
    from keepsD [OF keeps_and_then [OF this keeps_relay [OF keeps_Publish]] inv] Some
    show ?thesis by (simp add: BroadcastToRoom_def Marshal_def del: and_then_eq_Done)
  qed (use inv in \<open>simp add: BroadcastToRoom_def\<close>)
  then show ?thesis by (simp add: keeps_def)
qed

lemma SendToUser_inv:
  assumes inv: "hub_inv ph h"
  shows "\<exists>h' ok. SendToUser uid msg h = Done (h', ok) \<and> hub_inv ph h'"
proof (cases "map_of (Clients h) uid")
  case None
  then show ?thesis using inv hub_inv_valkey [OF inv] by (auto simp: SendToUser_def)
next
  case (Some r)
  then have "open_conn ph r" using hub_inv_parts(3) [OF inv] by (simp add: open_conn_def)
  from keepsD [OF keeps_SendMessage [OF this] inv] Some show ?thesis by (auto simp: SendToUser_def)
qed

section \<open>Rooms\<close>

lemma rooms_ok_Join: "rooms_ok h \<Longrightarrow> rooms_ok (JoinRoom room r h)"
  by (auto simp: rooms_ok_def JoinRoom_def members_def List.insert_def split: option.splits)

lemma members_Join:
  "members (Rooms (JoinRoom room r h)) = (members (Rooms h))(room := List.insert r (members (Rooms h) room))"
  by (simp add: JoinRoom_def)

lemma rooms_ok_Leave: "rooms_ok h \<Longrightarrow> rooms_ok (LeaveRoom room r h)"
  by (auto simp: rooms_ok_def LeaveRoom_def distinct_removeAll split: option.splits)

lemma members_Leave:
  "members (Rooms (LeaveRoom room r h)) = (members (Rooms h))(room := removeAll r (members (Rooms h) room))"
  by (cases "map_of (Rooms h) room") (auto simp: LeaveRoom_def members_def fun_eq_iff)

lemma room_ops_frame:
  "LeaveRoom room r h = h\<lparr>Rooms := Rooms (LeaveRoom room r h)\<rparr>"
  "JoinRoom room r h = h\<lparr>Rooms := Rooms (JoinRoom room r h)\<rparr>"
  by (simp_all add: LeaveRoom_def JoinRoom_def split: option.split)

lemma leave_all:
  assumes "rooms_ok h"
  shows "rooms_ok (fold (\<lambda>room. LeaveRoom room r) rs h)"
    and "members (Rooms (fold (\<lambda>room. LeaveRoom room r) rs h)) room =
      (if room \<in> set rs then removeAll r (members (Rooms h) room) else members (Rooms h) room)"
    and "fold (\<lambda>room. LeaveRoom room r) rs h = h\<lparr>Rooms := Rooms (fold (\<lambda>room. LeaveRoom room r) rs h)\<rparr>"
proof -
  show "rooms_ok (fold (\<lambda>room. LeaveRoom room r) rs h)"
    using assms by (induction rs arbitrary: h) (simp_all add: rooms_ok_Leave)
  show "members (Rooms (fold (\<lambda>room. LeaveRoom room r) rs h)) room =
      (if room \<in> set rs then removeAll r (members (Rooms h) room) else members (Rooms h) room)"
    by (induction rs arbitrary: h) (simp_all add: members_Leave)
  show "fold (\<lambda>room. LeaveRoom room r) rs h = h\<lparr>Rooms := Rooms (fold (\<lambda>room. LeaveRoom room r) rs h)\<rparr>"
  proof (induction rs arbitrary: h)
    case (Cons a rs)
    let ?h1 = "LeaveRoom a r h"
    have "fold (\<lambda>room. LeaveRoom room r) rs ?h1 = ?h1\<lparr>Rooms := Rooms (fold (\<lambda>room. LeaveRoom room r) rs ?h1)\<rparr>"
      by (rule Cons.IH)
    also have "\<dots> = h\<lparr>Rooms := Rooms (fold (\<lambda>room. LeaveRoom room r) rs ?h1)\<rparr>"
      by (subst room_ops_frame(1)) simp
    finally show ?case by simp
  qed simp
qed

lemma room_ops_views [simp]:
  "user_of (JoinRoom room r h) = user_of h" "user_of (LeaveRoom room r h) = user_of h"
  "rooms_of (JoinRoom room r h) = rooms_of h" "rooms_of (LeaveRoom room r h) = rooms_of h"
  "hub_live (JoinRoom room r h) = hub_live h" "hub_live (LeaveRoom room r h) = hub_live h"
  "queue_ok (JoinRoom room r h) = queue_ok h" "queue_ok (LeaveRoom room r h) = queue_ok h"
  "hb_heap (JoinRoom room r h) = hb_heap h" "hb_heap (LeaveRoom room r h) = hb_heap h"
  "Clients (JoinRoom room r h) = Clients h" "Clients (LeaveRoom room r h) = Clients h"
  "hb_next (JoinRoom room r h) = hb_next h" "hb_next (LeaveRoom room r h) = hb_next h"
  "hb_sse (JoinRoom room r h) = hb_sse h" "hb_sse (LeaveRoom room r h) = hb_sse h"
  by (auto simp: JoinRoom_def LeaveRoom_def user_of_def rooms_of_def hub_live_def queue_ok_def fun_eq_iff
      split: option.split)

definition with_rooms :: "cref \<Rightarrow> (string list \<Rightarrow> string list) \<Rightarrow> Client \<Rightarrow> Hub \<Rightarrow> Hub" where
  "with_rooms r f c h = h\<lparr>hb_heap := (hb_heap h)(r \<mapsto> c\<lparr>cl_Rooms := f (cl_Rooms c)\<rparr>)\<rparr>"

lemma with_rooms_inv:
  assumes inv: "hub_inv ph h" and r: "open_conn ph r" and c: "hb_heap h r = Some c"
    and ok: "rooms_ok h'" and mem: "\<And>rm q. q \<in> set (members (Rooms h') rm) \<longleftrightarrow>
      (if q = r then rm \<in> set (f (rooms_of h r)) else q \<in> set (members (Rooms h) rm))"
    and frame: "h' = (with_rooms r f c h)\<lparr>Rooms := rms\<rparr>"
  shows "hub_inv ph h'"
proof -
  have v: "user_of h' = user_of h" "hub_live h' = hub_live h" "queue_ok h' = queue_ok h"
    "rooms_of h' = (rooms_of h)(r := f (rooms_of h r))" "Clients h' = Clients h"
    "hb_next h' = hb_next h" "hb_sse h' = hb_sse h" "hb_valkey h' = hb_valkey h"
    "\<And>q. (hb_heap h' q = None) = (hb_heap h q = None)"
    using c unfolding frame
    by (auto simp: with_rooms_def user_of_def hub_live_def queue_ok_def rooms_of_def fun_eq_iff)
  show ?thesis
    by (rule hub_invI) (use v ok mem r hub_inv_parts [OF inv] in \<open>auto simp: hub_inv_parts(4) [OF inv]\<close>)
qed

lemma enter_inv:
  assumes inv: "hub_inv ph h" and r: "open_conn ph r"
  shows "\<exists>h1. mark_room r room h = Done h1 \<and> hub_inv ph (JoinRoom room r h1)"
proof -
  obtain c where c: "hb_heap h r = Some c" using open_conn_heap [OF inv r] by blast
  let ?h1 = "with_rooms r (List.insert room) c h"
  have "rooms_ok ?h1" using hub_inv_parts(7) [OF inv] by (simp add: rooms_ok_def with_rooms_def)
  then have "hub_inv ph (JoinRoom room r ?h1)"
    using hub_inv_parts(4) [OF inv] r
    by (intro with_rooms_inv [OF inv r c rooms_ok_Join _ room_ops_frame(2)])
       (auto simp: members_Join with_rooms_def)
  then show ?thesis using c by (simp add: mark_room_def with_rooms_def)
qed

lemma exit_inv:
  assumes inv: "hub_inv ph h" and r: "open_conn ph r"
  shows "\<exists>h1. unmark_room r room h = Done h1 \<and> hub_inv ph (LeaveRoom room r h1)"
proof -
  obtain c where c: "hb_heap h r = Some c" using open_conn_heap [OF inv r] by blast
  let ?h1 = "with_rooms r (removeAll room) c h"
  have "rooms_ok ?h1" using hub_inv_parts(7) [OF inv] by (simp add: rooms_ok_def with_rooms_def)
  then have "hub_inv ph (LeaveRoom room r ?h1)"
    using hub_inv_parts(4) [OF inv] r
    by (intro with_rooms_inv [OF inv r c rooms_ok_Leave _ room_ops_frame(1)])
       (auto simp: members_Leave with_rooms_def)
  then show ?thesis using c by (simp add: unmark_room_def with_rooms_def)
qed

section \<open>A connection's life\<close>

lemma hub_inv_New: "hub_inv Map.empty (SetSSE NewSSEBroker (SetValkey vb (Hub_New acl m)))"
  by (simp add: SetSSE_def SetValkey_def hub_inv_def rooms_ok_def Hub_New_def open_conn_def hub_live_def queue_ok_def members_def
      rooms_of_def user_of_def)

lemma NewClient_inv:
  assumes inv: "hub_inv ph h" and fresh: "\<forall>q. open_conn ph q \<longrightarrow> user_of h q \<noteq> Some uid"
    and named: "uid \<noteq> []" and alloc: "NewClient uid key h = (h', r)"
  shows "hub_inv (ph(r \<mapsto> Joining)) h'"
proof -
  have r: "r = hb_next h" and h': "h' = h\<lparr>hb_heap := hb_heap h', hb_next := Suc (hb_next h)\<rparr>"
    using alloc by (auto simp: NewClient_def Let_def)
  have none: "ph r = None" "hb_heap h r = None"
    using hub_inv_parts(8) [OF inv, of r] hub_inv_parts(5) [OF inv, of r] r by auto
  have op: "open_conn (ph(r \<mapsto> Joining)) q \<longleftrightarrow> q = r \<or> open_conn ph q" for q
    by (auto simp: open_conn_def)
  have v: "user_of h' = (user_of h)(r \<mapsto> uid)" "hub_live h' = (hub_live h)(r := True)"
    "rooms_of h' = rooms_of h" "\<And>q. queue_ok h q \<Longrightarrow> queue_ok h' q"
    "\<And>q. (hb_heap h' q = None) = (hb_heap h q = None \<and> q \<noteq> r)"
    using alloc none
    by (auto simp: NewClient_def Let_def user_of_def hub_live_def rooms_of_def queue_ok_def fun_eq_iff
        split: if_splits)
  have same: "Clients h' = Clients h" "Rooms h' = Rooms h" "hb_sse h' = hb_sse h" "hb_valkey h' = hb_valkey h" "hb_next h' = Suc r"
    using h' r by (metis Hub.ext_inject Hub.surjective Hub.update_convs(1,2))+
  have notin: "r \<notin> set (members (Rooms h) room)" for room
    using hub_inv_parts(4) [OF inv, of r room] none(1) by (simp add: open_conn_def)
  have lt: "q < Suc r" if "ph q \<noteq> None" for q
    using hub_inv_parts(8) [OF inv that] r by simp
  have "rooms_of h r = []" using none(2) by (simp add: rooms_of_def)
  then show ?thesis
    using none fresh named lt hub_inv_parts(3,4,6,7,9,10,11,12,13,1) [OF inv]
    by (intro hub_invI)
       (auto simp: op v same hub_inv_parts(2,5) [OF inv] rooms_ok_def split: if_splits)
qed

lemma register_inv:
  assumes inv: "hub_inv ph h" and r: "ph r = Some Joining" and c: "hb_heap h r = Some c"
  shows "map_of (Clients h) (cl_UserID c) = None"
    and "hub_inv (ph(r \<mapsto> Active)) (h\<lparr>Clients := AList.update (cl_UserID c) r (Clients h)\<rparr>)"
proof -
  let ?ph = "ph(r \<mapsto> Active)"
  have open_r: "open_conn ph r" using r by (simp add: open_conn_def)
  let ?uid = "cl_UserID c" and ?h1 = "h\<lparr>Clients := AList.update (cl_UserID c) r (Clients h)\<rparr>"
  have uid: "user_of h r = Some ?uid" using c by (simp add: user_of_def)
  show free: "map_of (Clients h) ?uid = None"
    using hub_inv_parts(3) [OF inv, of ?uid] hub_inv_parts(9) [OF inv open_r] uid r
    by (metis not_None_eq open_conn_def option.inject phase.distinct(1))
  have unused: "\<not> (ph q = Some Active \<and> user_of h q = Some ?uid)" for q
    using free hub_inv_parts(3) [OF inv, of ?uid q] by simp
  have op: "open_conn ?ph q \<longleftrightarrow> open_conn ph q" for q using r by (auto simp: open_conn_def)
  have v: "user_of ?h1 = user_of h" "hub_live ?h1 = hub_live h" "rooms_of ?h1 = rooms_of h"
    "queue_ok ?h1 = queue_ok h"
    by (auto simp: user_of_def hub_live_def rooms_of_def queue_ok_def fun_eq_iff)
  show "hub_inv ?ph ?h1"
    using hub_inv_parts(6,7) [OF inv] free uid r hub_inv_parts(8,9,10,11,12,13,1) [OF inv] hub_inv_parts(3) [OF inv]
      unused
    by (intro hub_invI)
       (auto simp: op v hub_inv_parts(2,4,5) [OF inv] rooms_ok_def split: if_splits)
qed

lemma Run_register_inv:
  assumes inv: "hub_inv ph h" and r: "ph r = Some Joining"
  shows "\<exists>h'. Run_register t0 t1 t2 r h = Done h' \<and> hub_inv (ph(r \<mapsto> Active)) h'"
proof -
  let ?ph = "ph(r \<mapsto> Active)"
  obtain c where c: "hb_heap h r = Some c" using open_conn_heap [OF inv] r by (auto simp: open_conn_def)
  note reg = register_inv [OF inv r c]
  have "open_conn ?ph r" by (simp add: open_conn_def)
  then have "\<exists>h'. and_then (SendMessage r m1 (h\<lparr>Clients := AList.update (cl_UserID c) r (Clients h)\<rparr>)) (BroadcastMessage m2)
      = Done h' \<and> hub_inv ?ph h'" for m1 m2
    using keepsD [OF keeps_and_then [OF keeps_SendMessage keeps_BroadcastMessage] reg(2)] by blast
  then show ?thesis using c reg(1) by (simp add: Run_register_def Let_def del: and_then_eq_Done)
qed

lemma hub_inv_metrics: "hub_inv ph h \<Longrightarrow> hub_inv ph (h\<lparr>hb_metrics := m\<rparr>)"
  by (simp add: hub_inv_def rooms_ok_def user_of_def hub_live_def rooms_of_def queue_ok_def)

lemma close_send_Done:
  "close_send r h = Done h' \<longleftrightarrow> (\<exists>c. hb_heap h r = Some c \<and> \<not> ch_closed (cl_Send c) \<and>
     h' = h\<lparr>hb_heap := (hb_heap h)(r \<mapsto> c\<lparr>cl_Send := (cl_Send c)\<lparr>ch_closed := True\<rparr>\<rparr>)\<rparr>)"
  by (cases "hb_heap h r") (auto simp: close_send_def close_chan_Done)

text \<open>A state in which an active client is gone from \<open>Clients\<close> and from every room, its queue closed, and nothing else
  has changed.\<close>

lemma hub_inv_gone:
  assumes inv: "hub_inv ph h" and r: "ph r = Some Active" and uid: "user_of h r = Some uid"
    and clients: "Clients h' = AList.delete uid (Clients h)" and rooms: "rooms_ok h'"
    and mem: "\<And>q room. q \<in> set (members (Rooms h') room) \<longleftrightarrow> q \<noteq> r \<and> q \<in> set (members (Rooms h) room)"
    and frame: "hb_next h' = hb_next h" "hb_sse h' = hb_sse h" "hb_valkey h' = hb_valkey h"
    and v: "user_of h' = user_of h" "hub_live h' = (hub_live h)(r := False)" "rooms_of h' = rooms_of h"
      "queue_ok h' = queue_ok h" "\<And>q. (hb_heap h' q = None) = (hb_heap h q = None)"
  shows "hub_inv (ph(r \<mapsto> Gone)) h'"
proof (rule hub_invI)
  let ?ph = "ph(r \<mapsto> Gone)"
  have op: "open_conn ?ph q \<longleftrightarrow> q \<noteq> r \<and> open_conn ph q" for q by (auto simp: open_conn_def)
  have alone: "q = r" if "ph q = Some Active" "user_of h q = Some uid" for q
    using that hub_inv_parts(3) [OF inv, of uid] r uid by (metis option.inject)
  show "gomap_ok (Clients h')" using hub_inv_parts(6) [OF inv] by (simp add: clients)
  show "rooms_ok h'" by (rule rooms)
  show "(hb_heap h' q = None) = (?ph q = None)" for q
    using v(5) [of q] hub_inv_parts(5) [OF inv, of q] r by auto
  show "q < hb_next h'" if "?ph q \<noteq> None" for q
    using that r hub_inv_parts(8) [OF inv, of q] by (cases "q = r") (simp_all add: frame)
  show "hub_live h' q = open_conn ?ph q" for q using hub_inv_parts(2) [OF inv, of q] unfolding op v by simp
  show "(map_of (Clients h') u = Some q) = (?ph q = Some Active \<and> user_of h' q = Some u)" for u q
    using hub_inv_parts(3) [OF inv, of u q] alone [of q] uid by (auto simp: clients v)
  show "(q \<in> set (members (Rooms h') room)) = (open_conn ?ph q \<and> room \<in> set (rooms_of h' q))" for room q
    using hub_inv_parts(4) [OF inv, of q room] unfolding mem op v by simp
  show "q = q'" if "open_conn ?ph q" "open_conn ?ph q'" "user_of h' q = user_of h' q'" for q q'
    using that hub_inv_parts(9) [OF inv] unfolding op v by blast
  show "queue_ok h' q" for q using hub_inv_parts(10) [OF inv] unfolding v .
  show "broker_ok b" if "hb_sse h' = Some b" for b using that hub_inv_parts(1) [OF inv] by (simp add: frame)
  show "user_of h' q \<noteq> Some []" for q using hub_inv_parts(11) [OF inv] unfolding v .
  show "hb_sse h' \<noteq> None" "hb_valkey h' \<noteq> None" using hub_inv_parts(12,13) [OF inv] by (simp_all add: frame)
qed

text \<open>What \<^verbatim>\<open>Unregister\<close> does under the lock.\<close>

lemma unregister_inv:
  assumes inv: "hub_inv ph h" and r: "ph r = Some Active" and c: "hb_heap h r = Some c"
  shows "\<exists>h'. close_send r (fold (\<lambda>room. LeaveRoom room r) (cl_Rooms c)
           (h\<lparr>Clients := AList.delete (cl_UserID c) (Clients h)\<rparr>)) = Done h' \<and>
         hub_inv (ph(r \<mapsto> Gone)) h' \<and> rooms_of h' = rooms_of h"
    and "map_of (Clients h) (cl_UserID c) = Some r"
proof -
  let ?uid = "cl_UserID c" and ?c' = "c\<lparr>cl_Send := (cl_Send c)\<lparr>ch_closed := True\<rparr>\<rparr>"
  let ?h1 = "fold (\<lambda>room. LeaveRoom room r) (cl_Rooms c) (h\<lparr>Clients := AList.delete ?uid (Clients h)\<rparr>)"
  let ?h2 = "?h1\<lparr>hb_heap := (hb_heap h)(r \<mapsto> ?c')\<rparr>"
  have uid: "user_of h r = Some ?uid" and rms: "rooms_of h r = cl_Rooms c"
    using c by (simp_all add: user_of_def rooms_of_def)
  show "map_of (Clients h) ?uid = Some r" using hub_inv_parts(3) [OF inv] r uid by simp
  have live: "\<not> ch_closed (cl_Send c)"
    using hub_inv_parts(2) [OF inv, of r] r c by (simp add: hub_live_def open_conn_def)
  have "rooms_ok (h\<lparr>Clients := AList.delete ?uid (Clients h)\<rparr>)"
    using hub_inv_parts(7) [OF inv] by (simp add: rooms_ok_def)
  note left = leave_all [OF this, of r "cl_Rooms c"]
  have frame: "hb_heap ?h1 = hb_heap h" "Clients ?h1 = AList.delete ?uid (Clients h)"
    "hb_next ?h1 = hb_next h" "hb_sse ?h1 = hb_sse h" "hb_valkey ?h1 = hb_valkey h"
    by (subst left(3), simp)+
  have closed: "close_send r ?h1 = Done ?h2" using c live frame(1) by (simp add: close_send_Done)
  have v: "user_of ?h2 = user_of h" "hub_live ?h2 = (hub_live h)(r := False)" "rooms_of ?h2 = rooms_of h"
    "queue_ok ?h2 = queue_ok h" "(hb_heap ?h2 q = None) = (hb_heap h q = None)" for q
    using c by (auto simp: user_of_def hub_live_def rooms_of_def queue_ok_def chan_ok_def fun_eq_iff)
  have "q \<in> set (members (Rooms ?h2) room) \<longleftrightarrow> q \<noteq> r \<and> q \<in> set (members (Rooms h) room)" for q room
    using left(2) [of room] hub_inv_parts(4) [OF inv, of q room] rms by auto
  moreover have "rooms_ok ?h2" using left(1) by (simp add: rooms_ok_def)
  ultimately have "hub_inv (ph(r \<mapsto> Gone)) ?h2" by (intro hub_inv_gone [OF inv r uid]) (simp_all add: frame v c)
  then show "\<exists>h'. close_send r ?h1 = Done h' \<and> hub_inv (ph(r \<mapsto> Gone)) h' \<and> rooms_of h' = rooms_of h"
    using closed v(3) by blast
qed

lemma left_metrics_inv:
  assumes "hub_inv ph h"
  shows "\<exists>h'. BroadcastMessage msg (if b then h\<lparr>hb_metrics := m\<rparr> else h) = Done h' \<and> hub_inv ph h' \<and>
     rooms_of h' = rooms_of h \<and> user_of h' = user_of h"
proof -
  let ?h = "if b then h\<lparr>hb_metrics := m\<rparr> else h"
  have "hub_inv ph ?h" using assms hub_inv_metrics [OF assms] by simp
  then obtain h' where h': "BroadcastMessage msg ?h = Done h'" "hub_inv ph h'"
    using keepsD [OF keeps_BroadcastMessage] by blast
  moreover have "rooms_of ?h = rooms_of h" "user_of ?h = user_of h" by (auto simp: rooms_of_def user_of_def fun_eq_iff)
  ultimately show ?thesis using same_but_queues_views(1,2) [OF BroadcastMessage_same [OF h'(1)]] by auto
qed

lemma Run_unregister_inv:
  assumes inv: "hub_inv ph h" and r: "ph r = Some Active"
  shows "\<exists>h'. Run_unregister t0 r h = Done h' \<and> hub_inv (ph(r \<mapsto> Gone)) h' \<and> rooms_of h' = rooms_of h"
proof -
  obtain c where c: "hb_heap h r = Some c" using open_conn_heap [OF inv] r by (auto simp: open_conn_def)
  obtain h2 where h2: "close_send r (fold (\<lambda>room. LeaveRoom room r) (cl_Rooms c)
      (h\<lparr>Clients := AList.delete (cl_UserID c) (Clients h)\<rparr>)) = Done h2" "hub_inv (ph(r \<mapsto> Gone)) h2"
    "rooms_of h2 = rooms_of h"
    using unregister_inv(1) [OF inv r c] by blast
  have "\<exists>h'. BroadcastMessage msg (if b then h2\<lparr>hb_metrics := m\<rparr> else h2) = Done h' \<and>
      hub_inv (ph(r \<mapsto> Gone)) h' \<and> rooms_of h' = rooms_of h" for msg b m
    using left_metrics_inv [OF h2(2), of msg b m] h2(3) by auto
  then show ?thesis
    using c unregister_inv(2) [OF inv r c] h2(1)
    by (simp add: Run_unregister_def Let_def del: and_then_eq_Done)
qed

text \<open>A client whose connection fails before the event loop has registered it is unknown to \<^verbatim>\<open>Unregister\<close>, which then changes
  nothing but the metrics.\<close>

lemma Run_unregister_early:
  assumes inv: "hub_inv ph h" and r: "ph r = Some Joining"
  shows "\<exists>h'. Run_unregister t0 r h = Done h' \<and> hub_inv ph h' \<and> rooms_of h' = rooms_of h \<and>
     user_of h' = user_of h"
proof -
  obtain c where c: "hb_heap h r = Some c" using open_conn_heap [OF inv] r by (auto simp: open_conn_def)
  show ?thesis
    using c register_inv(1) [OF inv r c] left_metrics_inv [OF inv]
    by (simp add: Run_unregister_def Let_def)
qed

end
