(* ===== verification/WsClient.thy ===== *)
theory WsClient
  imports HubInvariant
begin

text \<open>
  \<^verbatim>\<open>internal/hub/client.go\<close>: the protocol of a WebSocket connection. A handler gets the address of its
  client, the clock readings it makes (\<open>clk 0\<close>, \<open>clk 1\<close>, in the order of the calls) and the hub. One round
  of the loop of \<^verbatim>\<open>ReadPump\<close> is \<open>ReadPump_step\<close>, on the bytes that \<^verbatim>\<open>ReadMessage\<close> returned; the deferred
  function is \<open>ReadPump_exit\<close>, after which the event loop takes the \<^verbatim>\<open>Unregister\<close>. One round of \<^verbatim>\<open>WritePump\<close> that
  receives from \<^verbatim>\<open>Send\<close> is \<open>WritePump_step\<close>; \<open>w i\<close> says whether its \<open>i\<close>-th \<^verbatim>\<open>WriteMessage\<close> returned nil,
  and the frames it wrote are part of its result.
\<close>

type_synonym clock = "nat \<Rightarrow> int"

definition MaxMessageSize :: nat where "MaxMessageSize = 64 * 1024"

section \<open>The handlers\<close>

definition Unmarshal_UserInfo :: "string \<Rightarrow> UserInfo option" where
  "Unmarshal_UserInfo raw = (case json_unmarshal raw of None \<Rightarrow> None | Some j \<Rightarrow> decode_UserInfo j)"

text \<open>\<^verbatim>\<open>json.Marshal(msg.Payload)\<close> cannot fail on a value that came out of a decoder.\<close>

definition handleUserInfo :: "clock \<Rightarrow> cref \<Rightarrow> Message \<Rightarrow> Hub \<Rightarrow> Hub outcome" where
  "handleUserInfo clk r msg h = (case hb_heap h r of
       None \<Rightarrow> Panic NilDereference
     | Some c \<Rightarrow> (case Unmarshal_UserInfo (json_text (m_Payload msg)) of
           None \<Rightarrow> SendMessage r (NewErrorMessage (clk 0) ''invalid user_info format'') h
         | Some info0 \<Rightarrow>
             let info = info0\<lparr>ui_UserID := cl_UserID c\<rparr>;
                 h1 = h\<lparr>hb_heap := (hb_heap h)(r \<mapsto> c\<lparr>cl_Info := Some info\<rparr>)\<rparr>
             in and_then (SendMessage r (NewAckMessage (clk 0) (m_ID msg)) h1) (\<lambda>h2.
                BroadcastMessage (zero_Message\<lparr>m_Type := MsgTypePresence, m_UserID := cl_UserID c,
                  m_Payload := UserInfo_json info, m_Timestamp := clk 1\<rparr>) h2)))"

definition handleDirect :: "clock \<Rightarrow> cref \<Rightarrow> Message \<Rightarrow> Hub \<Rightarrow> Hub outcome" where
  "handleDirect clk r msg h = (case hb_heap h r of
       None \<Rightarrow> Panic NilDereference
     | Some c \<Rightarrow>
         if m_TargetID msg = []
         then SendMessage r (NewErrorMessage (clk 0) ''target_id is required for direct messages'') h
         else and_then (SendToUser (m_TargetID msg)
                          (msg\<lparr>m_UserID := cl_UserID c, m_Timestamp := clk 0\<rparr>) h) (\<lambda>(h1, ok).
           if \<not> ok
           then SendMessage r (NewErrorMessage (clk 1) (''user '' @ m_TargetID msg @ '' is not connected'')) h1
           else SendMessage r (NewAckMessage (clk 1) (m_ID msg)) h1))"

text \<open>The three gates of \<^verbatim>\<open>handleJoinRoom\<close>, in its order, with the text of the refusal.\<close>

definition join_refusal :: "go_env \<Rightarrow> Client \<Rightarrow> string \<Rightarrow> Hub \<Rightarrow> string option" where
  "join_refusal env c room h =
     (if room = [] then Some ''room name is required''
      else if cl_ACLManager c \<and> \<not> CanJoin (hb_acl h) room (cl_APIKey c) (cl_UserID c)
      then Some (''access denied: cannot join room '' @ room)
      else if cl_ACLManager c \<and> \<not> CheckMaxMembers (hb_acl h) room (int (RoomMemberCount room h))
      then Some (''room '' @ room @ '' is full'')
      else if cl_JWTClaims c \<noteq> None \<and> \<not> HasChannelAccess (unicode_lower env) (cl_JWTClaims c) room ''read''
      then Some (''token does not grant access to room '' @ room)
      else None)"

definition handleJoinRoom :: "go_env \<Rightarrow> clock \<Rightarrow> cref \<Rightarrow> Message \<Rightarrow> Hub \<Rightarrow> Hub outcome" where
  "handleJoinRoom env clk r msg h = (case hb_heap h r of
       None \<Rightarrow> Panic NilDereference
     | Some c \<Rightarrow> (case join_refusal env c (m_Room msg) h of
           Some err \<Rightarrow> SendMessage r (NewErrorMessage (clk 0) err) h
         | None \<Rightarrow>
             and_then (mark_room r (m_Room msg) h) (\<lambda>h1.
             and_then (SendMessage r (NewAckMessage (clk 0) (m_ID msg)) (JoinRoom (m_Room msg) r h1)) (\<lambda>h2.
             BroadcastToRoom (m_Room msg)
               (user_message MsgTypeUserJoined (clk 1) (cl_UserID c) (m_Room msg)) (cl_UserID c) h2))))"

definition handleLeaveRoom :: "clock \<Rightarrow> cref \<Rightarrow> Message \<Rightarrow> Hub \<Rightarrow> Hub outcome" where
  "handleLeaveRoom clk r msg h = (case hb_heap h r of
       None \<Rightarrow> Panic NilDereference
     | Some c \<Rightarrow>
         if m_Room msg = [] then SendMessage r (NewErrorMessage (clk 0) ''room name is required'') h
         else
           and_then (unmark_room r (m_Room msg) h) (\<lambda>h1.
           and_then (SendMessage r (NewAckMessage (clk 0) (m_ID msg)) (LeaveRoom (m_Room msg) r h1)) (\<lambda>h2.
           BroadcastToRoom (m_Room msg)
             (user_message MsgTypeUserLeft (clk 1) (cl_UserID c) (m_Room msg)) (cl_UserID c) h2)))"

definition handleRoomMessage :: "go_env \<Rightarrow> clock \<Rightarrow> cref \<Rightarrow> Message \<Rightarrow> Hub \<Rightarrow> Hub outcome" where
  "handleRoomMessage env clk r msg h = (case hb_heap h r of
       None \<Rightarrow> Panic NilDereference
     | Some c \<Rightarrow>
         if m_Room msg = [] then SendMessage r (NewErrorMessage (clk 0) ''room name is required'') h
         else if m_Room msg \<notin> set (cl_Rooms c)
         then SendMessage r (NewErrorMessage (clk 0) (''you are not a member of room: '' @ m_Room msg)) h
         else if cl_ACLManager c \<and> \<not> CanWrite (unicode_lower env) (hb_acl h) (m_Room msg) (cl_UserID c)
         then SendMessage r (NewErrorMessage (clk 0) (''write permission denied for room: '' @ m_Room msg)) h
         else
           and_then (BroadcastToRoom (m_Room msg)
                       (msg\<lparr>m_UserID := cl_UserID c, m_Timestamp := clk 0\<rparr>) [] h) (\<lambda>h1.
           SendMessage r (NewAckMessage (clk 1) (m_ID msg)) h1))"

definition handleBroadcast :: "clock \<Rightarrow> cref \<Rightarrow> Message \<Rightarrow> Hub \<Rightarrow> Hub outcome" where
  "handleBroadcast clk r msg h = (case hb_heap h r of
       None \<Rightarrow> Panic NilDereference
     | Some c \<Rightarrow> BroadcastMessage (msg\<lparr>m_UserID := cl_UserID c, m_Timestamp := clk 0\<rparr>) h)"

definition handleMessage :: "go_env \<Rightarrow> clock \<Rightarrow> cref \<Rightarrow> Message \<Rightarrow> Hub \<Rightarrow> Hub outcome" where
  "handleMessage env clk r msg h =
     (if m_Type msg = MsgTypePing
      then SendMessage r (zero_Message\<lparr>m_Type := MsgTypePong, m_Timestamp := clk 0\<rparr>) h
      else if m_Type msg = MsgTypeUserInfo then handleUserInfo clk r msg h
      else if m_Type msg = MsgTypeDirect then handleDirect clk r msg h
      else if m_Type msg = MsgTypeJoinRoom then handleJoinRoom env clk r msg h
      else if m_Type msg = MsgTypeLeaveRoom then handleLeaveRoom clk r msg h
      else if m_Type msg = MsgTypeRoomMessage then handleRoomMessage env clk r msg h
      else if m_Type msg = MsgTypeBroadcast then handleBroadcast clk r msg h
      else SendMessage r (NewErrorMessage (clk 0) (''unknown message type: '' @ m_Type msg)) h)"

section \<open>The pumps\<close>

definition ReadPump_step :: "go_env \<Rightarrow> clock \<Rightarrow> cref \<Rightarrow> string \<Rightarrow> Hub \<Rightarrow> Hub outcome" where
  "ReadPump_step env clk r rawMsg h = (case hb_heap h r of
       None \<Rightarrow> Panic NilDereference
     | Some c \<Rightarrow>
         let h1 = (if cl_Metrics c
                   then h\<lparr>hb_metrics := (hb_metrics h)\<lparr>WsMessagesIn := WsMessagesIn (hb_metrics h) + 1\<rparr>\<rparr>
                   else h)
         in (case Unmarshal_Message env rawMsg of
               None \<Rightarrow> SendMessage r (NewErrorMessage (clk 0) ''invalid message format'') h1
             | Some msg \<Rightarrow> handleMessage env clk r (msg\<lparr>m_UserID := cl_UserID c\<rparr>) h1))"

definition close_conn :: "cref \<Rightarrow> Hub \<Rightarrow> Hub" where
  "close_conn r h = h\<lparr>hb_heap := (hb_heap h)(r := map_option (\<lambda>c. c\<lparr>cl_conn_closed := True\<rparr>) (hb_heap h r))\<rparr>"

text \<open>The deferred function of \<^verbatim>\<open>ReadPump\<close>: the event loop takes the client from \<^verbatim>\<open>Unregister\<close>, then the
  connection is closed.\<close>

definition ReadPump_exit :: "int \<Rightarrow> cref \<Rightarrow> Hub \<Rightarrow> Hub outcome" where
  "ReadPump_exit t r h = and_then (Run_unregister t r h) (\<lambda>h1. Done (close_conn r h1))"

datatype frame = TextMessage string | CloseMessage | PingMessage

text \<open>The writes of one round: those that succeeded, those still queued and whether the loop goes on. A
  message whose write fails is lost.\<close>

fun write_all :: "(nat \<Rightarrow> bool) \<Rightarrow> nat \<Rightarrow> string list \<Rightarrow> string list \<times> string list \<times> bool" where
  "write_all w i [] = ([], [], True)"
| "write_all w i (m # ms) =
     (if w i then (case write_all w (Suc i) ms of (sent, rest, ok) \<Rightarrow> (m # sent, rest, ok))
      else ([], ms, False))"

definition WritePump_step :: "(nat \<Rightarrow> bool) \<Rightarrow> cref \<Rightarrow> Hub \<Rightarrow> (Hub \<times> frame list \<times> bool) option" where
  "WritePump_step w r h = (case hb_heap h r of
       None \<Rightarrow> None
     | Some c \<Rightarrow> (case recv (cl_Send c) of
           WouldBlock \<Rightarrow> None
         | NotOk \<Rightarrow> Some (close_conn r h, if w 0 then [CloseMessage] else [], False)
         | Got message q \<Rightarrow>
             (case write_all w 0 (message # ch_buf q) of (sent, rest, ok) \<Rightarrow>
                let h1 = h\<lparr>hb_heap := (hb_heap h)(r \<mapsto> c\<lparr>cl_Send := q\<lparr>ch_buf := rest\<rparr>\<rparr>)\<rparr>;
                    h2 = (if cl_Metrics c then h1\<lparr>hb_metrics := (hb_metrics h1)\<lparr>WsMessagesOut :=
                            WsMessagesOut (hb_metrics h1) + word_of_nat (length sent)\<rparr>\<rparr> else h1)
                in Some (if ok then h2 else close_conn r h2, map TextMessage sent, ok))))"

text \<open>The other round of \<^verbatim>\<open>WritePump\<close>, when the ticker fires.\<close>

definition WritePump_tick :: "(nat \<Rightarrow> bool) \<Rightarrow> cref \<Rightarrow> Hub \<Rightarrow> Hub \<times> frame list \<times> bool" where
  "WritePump_tick w r h = (if w 0 then (h, [PingMessage], True) else (close_conn r h, [], False))"

end
