(* ===== verification/WsSession.thy ===== *)
theory WsSession
  imports WsClient
begin

text \<open>
  What the handlers of a connection keep and deliver: every handler of \<open>WsClient\<close> completes on a hub that
  satisfies \<open>hub_inv\<close> and keeps it; the guarantees of the protocol (who receives a message, who may join) are
  stated at the end.
\<close>

section \<open>Every handler keeps the invariant\<close>

lemma keeps_client:
  assumes "open_conn ph r"
    and "\<And>h c. hub_inv ph h \<Longrightarrow> hb_heap h r = Some c \<Longrightarrow> \<exists>h'. F c h = Done h' \<and> hub_inv ph h'"
  shows "keeps ph (\<lambda>h. case hb_heap h r of None \<Rightarrow> Panic NilDereference | Some c \<Rightarrow> F c h)"
proof -
  have "\<exists>h'. (case hb_heap h r of None \<Rightarrow> Panic NilDereference | Some c \<Rightarrow> F c h) = Done h' \<and> hub_inv ph h'"
    if inv: "hub_inv ph h" for h
    using open_conn_heap [OF inv assms(1)] assms(2) [OF inv] by auto
  then show ?thesis by (simp add: keeps_def)
qed

lemma hub_inv_client_field:
  assumes "hub_inv ph h" and "hb_heap h r = Some c" and "cl_Send c' = cl_Send c"
    and "cl_UserID c' = cl_UserID c" and "cl_Rooms c' = cl_Rooms c"
  shows "hub_inv ph (h\<lparr>hb_heap := (hb_heap h)(r \<mapsto> c')\<rparr>)"
proof -
  let ?h = "h\<lparr>hb_heap := (hb_heap h)(r \<mapsto> c')\<rparr>"
  have "user_of ?h = user_of h" "rooms_of ?h = rooms_of h" "hub_live ?h = hub_live h" "queue_ok ?h = queue_ok h"
    "\<And>q. (hb_heap ?h q = None) = (hb_heap h q = None)"
    using assms by (auto simp: user_of_def rooms_of_def hub_live_def queue_ok_def fun_eq_iff)
  then show ?thesis using assms(1) unfolding hub_inv_def rooms_ok_def by simp blast
qed

lemma keeps_handleUserInfo: "open_conn ph r \<Longrightarrow> keeps ph (handleUserInfo clk r msg)"
  unfolding handleUserInfo_def [abs_def]
proof (rule keeps_client)
  fix h c
  assume r: "open_conn ph r" and inv: "hub_inv ph h" and c: "hb_heap h r = Some c"
  show "\<exists>h'. (case Unmarshal_UserInfo (json_text (m_Payload msg)) of
           None \<Rightarrow> SendMessage r (NewErrorMessage (clk 0) ''invalid user_info format'') h
         | Some info0 \<Rightarrow>
             let info = info0\<lparr>ui_UserID := cl_UserID c\<rparr>;
                 h1 = h\<lparr>hb_heap := (hb_heap h)(r \<mapsto> c\<lparr>cl_Info := Some info\<rparr>)\<rparr>
             in and_then (SendMessage r (NewAckMessage (clk 0) (m_ID msg)) h1) (\<lambda>h2.
                BroadcastMessage (zero_Message\<lparr>m_Type := MsgTypePresence, m_UserID := cl_UserID c,
                  m_Payload := UserInfo_json info, m_Timestamp := clk 1\<rparr>) h2)) = Done h' \<and> hub_inv ph h'"
    using keepsD [OF keeps_SendMessage [OF r] inv] hub_inv_client_field [OF inv c]
      keepsD [OF keeps_and_then [OF keeps_SendMessage [OF r] keeps_BroadcastMessage]]
    by (simp add: Let_def del: and_then_eq_Done split: option.split)
qed

lemma keeps_handleDirect: "open_conn ph r \<Longrightarrow> keeps ph (handleDirect clk r msg)"
  unfolding handleDirect_def [abs_def]
proof (rule keeps_client)
  fix h c
  assume r: "open_conn ph r" and inv: "hub_inv ph h" and c: "hb_heap h r = Some c"
  obtain h1 ok where sent: "SendToUser (m_TargetID msg) (msg\<lparr>m_UserID := cl_UserID c, m_Timestamp := clk 0\<rparr>) h = Done (h1, ok)"
    and inv1: "hub_inv ph h1"
    using SendToUser_inv [OF inv] by blast
  then show "\<exists>h'. (if m_TargetID msg = []
         then SendMessage r (NewErrorMessage (clk 0) ''target_id is required for direct messages'') h
         else and_then (SendToUser (m_TargetID msg)
                          (msg\<lparr>m_UserID := cl_UserID c, m_Timestamp := clk 0\<rparr>) h) (\<lambda>(h1, ok).
           if \<not> ok
           then SendMessage r (NewErrorMessage (clk 1) (''user '' @ m_TargetID msg @ '' is not connected'')) h1
           else SendMessage r (NewAckMessage (clk 1) (m_ID msg)) h1)) = Done h' \<and> hub_inv ph h'"
    using keepsD [OF keeps_SendMessage [OF r] inv] keepsD [OF keeps_SendMessage [OF r] inv1] by simp
qed

lemma keeps_handleJoinRoom: "open_conn ph r \<Longrightarrow> keeps ph (handleJoinRoom env clk r msg)"
  unfolding handleJoinRoom_def [abs_def]
proof (rule keeps_client)
  fix h c
  assume r: "open_conn ph r" and inv: "hub_inv ph h" and c: "hb_heap h r = Some c"
  obtain h1 where "mark_room r (m_Room msg) h = Done h1" "hub_inv ph (JoinRoom (m_Room msg) r h1)"
    using enter_inv [OF inv r] by blast
  then show "\<exists>h'. (case join_refusal env c (m_Room msg) h of
           Some err \<Rightarrow> SendMessage r (NewErrorMessage (clk 0) err) h
         | None \<Rightarrow>
             and_then (mark_room r (m_Room msg) h) (\<lambda>h1.
             and_then (SendMessage r (NewAckMessage (clk 0) (m_ID msg)) (JoinRoom (m_Room msg) r h1)) (\<lambda>h2.
             BroadcastToRoom (m_Room msg)
               (user_message MsgTypeUserJoined (clk 1) (cl_UserID c) (m_Room msg)) (cl_UserID c) h2)))
      = Done h' \<and> hub_inv ph h'"
    using keepsD [OF keeps_SendMessage [OF r] inv]
      keepsD [OF keeps_and_then [OF keeps_SendMessage [OF r] keeps_BroadcastToRoom]]
    by (simp del: and_then_eq_Done split: option.split)
qed

lemma keeps_handleLeaveRoom: "open_conn ph r \<Longrightarrow> keeps ph (handleLeaveRoom clk r msg)"
  unfolding handleLeaveRoom_def [abs_def]
proof (rule keeps_client)
  fix h c
  assume r: "open_conn ph r" and inv: "hub_inv ph h" and c: "hb_heap h r = Some c"
  obtain h1 where "unmark_room r (m_Room msg) h = Done h1" "hub_inv ph (LeaveRoom (m_Room msg) r h1)"
    using exit_inv [OF inv r] by blast
  then show "\<exists>h'. (if m_Room msg = [] then SendMessage r (NewErrorMessage (clk 0) ''room name is required'') h
         else
           and_then (unmark_room r (m_Room msg) h) (\<lambda>h1.
           and_then (SendMessage r (NewAckMessage (clk 0) (m_ID msg)) (LeaveRoom (m_Room msg) r h1)) (\<lambda>h2.
           BroadcastToRoom (m_Room msg)
             (user_message MsgTypeUserLeft (clk 1) (cl_UserID c) (m_Room msg)) (cl_UserID c) h2)))
      = Done h' \<and> hub_inv ph h'"
    using keepsD [OF keeps_SendMessage [OF r] inv]
      keepsD [OF keeps_and_then [OF keeps_SendMessage [OF r] keeps_BroadcastToRoom]]
    by (simp del: and_then_eq_Done)
qed

lemma keeps_handleRoomMessage: "open_conn ph r \<Longrightarrow> keeps ph (handleRoomMessage env clk r msg)"
  unfolding handleRoomMessage_def [abs_def]
  using keepsD [OF keeps_SendMessage] keepsD [OF keeps_and_then [OF keeps_BroadcastToRoom keeps_SendMessage]]
  by (intro keeps_client) (simp_all del: and_then_eq_Done)

lemma keeps_handleBroadcast: "open_conn ph r \<Longrightarrow> keeps ph (handleBroadcast clk r msg)"
  unfolding handleBroadcast_def [abs_def]
  using keepsD [OF keeps_BroadcastMessage] by (intro keeps_client) simp_all

lemmas keeps_handlers = keeps_handleUserInfo keeps_handleDirect keeps_handleJoinRoom
  keeps_handleLeaveRoom keeps_handleRoomMessage keeps_handleBroadcast keeps_SendMessage

lemma keeps_handleMessage: "open_conn ph r \<Longrightarrow> keeps ph (handleMessage env clk r msg)"
  using keeps_handlers [of ph r] by (simp add: keeps_def handleMessage_def)

lemma keeps_ReadPump_step: "open_conn ph r \<Longrightarrow> keeps ph (ReadPump_step env clk r raw)"
  unfolding ReadPump_step_def [abs_def]
  using keepsD [OF keeps_handleMessage] keepsD [OF keeps_SendMessage] hub_inv_metrics
  by (intro keeps_client) (simp_all add: Let_def split: option.split)

lemma hub_inv_close_conn: "hub_inv ph h \<Longrightarrow> hub_inv ph (close_conn r h)"
  using hub_inv_client_field [of ph h r _ "_\<lparr>cl_conn_closed := True\<rparr>"]
  by (cases "hb_heap h r") (simp_all add: close_conn_def fun_upd_idem)

lemma write_all_rest: "write_all w i ms = (sent, rest, ok) \<Longrightarrow> length rest \<le> length ms"
  by (induction w i ms arbitrary: sent rest ok rule: write_all.induct)
     (auto split: if_splits prod.splits intro: le_SucI)

lemma hub_inv_queue:
  assumes "hub_inv ph h" and "hb_heap h r = Some c" and "ch_closed q = ch_closed (cl_Send c)" and "chan_ok q"
    and "ch_cap q = 256"
  shows "hub_inv ph (h\<lparr>hb_heap := (hb_heap h)(r \<mapsto> c\<lparr>cl_Send := q\<rparr>)\<rparr>)"
proof -
  let ?h = "h\<lparr>hb_heap := (hb_heap h)(r \<mapsto> c\<lparr>cl_Send := q\<rparr>)\<rparr>"
  have "user_of ?h = user_of h" "rooms_of ?h = rooms_of h" "hub_live ?h = hub_live h"
    "\<And>p. queue_ok h p \<Longrightarrow> queue_ok ?h p" "\<And>p. (hb_heap ?h p = None) = (hb_heap h p = None)"
    using assms by (auto simp: user_of_def rooms_of_def hub_live_def queue_ok_def fun_eq_iff)
  then show ?thesis using assms(1) unfolding hub_inv_def rooms_ok_def by simp blast
qed

lemma WritePump_inv:
  assumes inv: "hub_inv ph h" and step: "WritePump_step w r h = Some (h', frames, ok)"
  shows "hub_inv ph h'"
proof -
  obtain c where c: "hb_heap h r = Some c" using step by (auto simp: WritePump_step_def split: option.splits)
  show ?thesis
  proof (cases "recv (cl_Send c)")
    case (Got m q)
    obtain sent rest go where w: "write_all w 0 (m # ch_buf q) = (sent, rest, go)" by (cases "write_all w 0 (m # ch_buf q)")
    have "chan_ok (cl_Send c)" and cap: "ch_cap (cl_Send c) = 256"
      using hub_inv_parts(10) [OF inv, of r] c by (simp_all add: queue_ok_def)
    moreover have q: "ch_closed q = ch_closed (cl_Send c)" "ch_cap q = ch_cap (cl_Send c)"
      "ch_buf (cl_Send c) = m # ch_buf q"
      using Got by (auto simp: recv_def split: list.splits if_splits)
    ultimately have "chan_ok (q\<lparr>ch_buf := rest\<rparr>)"
      using write_all_rest [OF w] by (simp add: chan_ok_def)
    from hub_inv_queue [OF inv c _ this] q(1,2) cap step c Got w show ?thesis
      by (auto simp: WritePump_step_def Let_def simp del: write_all.simps
          intro!: hub_inv_metrics hub_inv_close_conn split: if_splits)
  qed (use step c inv in \<open>auto simp: WritePump_step_def intro: hub_inv_close_conn\<close>)
qed

section \<open>Deliveries\<close>

text \<open>\<open>push n q d\<close> is a queue of capacity \<open>n\<close> after an offer of \<open>d\<close>; \<open>send_cap h r\<close> is the capacity of the
  \<^verbatim>\<open>Send\<close> channel of \<open>r\<close>.\<close>

definition push :: "nat \<Rightarrow> string list \<Rightarrow> string \<Rightarrow> string list" where
  "push n q d = (if length q < n then q @ [d] else q)"

definition send_cap :: "Hub \<Rightarrow> cref \<Rightarrow> nat" where
  "send_cap h r = (case hb_heap h r of None \<Rightarrow> 0 | Some c \<Rightarrow> ch_cap (cl_Send c))"

definition wire :: "Message \<Rightarrow> string" where
  "wire msg = json_text (Message_json msg)"

lemma Marshal_wire: "Marshal msg = Some (wire msg)"
  by (simp add: Marshal_def wire_def)

lemma hub_space_cap: "hub_space h r \<longleftrightarrow> length (hub_inbox h r) < send_cap h r"
  by (simp add: hub_space_def hub_inbox_def send_cap_def ch_space_def split: option.split)

lemma same_send_cap: "same_but_queues h h' \<Longrightarrow> send_cap h' = send_cap h"
proof
  fix r
  assume "same_but_queues h h'"
  then have "map_option core (hb_heap h' r) = map_option core (hb_heap h r)"
    by (simp add: same_but_queues_def)
  then show "send_cap h' r = send_cap h r"
    by (cases "hb_heap h' r"; cases "hb_heap h r") (simp_all add: send_cap_def core_def)
qed

lemma SendMessage_effect:
  assumes "SendMessage r msg h = Done h'"
  shows "hub_inbox h' q = (if q = r then push (send_cap h r) (hub_inbox h r) (wire msg) else hub_inbox h q)"
    and "same_but_queues h h'" and "hb_sse h' = hb_sse h" and "hb_valkey h' = hb_valkey h"
proof -
  from assms have offer: "hub_offer (wire msg) r h = Done h'" by (simp add: SendMessage_def Marshal_wire)
  show "hub_inbox h' q = (if q = r then push (send_cap h r) (hub_inbox h r) (wire msg) else hub_inbox h q)"
    using ws.offer_inbox [OF offer, of q] by (auto simp: hub_space_cap push_def)
  show "same_but_queues h h'" "hb_sse h' = hb_sse h" "hb_valkey h' = hb_valkey h"
    using hub_offer_same [OF offer] by simp_all
qed

lemma each_offer_effect:
  assumes "each (hub_offer d) rs h = Done h'" and "distinct rs"
  shows "hub_inbox h' q = (if q \<in> set rs then push (send_cap h q) (hub_inbox h q) d else hub_inbox h q)"
  using ws.each_offer_inbox [OF assms, of q] by (auto simp: hub_space_cap push_def)

lemma distinct_clients:
  assumes inv: "hub_inv ph h"
  shows "distinct (map snd (Clients h))"
    and "r \<in> set (map snd (Clients h)) \<longleftrightarrow> ph r = Some Active"
proof -
  have ok: "gomap_ok (Clients h)" by (rule hub_inv_parts(6) [OF inv])
  have "u = v" if "(u, r) \<in> set (Clients h)" "(v, r) \<in> set (Clients h)" for u v r
    using that hub_inv_parts(3) [OF inv] by (simp add: gomap_get_iff [OF ok, symmetric])
  then have "inj_on snd (set (Clients h))" by (fastforce simp: inj_on_def)
  moreover have "distinct (Clients h)" using ok by (auto simp: gomap_ok_def distinct_map)
  ultimately show "distinct (map snd (Clients h))" by (simp add: distinct_map)
  have "\<exists>u. user_of h r = Some u" if "ph r = Some Active"
    using open_conn_heap [OF inv, of r] that by (auto simp: open_conn_def user_of_def)
  then show "r \<in> set (map snd (Clients h)) \<longleftrightarrow> ph r = Some Active"
    unfolding gomap_values [OF ok] hub_inv_parts(3) [OF inv] by auto
qed

lemma BroadcastMessage_effect:
  assumes inv: "hub_inv ph h" and run: "BroadcastMessage msg h = Done h'"
  shows "hub_inbox h' q = (if ph q = Some Active then push (send_cap h q) (hub_inbox h q) (wire msg) else hub_inbox h q)"
    and "same_but_queues h h'"
proof -
  show "same_but_queues h h'" by (rule BroadcastMessage_same [OF run])
  obtain h1 h2 where h1: "each (hub_offer (wire msg)) (map snd (Clients h)) h = Done h1"
    and h2: "sse_publish (PublishAll msg) h1 = Done h2" and h': "h' = valkey_publish (PublishBroadcast msg) h2"
    using run by (auto simp: BroadcastMessage_def Marshal_wire)
  show "hub_inbox h' q = (if ph q = Some Active then push (send_cap h q) (hub_inbox h q) (wire msg) else hub_inbox h q)"
    using each_offer_effect [OF h1 distinct_clients(1) [OF inv], of q] distinct_clients(2) [OF inv, of q]
    by (simp add: h' valkey_publish_frame sse_publish_frame(1) [OF h2])
qed

lemma room_offer_filter:
  "\<forall>r \<in> set ms. hb_heap h r \<noteq> None \<Longrightarrow>
   each (room_offer ex d) ms h = each (hub_offer d) (filter (\<lambda>r. user_of h r \<noteq> Some ex) ms) h"
proof (induction ms arbitrary: h)
  case (Cons r ms)
  then obtain c where c: "hb_heap h r = Some c" by auto
  show ?case
  proof (cases "cl_UserID c = ex")
    case True
    then show ?thesis using Cons c by (simp add: room_offer_def user_of_def)
  next
    case False
    show ?thesis
    proof (cases "hub_offer d r h")
      case (Done h1)
      have same: "same_but_queues h h1" using hub_offer_same [OF Done] by simp
      have "\<forall>r \<in> set ms. hb_heap h1 r \<noteq> None"
        using Cons.prems same_but_queues_views(4) [OF same] by auto
      from Cons.IH [OF this] show ?thesis
        using c False Done same_but_queues_views(1) [OF same] by (simp add: room_offer_def user_of_def)
    qed (use c False in \<open>simp add: room_offer_def user_of_def\<close>)
  qed
qed simp

lemma BroadcastToRoom_effect:
  assumes inv: "hub_inv ph h" and run: "BroadcastToRoom room msg ex h = Done h'"
  shows "hub_inbox h' q = (if q \<in> set (members (Rooms h) room) \<and> user_of h q \<noteq> Some ex
      then push (send_cap h q) (hub_inbox h q) (wire msg) else hub_inbox h q)"
    and "same_but_queues h h'"
proof (atomize (full), cases "map_of (Rooms h) room")
  case None
  then show "hub_inbox h' q = (if q \<in> set (members (Rooms h) room) \<and> user_of h q \<noteq> Some ex
      then push (send_cap h q) (hub_inbox h q) (wire msg) else hub_inbox h q) \<and> same_but_queues h h'"
    using run by (simp add: BroadcastToRoom_def members_def)
next
  case (Some ms)
  then have ms: "members (Rooms h) room = ms" by (simp add: members_def)
  have "\<forall>r \<in> set ms. hb_heap h r \<noteq> None"
    using hub_inv_parts(4) [OF inv, of _ room] open_conn_heap [OF inv] unfolding ms by blast
  note loop = room_offer_filter [OF this]
  obtain h1 h2 where h1: "each (hub_offer (wire msg)) (filter (\<lambda>r. user_of h r \<noteq> Some ex) ms) h = Done h1"
    and h2: "sse_publish (Publish room msg) h1 = Done h2" and h': "h' = valkey_publish (PublishRoom room msg) h2"
    using run Some by (auto simp: BroadcastToRoom_def Marshal_wire loop)
  have "distinct ms" using rooms_ok_distinct [OF hub_inv_parts(7) [OF inv], of room] unfolding ms .
  then show "hub_inbox h' q = (if q \<in> set (members (Rooms h) room) \<and> user_of h q \<noteq> Some ex
      then push (send_cap h q) (hub_inbox h q) (wire msg) else hub_inbox h q) \<and> same_but_queues h h'"
    using each_offer_effect [OF h1, of q] sse_publish_frame(1) [OF h2]
      same_but_queues_trans [OF same_but_queues_trans [OF conjunct1 [OF each_offer_same [OF h1]]
        sse_publish_frame(2) [OF h2]] valkey_publish_frame(2)]
    by (simp add: h' ms valkey_publish_frame(1))
qed

lemma handleJoinRoom_members:
  assumes "hub_inv ph h" and "open_conn ph r" and "hb_heap h r = Some c"
    and run: "handleJoinRoom env clk r msg h = Done h'"
  shows "members (Rooms h') = (if join_refusal env c (m_Room msg) h = None
      then (members (Rooms h))(m_Room msg := List.insert r (members (Rooms h) (m_Room msg)))
      else members (Rooms h))"
proof (cases "join_refusal env c (m_Room msg) h")
  case (Some err)
  then have "SendMessage r (NewErrorMessage (clk 0) err) h = Done h'"
    using run assms(3) by (simp add: handleJoinRoom_def)
  from SendMessage_effect(2) [OF this] Some show ?thesis by (simp add: same_but_queues_def)
next
  case None
  obtain h1 where h1: "mark_room r (m_Room msg) h = Done h1" and inv1: "hub_inv ph (JoinRoom (m_Room msg) r h1)"
    using enter_inv [OF assms(1,2)] by blast
  have rooms: "Rooms h1 = Rooms h" using h1 assms(3) by (auto simp: mark_room_def)
  from run None assms(3) h1 obtain h2
    where h2: "SendMessage r (NewAckMessage (clk 0) (m_ID msg)) (JoinRoom (m_Room msg) r h1) = Done h2"
      and h': "BroadcastToRoom (m_Room msg) (user_message MsgTypeUserJoined (clk 1) (cl_UserID c) (m_Room msg))
        (cl_UserID c) h2 = Done h'"
    by (auto simp: handleJoinRoom_def)
  have "hub_inv ph h2" using keepsD [OF keeps_SendMessage [OF assms(2)] inv1] h2 by (metis outcome.inject(1))
  from BroadcastToRoom_effect(2) [OF this h'] SendMessage_effect(2) [OF h2]
  have "Rooms h' = Rooms (JoinRoom (m_Room msg) r h1)" by (simp add: same_but_queues_def)
  then show ?thesis using None members_Join [of "m_Room msg" r h1] rooms by simp
qed

section \<open>What the protocol guarantees\<close>

text \<open>C5. A member's \<^verbatim>\<open>room_message\<close> that the access rules allow is delivered: the handler completes, every
  member of the room (the sender too) has the message with the sender's own user ID and the server's time
  appended to its queue unless that is full, the sender then gets the acknowledgement, and no other queue
  changes.\<close>

theorem room_message_delivered:
  assumes "hub_inv ph h" and "open_conn ph r" and "hb_heap h r = Some c"
    and "m_Room msg \<noteq> []" and "m_Room msg \<in> set (cl_Rooms c)"
    and "cl_ACLManager c \<longrightarrow> CanWrite (unicode_lower env) (hb_acl h) (m_Room msg) (cl_UserID c)"
  shows "\<exists>h'. handleRoomMessage env clk r msg h = Done h' \<and> hub_inv ph h' \<and>
    (\<forall>q. hub_inbox h' q =
       (let got = (if open_conn ph q \<and> m_Room msg \<in> set (rooms_of h q)
                   then push (send_cap h q) (hub_inbox h q)
                     (wire (msg\<lparr>m_UserID := cl_UserID c, m_Timestamp := clk 0\<rparr>))
                   else hub_inbox h q)
        in if q = r then push (send_cap h q) got (wire (NewAckMessage (clk 1) (m_ID msg))) else got))"
proof -
  let ?m = "msg\<lparr>m_UserID := cl_UserID c, m_Timestamp := clk 0\<rparr>"
  obtain h1 where h1: "BroadcastToRoom (m_Room msg) ?m [] h = Done h1" and inv1: "hub_inv ph h1"
    using keepsD [OF keeps_BroadcastToRoom assms(1)] by blast
  obtain h' where h': "SendMessage r (NewAckMessage (clk 1) (m_ID msg)) h1 = Done h'" and inv': "hub_inv ph h'"
    using keepsD [OF keeps_SendMessage [OF assms(2)] inv1] by blast
  have "handleRoomMessage env clk r msg h = Done h'"
    using assms(3-6) h1 h' by (auto simp: handleRoomMessage_def)
  moreover have "hub_inbox h' q =
       (let got = (if open_conn ph q \<and> m_Room msg \<in> set (rooms_of h q)
                   then push (send_cap h q) (hub_inbox h q) (wire ?m) else hub_inbox h q)
        in if q = r then push (send_cap h q) got (wire (NewAckMessage (clk 1) (m_ID msg))) else got)" for q
    using BroadcastToRoom_effect(1) [OF assms(1) h1, of q] SendMessage_effect(1) [OF h', of q]
      same_send_cap [OF BroadcastToRoom_effect(2) [OF assms(1) h1]] hub_inv_parts(4) [OF assms(1), of q "m_Room msg"]
      hub_inv_parts(11) [OF assms(1), of q]
    by (auto simp: Let_def)
  ultimately show ?thesis using inv' by blast
qed

text \<open>A broadcast of a client reaches every registered client once, under the sender's own user ID, and
  nobody else.\<close>

lemma broadcast_delivered:
  assumes "hub_inv ph h" and "open_conn ph r" and "hb_heap h r = Some c"
  shows "\<exists>h'. handleBroadcast clk r msg h = Done h' \<and> hub_inv ph h' \<and>
    (\<forall>q. hub_inbox h' q = (if q \<in> set (map snd (Clients h))
       then push (send_cap h q) (hub_inbox h q) (wire (msg\<lparr>m_UserID := cl_UserID c, m_Timestamp := clk 0\<rparr>))
       else hub_inbox h q))"
proof -
  obtain h' where h': "handleBroadcast clk r msg h = Done h'" "hub_inv ph h'"
    using keepsD [OF keeps_handleBroadcast [OF assms(2)] assms(1)] by blast
  then show ?thesis using assms(3) BroadcastMessage_effect(1) [OF assms(1)] distinct_clients(2) [OF assms(1)]
    by (auto simp: handleBroadcast_def)
qed

text \<open>C24. A direct message to a registered user is appended to that user's queue alone unless that queue is full, and the sender is
  acknowledged in both cases, unless its own queue is full.\<close>

theorem direct_message_delivered:
  assumes "hub_inv ph h" and "open_conn ph r" and "hb_heap h r = Some c"
    and "m_TargetID msg \<noteq> []" and "map_of (Clients h) (m_TargetID msg) = Some t"
  shows "\<exists>h'. handleDirect clk r msg h = Done h' \<and> hub_inv ph h' \<and>
    (\<forall>q. hub_inbox h' q =
       (let got = (if q = t then push (send_cap h q) (hub_inbox h q)
                     (wire (msg\<lparr>m_UserID := cl_UserID c, m_Timestamp := clk 0\<rparr>))
                   else hub_inbox h q)
        in if q = r then push (send_cap h q) got (wire (NewAckMessage (clk 1) (m_ID msg))) else got))"
proof -
  let ?m = "msg\<lparr>m_UserID := cl_UserID c, m_Timestamp := clk 0\<rparr>"
  have "open_conn ph t" using hub_inv_parts(3) [OF assms(1)] assms(5) by (simp add: open_conn_def)
  then obtain h1 where h1: "SendMessage t ?m h = Done h1" and inv1: "hub_inv ph h1"
    using keepsD [OF keeps_SendMessage assms(1)] by blast
  obtain h' where h': "SendMessage r (NewAckMessage (clk 1) (m_ID msg)) h1 = Done h'" and inv': "hub_inv ph h'"
    using keepsD [OF keeps_SendMessage [OF assms(2)] inv1] by blast
  have "handleDirect clk r msg h = Done h'"
    using assms(3-5) h1 h' by (simp add: handleDirect_def SendToUser_def)
  then show ?thesis using inv' SendMessage_effect(1) [OF h1] SendMessage_effect(1) [OF h']
      same_send_cap [OF SendMessage_effect(2) [OF h1]]
    by (simp add: Let_def)
qed

text \<open>C25. With a bridge attached that is not enabled (standalone mode), a direct message to a user who
  is not registered goes nowhere and is acknowledged to its sender as delivered.\<close>

theorem direct_to_absent_user_acked:
  assumes "hub_inv ph h" and "open_conn ph r" and "hb_heap h r = Some c"
    and "m_TargetID msg \<noteq> []" and "map_of (Clients h) (m_TargetID msg) = None"
    and "hb_valkey h = Some vb" and "\<not> vb_enabled vb"
  shows "\<exists>h'. handleDirect clk r msg h = Done h' \<and> hb_valkey h' = hb_valkey h \<and> hb_sse h' = hb_sse h \<and>
    (\<forall>q. hub_inbox h' q = (if q = r
       then push (send_cap h q) (hub_inbox h q) (wire (NewAckMessage (clk 1) (m_ID msg))) else hub_inbox h q))"
proof -
  let ?m = "msg\<lparr>m_UserID := cl_UserID c, m_Timestamp := clk 0\<rparr>"
  have same: "valkey_publish (PublishDirect (m_TargetID msg) ?m) h = h"
    using assms(6,7) by (simp add: valkey_publish_def PublishDirect_def)
  obtain h' where h': "SendMessage r (NewAckMessage (clk 1) (m_ID msg)) h = Done h'"
    using keepsD [OF keeps_SendMessage [OF assms(2)] assms(1)] by blast
  have "handleDirect clk r msg h = Done h'"
    using assms(3-6) h' same by (simp add: handleDirect_def SendToUser_def)
  then show ?thesis using SendMessage_effect [OF h'] by simp
qed

text \<open>C13. Nobody can speak for somebody else: what a message does is independent of the \<^verbatim>\<open>user_id\<close> its sender
  put into it.\<close>

theorem sender_identity:
  "handleMessage env clk r (msg\<lparr>m_UserID := forged\<rparr>) h = handleMessage env clk r msg h"
  by (simp add: handleMessage_def handleUserInfo_def handleDirect_def handleJoinRoom_def
      handleLeaveRoom_def handleRoomMessage_def handleBroadcast_def
      cong: option.case_cong if_cong del: and_then_eq_Done)


text \<open>Joins respect the limit of a room: a room within its \<^verbatim>\<open>max_members\<close> is still within it after any
  \<^verbatim>\<open>join_room\<close> of a client that has the access manager.\<close>

lemma join_respects_limit:
  assumes "hub_inv ph h" and "open_conn ph r" and "hb_heap h r = Some c" and "cl_ACLManager c"
    and "GetChannelACL (hb_acl h) room = Some acl" and "0 < acl_MaxMembers acl"
    and "int (RoomMemberCount room h) \<le> acl_MaxMembers acl"
    and "handleJoinRoom env clk r msg h = Done h'"
  shows "int (RoomMemberCount room h') \<le> acl_MaxMembers acl"
proof -
  have count: "RoomMemberCount room k = length (members (Rooms k) room)" for k
    by (simp add: RoomMemberCount_def members_def split: option.split)
  have "int (RoomMemberCount room h) < acl_MaxMembers acl" if "join_refusal env c room h = None"
    using that assms(4-6) by (auto simp: join_refusal_def CheckMaxMembers_def GetChannelACL_def split: if_splits)
  then show ?thesis
    using assms(7) handleJoinRoom_members [OF assms(1-3,8)]
    by (auto simp: count List.insert_def split: if_splits)
qed

lemma write_all_split:
  "write_all w i ms = (sent, rest, ok) \<Longrightarrow>
   if ok then sent = ms \<and> rest = [] else \<exists>lost. ms = sent @ lost # rest \<and> \<not> w (i + length sent)"
proof (induction w i ms arbitrary: sent rest ok rule: write_all.induct)
  case (2 w i m ms)
  obtain sent' rest' ok' where e: "write_all w (Suc i) ms = (sent', rest', ok')" by (cases "write_all w (Suc i) ms")
  show ?case
  proof (cases "w i")
    case True
    then show ?thesis using "2.IH" [OF True e] "2.prems" e by (auto split: if_splits)
  next
    case False
    then show ?thesis using "2.prems" by auto
  qed
qed simp

text \<open>C26. The write pump delivers in order: a round writes the queue from its front, one text frame per message. If
  every write succeeds the whole queue goes out and the loop continues; at the first failing write that one message is
  lost, the rest stays queued, and the connection is closed.\<close>

theorem WritePump_in_order:
  assumes "hb_heap h r = Some c" and "ch_buf (cl_Send c) \<noteq> []"
  shows "\<exists>h' sent lost ok. WritePump_step w r h = Some (h', map TextMessage sent, ok) \<and>
    ch_buf (cl_Send c) = sent @ lost @ hub_inbox h' r \<and>
    (if ok then lost = [] \<and> hub_inbox h' r = []
     else length lost = 1 \<and> \<not> w (length sent) \<and> map_option cl_conn_closed (hb_heap h' r) = Some True)"
proof -
  obtain m ms where ms: "ch_buf (cl_Send c) = m # ms" using assms(2) by (cases "ch_buf (cl_Send c)") auto
  define q where "q = (cl_Send c)\<lparr>ch_buf := ms\<rparr>"
  have got: "recv (cl_Send c) = Got m q" and buf: "ch_buf (cl_Send c) = m # ch_buf q"
    using ms by (simp_all add: recv_def q_def)
  obtain sent rest ok where w: "write_all w 0 (m # ch_buf q) = (sent, rest, ok)"
    by (cases "write_all w 0 (m # ch_buf q)")
  obtain h' where step: "WritePump_step w r h = Some (h', map TextMessage sent, ok)"
    and rest: "hub_inbox h' r = rest" and closed: "\<not> ok \<Longrightarrow> map_option cl_conn_closed (hb_heap h' r) = Some True"
    using assms(1) got w
    by (simp add: WritePump_step_def Let_def close_conn_def hub_inbox_def del: write_all.simps)
  show ?thesis
  proof (cases ok)
    case True
    then show ?thesis using step rest write_all_split [OF w] buf
      by (intro exI [of _ h'] exI [of _ sent] exI [of _ "[]"] exI [of _ ok]) auto
  next
    case False
    then obtain lost where "m # ch_buf q = sent @ lost # rest" "\<not> w (length sent)" using write_all_split [OF w] by auto
    then show ?thesis using False step rest closed buf
      by (intro exI [of _ h'] exI [of _ sent] exI [of _ "[lost]"] exI [of _ ok]) simp
  qed
qed

end
