(* ===== verification/Http.thy ===== *)
theory Http
  imports GoUrl
begin

text \<open>
  What the handlers use of \<^verbatim>\<open>net/http\<close>. A request answers \<^verbatim>\<open>r.Header.Get\<close> and \<^verbatim>\<open>r.URL.Query().Get\<close> with the
  empty string for a name it does not carry; \<open>rq_EscapedPath\<close> is \<^verbatim>\<open>r.URL.EscapedPath()\<close>. A response collects the status, the headers and the
  body. \<open>http_Error\<close> is \<^verbatim>\<open>http.Error\<close>: it replaces the content type and appends a newline.
\<close>

record http_request =
  rq_Method :: string
  rq_EscapedPath :: string
  rq_Query :: "string \<Rightarrow> string"
  rq_Header :: "string \<Rightarrow> string"
  rq_RemoteAddr :: string
  rq_Body :: string

text \<open>\<^verbatim>\<open>url.PathUnescape\<close>, with the text itself where it is malformed. \<^verbatim>\<open>r.URL.Path\<close> is the unescaped path.\<close>

definition pathUnescape :: "string \<Rightarrow> string" where
  "pathUnescape s = (case unescape EncPath s of None \<Rightarrow> s | Some t \<Rightarrow> t)"

definition rq_Path :: "http_request \<Rightarrow> string" where
  "rq_Path r = pathUnescape (rq_EscapedPath r)"

record http_response =
  rs_Status :: nat
  rs_Headers :: "(string, string) gomap"
  rs_Body :: string

definition http_Error :: "string \<Rightarrow> nat \<Rightarrow> http_response" where
  "http_Error msg code = \<lparr>rs_Status = code,
     rs_Headers = [(''Content-Type'', ''text/plain; charset=utf-8''),
                   (''X-Content-Type-Options'', ''nosniff'')],
     rs_Body = msg @ [CHR 0x0A]\<rparr>"

text \<open>The body \<^verbatim>\<open>{"error":"..."}\<close> the handlers pass to \<^verbatim>\<open>http.Error\<close>; the text is not escaped.\<close>

definition error_body :: "string \<Rightarrow> string" where
  "error_body err = ''{'' @ [CHR 0x22] @ ''error'' @ [CHR 0x22] @ '':'' @ [CHR 0x22] @ err @ [CHR 0x22] @ ''}''"

definition http_fail :: "string \<Rightarrow> nat \<Rightarrow> http_response" where
  "http_fail err code = http_Error (error_body err) code"

text \<open>Where the handlers look for the API key and the origin: \<^verbatim>\<open>/ws\<close> and \<^verbatim>\<open>/subscribe\<close> look into the query first,
  the other endpoints into the header.\<close>

definition request_key :: "http_request \<Rightarrow> string" where
  "request_key r = (if rq_Query r ''api_key'' = [] then rq_Header r ''X-API-Key'' else rq_Query r ''api_key'')"

definition request_origin :: "http_request \<Rightarrow> string" where
  "request_origin r = (if rq_Header r ''Origin'' = [] then rq_Header r ''Referer'' else rq_Header r ''Origin'')"

definition header_key :: "http_request \<Rightarrow> string" where
  "header_key r = (if rq_Header r ''X-API-Key'' = [] then rq_Query r ''api_key'' else rq_Header r ''X-API-Key'')"

definition StatusOK :: nat where "StatusOK = 200"
definition StatusBadRequest :: nat where "StatusBadRequest = 400"
definition StatusUnauthorized :: nat where "StatusUnauthorized = 401"
definition StatusForbidden :: nat where "StatusForbidden = 403"
definition StatusNotFound :: nat where "StatusNotFound = 404"
definition StatusMethodNotAllowed :: nat where "StatusMethodNotAllowed = 405"
definition StatusTooManyRequests :: nat where "StatusTooManyRequests = 429"
definition StatusInternalServerError :: nat where "StatusInternalServerError = 500"
definition StatusServiceUnavailable :: nat where "StatusServiceUnavailable = 503"

lemmas status_defs =
  StatusOK_def StatusBadRequest_def StatusUnauthorized_def StatusForbidden_def StatusNotFound_def
  StatusMethodNotAllowed_def StatusTooManyRequests_def StatusInternalServerError_def
  StatusServiceUnavailable_def

lemma http_fail_status [simp]: "rs_Status (http_fail err code) = code"
  by (simp add: http_fail_def http_Error_def)

text \<open>\<^verbatim>\<open>json.NewEncoder(w).Encode(v)\<close> after the content type was set: the text of the value and a newline.\<close>

definition json_reply :: "string \<Rightarrow> http_response" where
  "json_reply text = \<lparr>rs_Status = 200, rs_Headers = [(''Content-Type'', ''application/json'')], rs_Body = text @ [CHR 0x0A]\<rparr>"

end
