(* ===== verification/WsTransport.thy ===== *)
theory WsTransport
  imports WsSession Http
begin

text \<open>
  \<^verbatim>\<open>internal/transport/websocket.go\<close>: the handler of the \<^verbatim>\<open>/ws\<close> endpoint. It either answers the request or,
  when the upgrade succeeds (\<open>upgrade_ok\<close>, the result of the WebSocket library), leaves a client whose pumps are
  started and whose registration is pending. The access manager and the metrics it is given are the ones of the
  hub's record.
\<close>

definition request_token :: "http_request \<Rightarrow> string" where
  "request_token r = (if rq_Query r ''token'' = [] then rq_Header r ''Authorization'' else rq_Query r ''token'')"

datatype ws_result = Refused http_response | UpgradeFailed | Upgraded cref

text \<open>The claims and the client ID that lines 45 to 72 settle on, or the refusal.\<close>

definition ws_identity ::
  "go_env \<Rightarrow> jwt_lib \<Rightarrow> JWTAuth option \<Rightarrow> int \<Rightarrow> http_request \<Rightarrow> http_response + (JWTClaims option \<times> string)" where
  "ws_identity env lib jwtAuth nano r =
     (let channel = rq_Query r ''channel''; token = request_token r;
          settle = (\<lambda>clientID. if clientID = [] then ''anon-'' @ itoa nano else clientID)
      in if jwtAuth \<noteq> None \<and> token \<noteq> [] then
           (case ValidateToken lib jwtAuth token of
              Inl err \<Rightarrow> Inl (http_fail (''invalid token: '' @ err) StatusUnauthorized)
            | Inr claims \<Rightarrow>
                if channel \<noteq> [] \<and> \<not> HasChannelAccess (unicode_lower env) (Some claims) channel ''read''
                then Inl (http_fail ''channel access denied by token'' StatusForbidden)
                else Inr (Some claims, settle (jc_UserID claims)))
         else Inr (None, settle (rq_Query r ''client_id'')))"

text \<open>Lines 87 to 98: the client object, its fields and the automatic join.\<close>

definition ws_admit :: "JWTClaims option \<Rightarrow> string \<Rightarrow> string \<Rightarrow> string \<Rightarrow> Hub \<Rightarrow> (Hub \<times> cref) outcome" where
  "ws_admit jwtClaims clientID apiKey channel h =
     (case NewClient clientID apiKey h of (h1, r) \<Rightarrow>
        let h2 = h1\<lparr>hb_heap := (hb_heap h1)(r := map_option (\<lambda>c. c\<lparr>cl_JWTClaims := jwtClaims,
                     cl_ACLManager := True, cl_Metrics := True\<rparr>) (hb_heap h1 r))\<rparr>;
            h3 = h2\<lparr>hb_metrics := (hb_metrics h2)\<lparr>WsConnections := WsConnections (hb_metrics h2) + 1\<rparr>\<rparr>
        in if channel \<noteq> []
           then and_then (mark_room r channel h3) (\<lambda>h4. Done (JoinRoom channel r h4, r))
           else Done (h3, r))"

definition ServeWS ::
  "go_env \<Rightarrow> jwt_lib \<Rightarrow> APIKeyStore \<Rightarrow> JWTAuth option \<Rightarrow> bool \<Rightarrow> int \<Rightarrow> http_request \<Rightarrow> Hub
   \<Rightarrow> (Hub \<times> ws_result) outcome" where
  "ServeWS env lib apiKeys jwtAuth upgrade_ok nano r h =
     (let apiKey = request_key r; channel = rq_Query r ''channel'' in
      if apiKey = [] then Done (h, Refused (http_fail ''api_key required'' StatusUnauthorized))
      else and_then (Validate (unicode_lower env) apiKeys apiKey (request_origin r)) (\<lambda>v. case v of
          Inl err \<Rightarrow> Done (h, Refused (http_fail err StatusForbidden))
        | Inr _ \<Rightarrow> (case ws_identity env lib jwtAuth nano r of
              Inl resp \<Rightarrow> Done (h, Refused resp)
            | Inr (jwtClaims, clientID) \<Rightarrow>
                if channel \<noteq> [] \<and> \<not> CanJoin (hb_acl h) channel apiKey clientID
                then Done (h, Refused (http_fail ''channel access denied by ACL'' StatusForbidden))
                else if \<not> upgrade_ok then Done (h, UpgradeFailed)
                else and_then (ws_admit jwtClaims clientID apiKey channel h) (\<lambda>(h', r').
                  Done (h', Upgraded r')))))"

section \<open>Facts\<close>

lemma ws_identity_named: "ws_identity env lib auth nano r = Inr (claims, uid) \<Longrightarrow> uid \<noteq> []"
  by (auto simp: ws_identity_def Let_def split: if_splits sum.splits)

lemma ws_admit_inv:
  assumes inv: "hub_inv ph h" and fresh: "\<forall>q. open_conn ph q \<longrightarrow> user_of h q \<noteq> Some uid" and uid: "uid \<noteq> []"
  shows "\<exists>h' r. ws_admit claims uid key channel h = Done (h', r) \<and> r = hb_next h \<and>
     hub_inv (ph(r \<mapsto> Joining)) h' \<and>
     (\<exists>c. hb_heap h' r = Some c \<and> cl_UserID c = uid \<and> cl_APIKey c = key \<and> cl_JWTClaims c = claims \<and>
        cl_ACLManager c \<and> cl_Rooms c = (if channel = [] then [] else [channel])) \<and>
     hb_acl h' = hb_acl h"
proof -
  obtain h1 r where new: "NewClient uid key h = (h1, r)" by fastforce
  let ?ph = "ph(r \<mapsto> Joining)"
  have r: "r = hb_next h" using new by (auto simp: NewClient_def Let_def)
  have inv1: "hub_inv ?ph h1" using NewClient_inv [OF inv fresh uid new] .
  obtain c where c: "hb_heap h1 r = Some c" "cl_UserID c = uid" "cl_APIKey c = key" "cl_Rooms c = []"
    "hb_acl h1 = hb_acl h"
    using new by (auto simp: NewClient_def Let_def)
  let ?c = "c\<lparr>cl_JWTClaims := claims, cl_ACLManager := True, cl_Metrics := True\<rparr>"
  define h3 where "h3 = h1\<lparr>hb_heap := (hb_heap h1)(r \<mapsto> ?c),
    hb_metrics := (hb_metrics h1)\<lparr>WsConnections := WsConnections (hb_metrics h1) + 1\<rparr>\<rparr>"
  have inv3: "hub_inv ?ph h3"
    using hub_inv_metrics [OF hub_inv_client_field [OF inv1 c(1), of ?c]] by (simp add: h3_def)
  have h3: "hb_heap h3 r = Some ?c" "hb_acl h3 = hb_acl h" using c by (simp_all add: h3_def)
  have eq: "ws_admit claims uid key channel h =
      (if channel \<noteq> [] then and_then (mark_room r channel h3) (\<lambda>h4. Done (JoinRoom channel r h4, r))
       else Done (h3, r))"
    using c(1) by (simp add: ws_admit_def new Let_def h3_def)
  show ?thesis
  proof (cases "channel = []")
    case True
    then show ?thesis using eq inv3 h3 c r by simp
  next
    case False
    obtain h4 where h4: "mark_room r channel h3 = Done h4" "hub_inv ?ph (JoinRoom channel r h4)"
      using enter_inv [OF inv3, of r channel] by (auto simp: open_conn_def)
    then have "hb_heap h4 r = Some (?c\<lparr>cl_Rooms := [channel]\<rparr>)" "hb_acl h4 = hb_acl h"
      using h3 c(4) by (auto simp: mark_room_def)
    then show ?thesis using False eq h4 c r by (simp add: JoinRoom_def)
  qed
qed

lemma ServeWS_Upgraded:
  assumes "ServeWS env lib apiKeys jwtAuth upgrade_ok nano r h = Done (h', Upgraded ref)"
  obtains k claims uid
  where "Validate (unicode_lower env) apiKeys (request_key r) (request_origin r) = Done (Inr k)"
    and "ws_identity env lib jwtAuth nano r = Inr (claims, uid)"
    and "rq_Query r ''channel'' \<noteq> [] \<longrightarrow> CanJoin (hb_acl h) (rq_Query r ''channel'') (request_key r) uid"
    and "ws_admit claims uid (request_key r) (rq_Query r ''channel'') h = Done (h', ref)"
proof -
  from assms obtain v where v: "Validate (unicode_lower env) apiKeys (request_key r) (request_origin r) = Done v"
    by (auto simp: ServeWS_def Let_def split: if_splits)
  from assms v obtain k where k: "v = Inr k" by (cases v) (auto simp: ServeWS_def Let_def split: if_splits)
  from assms v k obtain claims uid where i: "ws_identity env lib jwtAuth nano r = Inr (claims, uid)"
    by (cases "ws_identity env lib jwtAuth nano r") (auto simp: ServeWS_def Let_def split: if_splits)
  from assms v k i that show thesis by (auto simp: ServeWS_def Let_def split: if_splits)
qed

section \<open>What the endpoint guarantees\<close>

text \<open>C11. The gates of \<^verbatim>\<open>/ws\<close>: a request is upgraded only with an API key that \<^verbatim>\<open>Validate\<close> accepts for its origin
  and, when tokens are configured and one is presented, with a token that \<^verbatim>\<open>ValidateToken\<close> accepts, which then
  fixes the user ID and has to grant the requested channel; the access rules must admit this user to the channel. The
  new client carries that identity and is in the requested channel and no other.\<close>

theorem ServeWS_gates:
  assumes "hub_inv ph h" and "ServeWS env lib apiKeys jwtAuth True nano r h = Done (h', Upgraded ref)"
    and "\<forall>claims uid q. ws_identity env lib jwtAuth nano r = Inr (claims, uid) \<and> open_conn ph q \<longrightarrow>
           user_of h q \<noteq> Some uid"
  shows "\<exists>k claims uid c. Validate (unicode_lower env) apiKeys (request_key r) (request_origin r) = Done (Inr k) \<and>
    ws_identity env lib jwtAuth nano r = Inr (claims, uid) \<and>
    (rq_Query r ''channel'' \<noteq> [] \<longrightarrow> CanJoin (hb_acl h) (rq_Query r ''channel'') (request_key r) uid) \<and>
    (jwtAuth \<noteq> None \<and> request_token r \<noteq> [] \<longrightarrow>
       (\<exists>cl. claims = Some cl \<and> ValidateToken lib jwtAuth (request_token r) = Inr cl \<and>
          (jc_UserID cl \<noteq> [] \<longrightarrow> uid = jc_UserID cl) \<and>
          (rq_Query r ''channel'' \<noteq> [] \<longrightarrow>
             HasChannelAccess (unicode_lower env) claims (rq_Query r ''channel'') ''read''))) \<and>
    hub_inv (ph(ref \<mapsto> Joining)) h' \<and> hb_heap h' ref = Some c \<and> cl_UserID c = uid \<and>
    cl_APIKey c = request_key r \<and> cl_JWTClaims c = claims \<and>
    cl_Rooms c = (if rq_Query r ''channel'' = [] then [] else [rq_Query r ''channel''])"
proof -
  let ?ch = "rq_Query r ''channel''"
  obtain k claims uid where v: "Validate (unicode_lower env) apiKeys (request_key r) (request_origin r) = Done (Inr k)"
    and ident: "ws_identity env lib jwtAuth nano r = Inr (claims, uid)"
    and can: "?ch \<noteq> [] \<longrightarrow> CanJoin (hb_acl h) ?ch (request_key r) uid"
    and adm: "ws_admit claims uid (request_key r) ?ch h = Done (h', ref)"
    using assms(2) by (rule ServeWS_Upgraded)
  have "\<forall>q. open_conn ph q \<longrightarrow> user_of h q \<noteq> Some uid" using assms(3) ident by blast
  from ws_admit_inv [OF assms(1) this ws_identity_named [OF ident], of claims "request_key r" ?ch] adm
  obtain c where "hub_inv (ph(ref \<mapsto> Joining)) h'" "hb_heap h' ref = Some c" "cl_UserID c = uid"
    "cl_APIKey c = request_key r" "cl_JWTClaims c = claims" "cl_Rooms c = (if ?ch = [] then [] else [?ch])"
    by auto
  moreover have "jwtAuth \<noteq> None \<and> request_token r \<noteq> [] \<longrightarrow>
       (\<exists>cl. claims = Some cl \<and> ValidateToken lib jwtAuth (request_token r) = Inr cl \<and>
          (jc_UserID cl \<noteq> [] \<longrightarrow> uid = jc_UserID cl) \<and>
          (?ch \<noteq> [] \<longrightarrow> HasChannelAccess (unicode_lower env) claims ?ch ''read''))"
    using ident by (auto simp: ws_identity_def Let_def split: if_splits sum.splits)
  ultimately show ?thesis using v ident can by blast
qed

end
