(* ===== verification/ValkeyIncoming.thy ===== *)
theory ValkeyIncoming
  imports WsSession
begin

text \<open>
  \<^verbatim>\<open>internal/valkey/valkey.go\<close>, the receiving half of the bridge: \<^verbatim>\<open>handleIncomingMessage\<close>, which the
  subscriptions call for every message of another node, and what the two halves achieve together.
\<close>

definition handleIncomingMessage :: "go_env \<Rightarrow> Bridge \<Rightarrow> string \<Rightarrow> string \<Rightarrow> Hub \<Rightarrow> Hub outcome" where
  "handleIncomingMessage env vb channel data h = (case Unmarshal_wrapped env data of
       None \<Rightarrow> Done h
     | Some wrapped \<Rightarrow>
         if wm_NodeID wrapped = vb_nodeID vb then Done h
         else
           let msg = wm_Message wrapped; msgBytes = json_text (Message_json msg) in
           if channel = ChannelBroadcast then each (hub_offer msgBytes) (map snd (Clients h)) h
           else if HasPrefix channel ChannelRoom then
             (case map_of (Rooms h) (drop (length ChannelRoom) channel) of
                None \<Rightarrow> Done h
              | Some ms \<Rightarrow> each (hub_offer msgBytes) ms h)
           else if HasPrefix channel ChannelDirect then
             (case map_of (Clients h) (drop (length ChannelDirect) channel) of
                None \<Rightarrow> Done h
              | Some client \<Rightarrow> SendMessage client msg h)
           else Done h)"

text \<open>\<open>incoming\<close> is what a message published on a channel does to a node: the handler runs once for every subscription
  of the node that covers the channel. \<open>glob\<close> is the pattern matching of the Valkey service.\<close>

definition covers :: "(string \<Rightarrow> string \<Rightarrow> bool) \<Rightarrow> subscription \<Rightarrow> string \<Rightarrow> bool" where
  "covers glob s channel = (case s of SubChannel c \<Rightarrow> c = channel | SubPattern p \<Rightarrow> glob p channel)"

definition incoming :: "(string \<Rightarrow> string \<Rightarrow> bool) \<Rightarrow> go_env \<Rightarrow> Bridge \<Rightarrow> string \<Rightarrow> string \<Rightarrow> Hub \<Rightarrow> Hub outcome" where
  "incoming glob env vb channel data h = (if vb_closed vb then Done h
     else each (\<lambda>_. handleIncomingMessage env vb channel data)
            (filter (\<lambda>s. covers glob s channel) (Subscribe_bridge vb)) h)"

text \<open>A documented law of the service: a pattern of plain characters and a final star matches the channels that
  start with these characters.\<close>

definition glob_star :: "(string \<Rightarrow> string \<Rightarrow> bool) \<Rightarrow> bool" where
  "glob_star glob \<longleftrightarrow> (\<forall>p channel. set p \<inter> set (CHR 0x5C # ''*?[]'') = {} \<longrightarrow> glob (p @ ''*'') channel = prefix p channel)"

section \<open>Facts\<close>

text \<open>Every channel the bridge publishes on is covered by exactly one of its subscriptions.\<close>

lemma incoming_once:
  assumes "glob_star glob" and "vb_enabled vb" and "vb_client vb" and "\<not> vb_closed vb"
    and "channel = ChannelBroadcast \<or> channel = ChannelRoom @ x \<or> channel = ChannelDirect @ x"
  shows "incoming glob env vb channel data h = handleIncomingMessage env vb channel data h"
proof -
  have star: "glob (ChannelRoom @ ''*'') c = prefix ChannelRoom c" "glob (ChannelDirect @ ''*'') c = prefix ChannelDirect c" for c
  proof -
    have "set ChannelRoom \<inter> set (CHR 0x5C # ''*?[]'') = {}" "set ChannelDirect \<inter> set (CHR 0x5C # ''*?[]'') = {}"
      by (simp_all add: Channel_defs)
    then show "glob (ChannelRoom @ ''*'') c = prefix ChannelRoom c" "glob (ChannelDirect @ ''*'') c = prefix ChannelDirect c"
      using assms(1) unfolding glob_star_def by blast+
  qed
  have "filter (\<lambda>s. covers glob s channel) (Subscribe_bridge vb) =
      [if channel = ChannelBroadcast then SubChannel ChannelBroadcast
       else if prefix ChannelRoom channel then SubPattern (ChannelRoom @ ''*'') else SubPattern (ChannelDirect @ ''*'')]"
    using assms(2,3,5) by (auto simp: Subscribe_bridge_def covers_def star) (auto simp: Channel_defs)
  then show ?thesis using assms(4)
    by (cases "handleIncomingMessage env vb channel data h") (simp_all add: incoming_def)
qed

lemma keeps_members:
  assumes "hub_inv ph h" and "\<forall>r \<in> set rs. open_conn ph r"
  shows "\<exists>h'. each (hub_offer d) rs h = Done h' \<and> hub_inv ph h'"
proof -
  have "keeps ph (each (hub_offer d) rs)" using assms(2) by (intro keeps_each keeps_hub_offer) blast
  from keepsD [OF this assms(1)] show ?thesis .
qed

lemma keeps_handleIncomingMessage: "keeps ph (handleIncomingMessage env vb channel data)"
proof -
  have "\<exists>h'. handleIncomingMessage env vb channel data h = Done h' \<and> hub_inv ph h'" if inv: "hub_inv ph h" for h
  proof -
    have clients: "\<forall>r \<in> set (map snd (Clients h)). open_conn ph r"
      using distinct_clients(2) [OF inv] by (auto simp: open_conn_def)
    have ms: "\<forall>r \<in> set ms. open_conn ph r" if "map_of (Rooms h) room = Some ms" for room ms
      using that hub_inv_parts(4) [OF inv, of _ room] by (simp add: members_def)
    have one: "open_conn ph r" if "map_of (Clients h) u = Some r" for u r
      using that hub_inv_parts(3) [OF inv] by (simp add: open_conn_def)
    show ?thesis
      using inv keeps_members [OF inv clients] keeps_members [OF inv ms] keepsD [OF keeps_SendMessage [OF one] inv]
      by (simp add: handleIncomingMessage_def Let_def split: option.split)
  qed
  then show ?thesis by (simp add: keeps_def)
qed

section \<open>What the bridge guarantees\<close>

text \<open>C19. A room message crosses the nodes: what \<^verbatim>\<open>BroadcastToRoom\<close> publishes on one node is delivered by
  the subscriptions of another, once and unchanged, to exactly the members the room has there (a member whose queue is full
  loses it, as always).
  The message has a payload that the decoder produces, and its strings are UTF-8.\<close>

theorem room_message_crosses_nodes:
  assumes "hub_inv phA hA" and "BroadcastToRoom room msg ex hA = Done hA'"
    and "map_of (Rooms hA) room \<noteq> None"
    and "hb_valkey hA = Some vbA" and "vb_enabled vbA" and "vb_client vbA" and "\<not> vb_closed vbA"
    and "glob_star glob" and "vb_enabled vbB" and "vb_client vbB" and "\<not> vb_closed vbB"
    and "hub_inv phB hB" and "vb_nodeID vbB \<noteq> vb_nodeID vbA"
    and "message_ok msg" and "utf8 (vb_nodeID vbA)"
    and "- (2 ^ 63) \<le> m_Timestamp msg" and "m_Timestamp msg < 2 ^ 63"
    and "to_iface (float_lit env) (m_Payload msg) = Some (m_Payload msg)"
  shows "\<exists>data vbA' hB'. hb_valkey hA' = Some vbA' \<and>
    vb_outbox vbA' = vb_outbox vbA @ [(ChannelRoom @ room, data)] \<and>
    incoming glob env vbB (ChannelRoom @ room) data hB = Done hB' \<and> hub_inv phB hB' \<and>
    (\<forall>q. hub_inbox hB' q = (if q \<in> set (members (Rooms hB) room)
       then push (send_cap hB q) (hub_inbox hB q) (wire msg) else hub_inbox hB q))"
proof -
  let ?w = "\<lparr>wm_NodeID = vb_nodeID vbA, wm_Message = msg\<rparr>" and ?ch = "ChannelRoom @ room"
  let ?data = "json_text (wrapped_json \<lparr>wm_NodeID = vb_nodeID vbA, wm_Message = msg\<rparr>)"
  obtain ms h1 h2 where h1: "each (room_offer ex (wire msg)) ms hA = Done h1" "map_of (Rooms hA) room = Some ms"
    and h2: "sse_publish (Publish room msg) h1 = Done h2" and hA': "hA' = valkey_publish (PublishRoom room msg) h2"
    using assms(2,3) by (auto simp: BroadcastToRoom_def Marshal_wire)
  have "\<forall>r \<in> set ms. hb_heap hA r \<noteq> None"
    using hub_inv_parts(4) [OF assms(1), of _ room] open_conn_heap [OF assms(1)] h1(2)
    by (force simp: members_def)
  from each_offer_same h1(1) [unfolded room_offer_filter [OF this]] sse_publish_frame(3) [OF h2]
  have "hb_valkey h2 = Some vbA" using assms(4) by metis
  then have out: "hb_valkey hA' = Some (publish ?ch msg vbA)"
    using assms(5,6) by (simp add: hA' valkey_publish_def PublishRoom_def)
  have decoded: "Unmarshal_wrapped env ?data = Some ?w"
    using wrapped_survives [of ?w env] assms(14-18) by simp
  obtain hB' where run: "handleIncomingMessage env vbB ?ch ?data hB = Done hB'" and inv: "hub_inv phB hB'"
    using keepsD [OF keeps_handleIncomingMessage assms(12)] by blast
  have prefix: "HasPrefix ?ch ChannelRoom" "drop (length ChannelRoom) ?ch = room"
    by (simp_all add: HasPrefix_def)
  have "?ch \<noteq> ChannelBroadcast" by (simp add: Channel_defs)
  with run decoded prefix assms(13) have "each (hub_offer (wire msg)) (members (Rooms hB) room) hB = Done hB'"
    by (auto simp: handleIncomingMessage_def Let_def wire_def members_def split: option.splits)
  from each_offer_effect [OF this rooms_ok_distinct [OF hub_inv_parts(7) [OF assms(12)]]]
  have "\<forall>q. hub_inbox hB' q = (if q \<in> set (members (Rooms hB) room)
       then push (send_cap hB q) (hub_inbox hB q) (wire msg) else hub_inbox hB q)" by blast
  then show ?thesis
    using out run inv incoming_once [OF assms(8-11), of ?ch room env ?data hB] assms(7) by (auto simp: publish_def)
qed

text \<open>A node ignores its own messages: whatever it published itself changes nothing when the
  subscription hands it back.\<close>

lemma own_messages_ignored:
  assumes "message_ok (wm_Message w)" and "utf8 (wm_NodeID w)"
    and "- (2 ^ 63) \<le> m_Timestamp (wm_Message w)" and "m_Timestamp (wm_Message w) < 2 ^ 63"
    and "to_iface (float_lit env) (m_Payload (wm_Message w)) = Some (m_Payload (wm_Message w))"
    and "wm_NodeID w = vb_nodeID vb"
  shows "handleIncomingMessage env vb channel (json_text (wrapped_json w)) h = Done h"
  using assms(6) wrapped_survives [OF assms(3-5,1,2)] by (simp add: handleIncomingMessage_def)

end
