(* ===== verification/HubThreads.thy ===== *)
theory HubThreads
  imports WsTransport ValkeyIncoming
begin

text \<open>
  The goroutines of the hub, cut where the code holds no lock. A \<open>prog\<close> is what a goroutine still has to do: an
  action on the hub that no other goroutine can interrupt and that decides how to go on, or the one send
  that the code makes through a pointer it looked up under a lock it has released (\<open>Deliver\<close>, in
  \<^verbatim>\<open>SendToUser\<close>). The programs below follow \<^verbatim>\<open>hub.go\<close> and \<^verbatim>\<open>client.go\<close> statement by statement;
  \<open>run_prog\<close> lets one run undisturbed, and is then the handler of \<open>WsClient\<close>. \<open>safe\<close> says that a program
  completes and keeps \<open>hub_inv\<close> however other goroutines change the hub between its actions.

  The fields of a client other than its queue and its connection belong to its reading goroutine, so a program is
  given the client as it was when the message arrived; \<^verbatim>\<open>c.Rooms[room] = true\<close> and the \<^verbatim>\<open>JoinRoom\<close> that
  follows are one action for the same reason, \<^verbatim>\<open>delete(c.Rooms, room)\<close> and \<^verbatim>\<open>LeaveRoom\<close> too. \<^verbatim>\<open>BroadcastToRoom\<close> releases the lock
  between the lookup of the room and the loop over its members, two actions here. The code keeps the map of members it found, the
  model looks the room up again: it makes a difference to a room that is emptied and opened again in between, whose new members miss the
  message in the code.
\<close>

datatype prog = Halt | Act "Hub \<Rightarrow> (Hub \<times> prog) outcome" | is_Deliver: Deliver cref Message prog

fun step_prog :: "prog \<Rightarrow> Hub \<Rightarrow> (Hub \<times> prog) outcome" where
  "step_prog Halt h = Done (h, Halt)"
| "step_prog (Act f) h = f h"
| "step_prog (Deliver q msg p) h = and_then (SendMessage q msg h) (\<lambda>h'. Done (h', p))"

primrec run_prog :: "prog \<Rightarrow> Hub \<Rightarrow> Hub outcome" where
  "run_prog Halt = Done"
| "run_prog (Act f) = (\<lambda>h. and_then (map_outcome (map_prod id run_prog) (f h)) (\<lambda>(h', go). go h'))"
| "run_prog (Deliver q msg p) = (\<lambda>h. and_then (SendMessage q msg h) (run_prog p))"

definition act :: "(Hub \<Rightarrow> Hub outcome) \<Rightarrow> prog \<Rightarrow> prog" where
  "act f k = Act (\<lambda>h. and_then (f h) (\<lambda>h'. Done (h', k)))"

text \<open>Reading something under a lock of its own, to decide how to go on.\<close>

definition look :: "(Hub \<Rightarrow> prog) \<Rightarrow> prog" where
  "look k = Act (\<lambda>h. Done (h, k h))"

definition say :: "cref \<Rightarrow> Message \<Rightarrow> prog" where
  "say r msg = act (SendMessage r msg) Halt"

section \<open>The programs of the hub\<close>

definition relay_prog :: "(SSEBroker \<Rightarrow> (SSEBroker \<times> nat) outcome) \<Rightarrow> (Bridge \<Rightarrow> Bridge) \<Rightarrow> prog \<Rightarrow> prog" where
  "relay_prog sse valkey k = act (sse_publish sse) (act (\<lambda>h. Done (valkey_publish valkey h)) k)"

definition SendToUser_prog :: "string \<Rightarrow> Message \<Rightarrow> (bool \<Rightarrow> prog) \<Rightarrow> prog" where
  "SendToUser_prog userID msg k = Act (\<lambda>h. case map_of (Clients h) userID of
       None \<Rightarrow> if hb_valkey h \<noteq> None then Done (valkey_publish (PublishDirect userID msg) h, k True)
               else Done (h, k False)
     | Some client \<Rightarrow> Done (h, Deliver client msg (k True)))"

definition BroadcastToRoom_prog :: "string \<Rightarrow> Message \<Rightarrow> string \<Rightarrow> prog \<Rightarrow> prog" where
  "BroadcastToRoom_prog room msg excludeUserID k = look (\<lambda>h. case map_of (Rooms h) room of
       None \<Rightarrow> k
     | Some _ \<Rightarrow> (case Marshal msg of
           None \<Rightarrow> k
         | Some data \<Rightarrow> act (\<lambda>h. each (room_offer excludeUserID data) (members (Rooms h) room) h)
             (relay_prog (Publish room msg) (PublishRoom room msg) k)))"

definition BroadcastMessage_prog :: "Message \<Rightarrow> prog \<Rightarrow> prog" where
  "BroadcastMessage_prog msg k = (case Marshal msg of
       None \<Rightarrow> k
     | Some data \<Rightarrow> act (\<lambda>h. each (hub_offer data) (map snd (Clients h)) h)
         (relay_prog (PublishAll msg) (PublishBroadcast msg) k))"

text \<open>The two cases of the event loop that take a client: what they do under the lock, and what follows.\<close>

definition register_locked :: "int \<Rightarrow> cref \<Rightarrow> Hub \<Rightarrow> Hub outcome" where
  "register_locked t0 client h = (case hb_heap h client of
       None \<Rightarrow> Panic NilDereference
     | Some c \<Rightarrow> and_then
         (case map_of (Clients h) (cl_UserID c) of None \<Rightarrow> Done h | Some existing \<Rightarrow> kick t0 existing h) (\<lambda>h1.
         Done (h1\<lparr>Clients := AList.update (cl_UserID c) client (Clients h1)\<rparr>)))"

definition register_prog :: "int \<Rightarrow> int \<Rightarrow> cref \<Rightarrow> string \<Rightarrow> prog" where
  "register_prog t1 t2 client uid = act (SendMessage client (connected_message t1 uid))
     (BroadcastMessage_prog (user_message MsgTypeUserJoined t2 uid []) Halt)"

definition unregister_locked :: "cref \<Rightarrow> Hub \<Rightarrow> Hub outcome" where
  "unregister_locked client h = (case hb_heap h client of
       None \<Rightarrow> Panic NilDereference
     | Some c \<Rightarrow> if map_of (Clients h) (cl_UserID c) \<noteq> None then
         close_send client (fold (\<lambda>room. LeaveRoom room client) (cl_Rooms c)
           (h\<lparr>Clients := AList.delete (cl_UserID c) (Clients h)\<rparr>))
       else Done h)"

definition unregister_prog :: "int \<Rightarrow> Client \<Rightarrow> prog" where
  "unregister_prog t0 c = act (\<lambda>h. Done (if cl_Metrics c
       then h\<lparr>hb_metrics := (hb_metrics h)\<lparr>WsConnections := WsConnections (hb_metrics h) - 1\<rparr>\<rparr> else h))
     (BroadcastMessage_prog (user_message MsgTypeUserLeft t0 (cl_UserID c) []) Halt)"

section \<open>The programs of a reading goroutine\<close>

definition set_info :: "cref \<Rightarrow> UserInfo \<Rightarrow> Hub \<Rightarrow> Hub outcome" where
  "set_info r info h = (case hb_heap h r of
       None \<Rightarrow> Panic NilDereference
     | Some c \<Rightarrow> Done (h\<lparr>hb_heap := (hb_heap h)(r \<mapsto> c\<lparr>cl_Info := Some info\<rparr>)\<rparr>))"

definition handleUserInfo_prog :: "clock \<Rightarrow> cref \<Rightarrow> Client \<Rightarrow> Message \<Rightarrow> prog" where
  "handleUserInfo_prog clk r c msg = (case Unmarshal_UserInfo (json_text (m_Payload msg)) of
       None \<Rightarrow> say r (NewErrorMessage (clk 0) ''invalid user_info format'')
     | Some info0 \<Rightarrow>
         let info = info0\<lparr>ui_UserID := cl_UserID c\<rparr> in
         act (set_info r info)
           (act (SendMessage r (NewAckMessage (clk 0) (m_ID msg)))
             (BroadcastMessage_prog (zero_Message\<lparr>m_Type := MsgTypePresence, m_UserID := cl_UserID c,
                m_Payload := UserInfo_json info, m_Timestamp := clk 1\<rparr>) Halt)))"

definition handleDirect_prog :: "clock \<Rightarrow> cref \<Rightarrow> Client \<Rightarrow> Message \<Rightarrow> prog" where
  "handleDirect_prog clk r c msg =
     (if m_TargetID msg = [] then say r (NewErrorMessage (clk 0) ''target_id is required for direct messages'')
      else SendToUser_prog (m_TargetID msg) (msg\<lparr>m_UserID := cl_UserID c, m_Timestamp := clk 0\<rparr>) (\<lambda>ok.
        if \<not> ok then say r (NewErrorMessage (clk 1) (''user '' @ m_TargetID msg @ '' is not connected''))
        else say r (NewAckMessage (clk 1) (m_ID msg))))"

text \<open>Joining reads the rules for \<^verbatim>\<open>CanJoin\<close>, the room for \<^verbatim>\<open>RoomMemberCount\<close> and the rules again for \<^verbatim>\<open>CheckMaxMembers\<close>, each
  under its own lock, before it joins under the hub's; \<open>enter_prog\<close> is what comes after the checks of the rules.\<close>

definition enter_prog :: "go_env \<Rightarrow> clock \<Rightarrow> cref \<Rightarrow> Client \<Rightarrow> Message \<Rightarrow> prog" where
  "enter_prog env clk r c msg =
     (if cl_JWTClaims c \<noteq> None \<and> \<not> HasChannelAccess (unicode_lower env) (cl_JWTClaims c) (m_Room msg) ''read''
      then say r (NewErrorMessage (clk 0) (''token does not grant access to room '' @ m_Room msg))
      else act (\<lambda>h. and_then (mark_room r (m_Room msg) h) (\<lambda>h1. Done (JoinRoom (m_Room msg) r h1)))
        (act (SendMessage r (NewAckMessage (clk 0) (m_ID msg)))
          (BroadcastToRoom_prog (m_Room msg)
            (user_message MsgTypeUserJoined (clk 1) (cl_UserID c) (m_Room msg)) (cl_UserID c) Halt)))"

definition handleJoinRoom_prog :: "go_env \<Rightarrow> clock \<Rightarrow> cref \<Rightarrow> Client \<Rightarrow> Message \<Rightarrow> prog" where
  "handleJoinRoom_prog env clk r c msg =
     (let room = m_Room msg; refuse = (\<lambda>err. say r (NewErrorMessage (clk 0) err)) in
      if room = [] then refuse ''room name is required''
      else if cl_ACLManager c
      then look (\<lambda>h. if \<not> CanJoin (hb_acl h) room (cl_APIKey c) (cl_UserID c)
             then refuse (''access denied: cannot join room '' @ room)
             else look (\<lambda>h. let currentCount = int (RoomMemberCount room h) in
               look (\<lambda>h. if \<not> CheckMaxMembers (hb_acl h) room currentCount
                 then refuse (''room '' @ room @ '' is full'')
                 else enter_prog env clk r c msg)))
      else enter_prog env clk r c msg)"

definition handleLeaveRoom_prog :: "clock \<Rightarrow> cref \<Rightarrow> Client \<Rightarrow> Message \<Rightarrow> prog" where
  "handleLeaveRoom_prog clk r c msg =
     (if m_Room msg = [] then say r (NewErrorMessage (clk 0) ''room name is required'')
      else act (\<lambda>h. and_then (unmark_room r (m_Room msg) h) (\<lambda>h1. Done (LeaveRoom (m_Room msg) r h1)))
        (act (SendMessage r (NewAckMessage (clk 0) (m_ID msg)))
          (BroadcastToRoom_prog (m_Room msg)
            (user_message MsgTypeUserLeft (clk 1) (cl_UserID c) (m_Room msg)) (cl_UserID c) Halt)))"

definition handleRoomMessage_prog :: "go_env \<Rightarrow> clock \<Rightarrow> cref \<Rightarrow> Client \<Rightarrow> Message \<Rightarrow> prog" where
  "handleRoomMessage_prog env clk r c msg =
     (if m_Room msg = [] then say r (NewErrorMessage (clk 0) ''room name is required'')
      else if m_Room msg \<notin> set (cl_Rooms c)
      then say r (NewErrorMessage (clk 0) (''you are not a member of room: '' @ m_Room msg))
      else look (\<lambda>h.
        if cl_ACLManager c \<and> \<not> CanWrite (unicode_lower env) (hb_acl h) (m_Room msg) (cl_UserID c)
        then say r (NewErrorMessage (clk 0) (''write permission denied for room: '' @ m_Room msg))
        else BroadcastToRoom_prog (m_Room msg) (msg\<lparr>m_UserID := cl_UserID c, m_Timestamp := clk 0\<rparr>) []
          (say r (NewAckMessage (clk 1) (m_ID msg)))))"

definition handleMessage_prog :: "go_env \<Rightarrow> clock \<Rightarrow> cref \<Rightarrow> Client \<Rightarrow> Message \<Rightarrow> prog" where
  "handleMessage_prog env clk r c msg =
     (if m_Type msg = MsgTypePing then say r (zero_Message\<lparr>m_Type := MsgTypePong, m_Timestamp := clk 0\<rparr>)
      else if m_Type msg = MsgTypeUserInfo then handleUserInfo_prog clk r c msg
      else if m_Type msg = MsgTypeDirect then handleDirect_prog clk r c msg
      else if m_Type msg = MsgTypeJoinRoom then handleJoinRoom_prog env clk r c msg
      else if m_Type msg = MsgTypeLeaveRoom then handleLeaveRoom_prog clk r c msg
      else if m_Type msg = MsgTypeRoomMessage then handleRoomMessage_prog env clk r c msg
      else if m_Type msg = MsgTypeBroadcast
      then BroadcastMessage_prog (msg\<lparr>m_UserID := cl_UserID c, m_Timestamp := clk 0\<rparr>) Halt
      else say r (NewErrorMessage (clk 0) (''unknown message type: '' @ m_Type msg)))"

text \<open>One round of \<^verbatim>\<open>ReadPump\<close>, from the bytes that were read.\<close>

definition ReadPump_prog :: "go_env \<Rightarrow> clock \<Rightarrow> cref \<Rightarrow> string \<Rightarrow> prog" where
  "ReadPump_prog env clk r rawMsg = Act (\<lambda>h. case hb_heap h r of
       None \<Rightarrow> Panic NilDereference
     | Some c \<Rightarrow> Done
         (if cl_Metrics c then h\<lparr>hb_metrics := (hb_metrics h)\<lparr>WsMessagesIn := WsMessagesIn (hb_metrics h) + 1\<rparr>\<rparr> else h,
          case Unmarshal_Message env rawMsg of
            None \<Rightarrow> say r (NewErrorMessage (clk 0) ''invalid message format'')
          | Some msg \<Rightarrow> handleMessage_prog env clk r c (msg\<lparr>m_UserID := cl_UserID c\<rparr>)))"

section \<open>Undisturbed, the programs are the handlers\<close>

text \<open>The equations are between functions, so that they rewrite a program wherever it runs on.\<close>

named_theorems runs

lemma run_Act: "run_prog (Act f) = (\<lambda>h. and_then (f h) (\<lambda>(h', k). run_prog k h'))"
proof
  show "run_prog (Act f) h = and_then (f h) (\<lambda>(h', k). run_prog k h')" for h
    by (cases "f h") (auto split: prod.split)
qed

lemma run_act [runs]: "run_prog (act f k) = (\<lambda>h. and_then (f h) (run_prog k))"
  by (simp add: act_def run_Act outcome_simps del: run_prog.simps(2))

lemma run_look [runs]: "run_prog (look k) = (\<lambda>h. run_prog (k h) h)"
  by (simp add: look_def run_Act outcome_simps del: run_prog.simps(2))

lemma run_say [runs]: "run_prog (say r msg) = SendMessage r msg"
  by (simp add: say_def run_act outcome_simps)

lemma run_relay [runs]: "run_prog (relay_prog sse valkey k) =
    (\<lambda>h. and_then (sse_publish sse h) (\<lambda>h'. run_prog k (valkey_publish valkey h')))"
  by (simp add: relay_prog_def runs)

lemma run_BroadcastToRoom [runs]:
  "run_prog (BroadcastToRoom_prog room msg ex k) = (\<lambda>h. and_then (BroadcastToRoom room msg ex h) (run_prog k))"
  by (simp add: fun_eq_iff BroadcastToRoom_prog_def BroadcastToRoom_def members_def runs outcome_simps split: option.split)

lemma run_BroadcastMessage [runs]:
  "run_prog (BroadcastMessage_prog msg k) = (\<lambda>h. and_then (BroadcastMessage msg h) (run_prog k))"
  by (cases "Marshal msg") (simp_all add: fun_eq_iff BroadcastMessage_prog_def BroadcastMessage_def runs outcome_simps)

lemma run_SendToUser [runs]:
  "run_prog (SendToUser_prog uid msg k) =
     (\<lambda>h. and_then (SendToUser uid msg h) (\<lambda>(h', ok). run_prog (k ok) h'))"
proof
  show "run_prog (SendToUser_prog uid msg k) h = and_then (SendToUser uid msg h) (\<lambda>(h', ok). run_prog (k ok) h')" for h
    by (cases "map_of (Clients h) uid"; cases "hb_valkey h")
       (simp_all add: SendToUser_prog_def SendToUser_def run_Act outcome_simps del: run_prog.simps(2))
qed

lemma Run_register_split:
  assumes "hb_heap h r = Some c"
  shows "Run_register t0 t1 t2 r h = and_then (register_locked t0 r h) (run_prog (register_prog t1 t2 r (cl_UserID c)))"
  using assms by (simp add: Run_register_def register_locked_def register_prog_def Let_def runs outcome_simps)

lemma Run_unregister_split:
  assumes "hb_heap h r = Some c"
  shows "Run_unregister t0 r h = and_then (unregister_locked r h) (run_prog (unregister_prog t0 c))"
  using assms by (simp add: Run_unregister_def unregister_locked_def unregister_prog_def Let_def runs outcome_simps
      cong: if_cong)

lemma run_handlers:
  assumes "hb_heap h r = Some c"
  shows "run_prog (handleUserInfo_prog clk r c msg) h = handleUserInfo clk r msg h"
    and "run_prog (handleDirect_prog clk r c msg) h = handleDirect clk r msg h"
    and "run_prog (handleJoinRoom_prog env clk r c msg) h = handleJoinRoom env clk r msg h"
    and "run_prog (handleLeaveRoom_prog clk r c msg) h = handleLeaveRoom clk r msg h"
    and "run_prog (handleRoomMessage_prog env clk r c msg) h = handleRoomMessage env clk r msg h"
proof -
  show "run_prog (handleUserInfo_prog clk r c msg) h = handleUserInfo clk r msg h"
    by (simp add: assms handleUserInfo_prog_def handleUserInfo_def set_info_def Let_def runs outcome_simps split: option.split)
  show "run_prog (handleDirect_prog clk r c msg) h = handleDirect clk r msg h"
    by (cases "SendToUser (m_TargetID msg) (msg\<lparr>m_UserID := cl_UserID c, m_Timestamp := clk 0\<rparr>) h")
       (auto simp: assms handleDirect_prog_def handleDirect_def runs)
  show "run_prog (handleJoinRoom_prog env clk r c msg) h = handleJoinRoom env clk r msg h"
    by (simp add: assms handleJoinRoom_prog_def enter_prog_def handleJoinRoom_def join_refusal_def Let_def runs outcome_simps)
  show "run_prog (handleLeaveRoom_prog clk r c msg) h = handleLeaveRoom clk r msg h"
    by (simp add: assms handleLeaveRoom_prog_def handleLeaveRoom_def runs outcome_simps)
  show "run_prog (handleRoomMessage_prog env clk r c msg) h = handleRoomMessage env clk r msg h"
    by (simp add: assms handleRoomMessage_prog_def handleRoomMessage_def runs outcome_simps)
qed

lemma run_handleMessage:
  "hb_heap h r = Some c \<Longrightarrow> run_prog (handleMessage_prog env clk r c msg) h = handleMessage env clk r msg h"
  by (simp add: handleMessage_prog_def handleMessage_def run_handlers handleBroadcast_def runs outcome_simps)

text \<open>A round of \<^verbatim>\<open>ReadPump\<close> that no other goroutine interrupts is \<open>ReadPump_step\<close>, with its panics: what the handlers deliver
  is what the programs deliver.\<close>

lemma undisturbed_round: "run_prog (ReadPump_prog env clk r raw) h = ReadPump_step env clk r raw h"
  by (simp add: ReadPump_prog_def ReadPump_step_def run_Act Let_def runs run_handleMessage del: run_prog.simps(2)
      split: option.split)

section \<open>Programs that survive interference\<close>

text \<open>\<open>aimed ph p\<close>: the pointer that \<open>p\<close> is about to send through belongs to an open connection. \<open>safe R p\<close>:
  while the connections in \<open>R\<close> are open, every action of \<open>p\<close> completes and keeps the invariant, on any hub and any phases it may
  then find.\<close>

fun aimed :: "phases \<Rightarrow> prog \<Rightarrow> bool" where
  "aimed ph (Deliver q msg p) \<longleftrightarrow> open_conn ph q"
| "aimed ph _ \<longleftrightarrow> True"

inductive safe :: "cref set \<Rightarrow> prog \<Rightarrow> bool" for R where
  safe_Halt: "safe R Halt"
| safe_Act: "(\<And>ph h. hub_inv ph h \<Longrightarrow> \<forall>r \<in> R. open_conn ph r \<Longrightarrow>
      \<exists>h' k. f h = Done (h', k) \<and> hub_inv ph h' \<and> safe R k \<and> aimed ph k) \<Longrightarrow> safe R (Act f)"
| safe_Deliver: "safe R p \<Longrightarrow> \<not> is_Deliver p \<Longrightarrow> safe R (Deliver q msg p)"

inductive_cases safe_ActE: "safe R (Act f)"
inductive_cases safe_DeliverE: "safe R (Deliver q msg p)"

lemma aimed_if_not_Deliver: "\<not> is_Deliver p \<Longrightarrow> aimed ph p"
  by (cases p) simp_all

lemma act_not_Deliver [simp]: "\<not> is_Deliver (act f k)" "\<not> is_Deliver (look kk')" "\<not> is_Deliver (say r msg)" "\<not> is_Deliver (relay_prog a b k)"
  "\<not> is_Deliver (BroadcastToRoom_prog room msg ex k)" "\<not> is_Deliver (BroadcastMessage_prog msg k)"
  "\<not> is_Deliver (SendToUser_prog uid msg kk)" "\<not> is_Deliver (ReadPump_prog env clk r raw)"
  by (simp_all add: act_def look_def say_def relay_prog_def BroadcastToRoom_prog_def BroadcastMessage_prog_def
      SendToUser_prog_def ReadPump_prog_def Marshal_def)

lemma safe_act:
  assumes "\<And>ph. \<forall>r \<in> R. open_conn ph r \<Longrightarrow> keeps ph f" and "safe R k" and "\<not> is_Deliver k"
  shows "safe R (act f k)"
  unfolding act_def
proof (rule safe_Act)
  fix ph h
  assume "hub_inv ph h" and "\<forall>r \<in> R. open_conn ph r"
  then obtain h' where "f h = Done h'" "hub_inv ph h'" using keepsD [OF assms(1)] by blast
  then show "\<exists>h' k'. and_then (f h) (\<lambda>h'. Done (h', k)) = Done (h', k') \<and> hub_inv ph h' \<and> safe R k' \<and> aimed ph k'"
    using assms(2) aimed_if_not_Deliver [OF assms(3)] by auto
qed

lemma safe_look:
  assumes "\<And>h. safe R (k h) \<and> \<not> is_Deliver (k h)"
  shows "safe R (look k)"
  unfolding look_def by (rule safe_Act) (use assms aimed_if_not_Deliver in auto)

lemma safe_say [intro]: "r \<in> R \<Longrightarrow> safe R (say r msg)"
  unfolding say_def by (intro safe_act safe_Halt keeps_SendMessage) auto

lemma safe_relay:
  assumes "\<And>ph. keeps ph (sse_publish sse)" and "safe R k" and "\<not> is_Deliver k"
  shows "safe R (relay_prog sse valkey k)"
  unfolding relay_prog_def by (intro safe_act) (use assms hub_inv_valkey in \<open>auto simp: keeps_def\<close>)

lemma safe_BroadcastToRoom:
  assumes k: "safe R k" "\<not> is_Deliver k"
  shows "safe R (BroadcastToRoom_prog room msg ex k)"
proof -
  have "keeps ph (\<lambda>h. each (room_offer ex d) (members (Rooms h) room) h)" for ph d
    unfolding keeps_def
  proof (intro allI impI)
    fix h
    assume inv: "hub_inv ph h"
    have "open_conn ph r" if "r \<in> set (members (Rooms h) room)" for r
      using that hub_inv_parts(4) [OF inv, of r room] by simp
    then have "keeps ph (each (room_offer ex d) (members (Rooms h) room))" by (intro keeps_each keeps_room_offer)
    then show "\<exists>h'. each (room_offer ex d) (members (Rooms h) room) h = Done h' \<and> hub_inv ph h'" using keepsD [OF _ inv] by blast
  qed
  then show ?thesis
    unfolding BroadcastToRoom_prog_def using k
    by (intro safe_look) (auto simp: Marshal_def intro!: safe_act safe_relay keeps_Publish split: option.split)
qed

lemma safe_BroadcastMessage:
  assumes "safe R k" and "\<not> is_Deliver k"
  shows "safe R (BroadcastMessage_prog msg k)"
proof -
  have "keeps ph (\<lambda>h. each (hub_offer d) (map snd (Clients h)) h)" for ph d
    using keeps_members distinct_clients(2) by (fastforce simp: keeps_def open_conn_def)
  then show ?thesis
    using assms by (auto simp: BroadcastMessage_prog_def Marshal_def intro!: safe_act safe_relay keeps_PublishAll)
qed

lemma safe_SendToUser:
  assumes "\<And>ok. safe R (k ok) \<and> \<not> is_Deliver (k ok)"
  shows "safe R (SendToUser_prog uid msg k)"
  unfolding SendToUser_prog_def
proof (rule safe_Act)
  fix ph h
  assume inv: "hub_inv ph h"
  have "open_conn ph q" if "map_of (Clients h) uid = Some q" for q
    using that hub_inv_parts(3) [OF inv, of uid q] by (simp add: open_conn_def)
  then show "\<exists>h' k'. (case map_of (Clients h) uid of
       None \<Rightarrow> if hb_valkey h \<noteq> None then Done (valkey_publish (PublishDirect uid msg) h, k True) else Done (h, k False)
     | Some client \<Rightarrow> Done (h, Deliver client msg (k True))) = Done (h', k') \<and> hub_inv ph h' \<and> safe R k' \<and> aimed ph k'"
    using inv hub_inv_valkey [OF inv] assms
    by (auto simp: aimed_if_not_Deliver safe_Deliver split: option.split)
qed

lemmas safe_progs = safe_say safe_act safe_BroadcastToRoom safe_BroadcastMessage safe_SendToUser safe_Halt
  keeps_SendMessage

lemma keeps_set_info: "open_conn ph r \<Longrightarrow> keeps ph (set_info r info)"
  unfolding set_info_def [abs_def] by (rule keeps_client) (auto intro: hub_inv_client_field)

lemma safe_handlers:
  assumes "r \<in> R"
  shows "safe R (handleUserInfo_prog clk r c msg)" and "safe R (handleDirect_prog clk r c msg)"
    and "safe R (handleJoinRoom_prog env clk r c msg)" and "safe R (handleLeaveRoom_prog clk r c msg)"
    and "safe R (handleRoomMessage_prog env clk r c msg)"
proof -
  have join: "keeps ph (\<lambda>h. and_then (mark_room r room h) (\<lambda>h1. Done (JoinRoom room r h1)))" if "open_conn ph r" for ph room
    using enter_inv that by (fastforce simp: keeps_def)
  have leave: "keeps ph (\<lambda>h. and_then (unmark_room r room h) (\<lambda>h1. Done (LeaveRoom room r h1)))" if "open_conn ph r" for ph room
    using exit_inv that by (fastforce simp: keeps_def)
  note intros = safe_progs keeps_set_info join leave
  show "safe R (handleUserInfo_prog clk r c msg)"
    using assms by (auto simp: handleUserInfo_prog_def Let_def intro!: intros split: option.split)
  show "safe R (handleDirect_prog clk r c msg)"
    using assms by (auto simp: handleDirect_prog_def intro!: intros split: if_splits)
  show "safe R (handleJoinRoom_prog env clk r c msg)"
    using assms by (auto simp: handleJoinRoom_prog_def enter_prog_def Let_def intro!: intros safe_look split: if_splits)
  show "safe R (handleLeaveRoom_prog clk r c msg)"
    using assms by (auto simp: handleLeaveRoom_prog_def intro!: intros)
  show "safe R (handleRoomMessage_prog env clk r c msg)"
    using assms by (auto simp: handleRoomMessage_prog_def intro!: intros safe_look split: if_splits)
qed

lemma handleMessage_not_Deliver [simp]: "\<not> is_Deliver (handleMessage_prog env clk r c msg)"
  by (simp add: handleMessage_prog_def handleUserInfo_prog_def handleDirect_prog_def handleJoinRoom_prog_def
      enter_prog_def
      handleLeaveRoom_prog_def handleRoomMessage_prog_def Let_def split: option.split)

lemma safe_ReadPump: "safe {r} (ReadPump_prog env clk r raw)"
  unfolding ReadPump_prog_def
proof (rule safe_Act)
  fix ph h
  assume inv: "hub_inv ph h" and "\<forall>q \<in> {r}. open_conn ph q"
  then obtain c where c: "hb_heap h r = Some c" using open_conn_heap [OF inv] by auto
  have "safe {r} (handleMessage_prog env clk r c m)" for m
    by (simp add: handleMessage_prog_def safe_handlers safe_progs)
  then show "\<exists>h' k. (case hb_heap h r of None \<Rightarrow> Panic NilDereference
     | Some c \<Rightarrow> Done
         (if cl_Metrics c then h\<lparr>hb_metrics := (hb_metrics h)\<lparr>WsMessagesIn := WsMessagesIn (hb_metrics h) + 1\<rparr>\<rparr> else h,
          case Unmarshal_Message env raw of
            None \<Rightarrow> say r (NewErrorMessage (clk 0) ''invalid message format'')
          | Some msg \<Rightarrow> handleMessage_prog env clk r c (msg\<lparr>m_UserID := cl_UserID c\<rparr>))) = Done (h', k) \<and>
      hub_inv ph h' \<and> safe {r} k \<and> aimed ph k"
    using c inv hub_inv_metrics [OF inv] by (auto simp: aimed_if_not_Deliver split: option.split)
qed

lemma safe_register: "safe {r} (register_prog t1 t2 r uid)"
  by (auto simp: register_prog_def intro!: safe_progs)

lemma safe_unregister: "safe {} (unregister_prog t0 c)"
proof -
  have "keeps ph (\<lambda>h. Done (if cl_Metrics c
      then h\<lparr>hb_metrics := (hb_metrics h)\<lparr>WsConnections := WsConnections (hb_metrics h) - 1\<rparr>\<rparr> else h))" for ph
    using hub_inv_metrics by (simp add: keeps_def)
  then show ?thesis by (auto simp: unregister_prog_def intro!: safe_progs)
qed

lemma safe_step:
  assumes "safe R p" and inv: "hub_inv ph h" and open_R: "\<forall>r \<in> R. open_conn ph r" and "aimed ph p"
  shows "\<exists>h' k. step_prog p h = Done (h', k) \<and> hub_inv ph h' \<and> safe R k \<and> aimed ph k"
  using assms(1)
proof cases
  case (safe_Act f)
  then show ?thesis using inv open_R by simp
next
  case (safe_Deliver k q msg)
  then have "open_conn ph q" using assms(4) by simp
  then show ?thesis using keepsD [OF keeps_SendMessage inv] safe_Deliver aimed_if_not_Deliver by fastforce
qed (use inv in \<open>auto intro: safe_Halt\<close>)

end
