(* ===== verification/HubSystem.thy ===== *)
theory HubSystem
  imports HubThreads
begin

text \<open>
  The running system: the hub, its connections, the SSE broker and the bridge, as a state machine. Each
  reading goroutine and the event loop have a program in progress (\<open>HubThreads\<close>), and \<open>Step\<close> performs the next
  action of one of them; the other events are uninterrupted in the code (they hold the hub's lock
  throughout) or work on one queue. The events come in any order their guards allow. A guard says when the
  code can take the step (the event loop is free, the reading goroutine has finished with the previous
  message) or is an assumption:

  \<^item> \<open>Connect\<close> uses a user ID that no open connection has (\<open>duplicate_login_panics\<close> shows why);
  \<^item> no client leaves while a direct message is on its way to it (\<open>direct_message_race\<close>);
  \<^item> \<^verbatim>\<open>Unsubscribe\<close> is called for a stream whose key was not revoked (\<open>dropped_client_panics\<close>), and a revoked key has at least the eight bytes
    that the log line cuts off.

  A client can leave before the event loop has registered it, because \<^verbatim>\<open>ServeWS\<close> starts the pumps first; it then stays \<open>Joining\<close>.
  \<open>SseEvent\<close> performs an operation of the broker or lets the goroutine of a stream receive.
  \<open>reachable\<close> are the states the events lead to; the phases are ghost state.
\<close>

datatype thread = Loop | Reader cref

type_synonym threads = "thread \<Rightarrow> prog"

type_synonym system = "Hub \<times> phases \<times> threads"

datatype event =
    Connect "JWTClaims option" string string string
  | Registering int int int cref
  | Receive go_env clock cref string
  | Step thread
  | Leaving int cref
  | Writing "nat \<Rightarrow> bool" cref
  | Ticking "nat \<Rightarrow> bool" cref
  | RawBroadcast string
  | FromNode go_env Bridge string string
  | RevokedKey string
  | SseEvent broker_op
  | AclSet ChannelACL
  | AclRemove string

fun sse_enabled :: "broker_op \<Rightarrow> SSEBroker \<Rightarrow> bool" where
  "sse_enabled (OpUnsubscribe r) b \<longleftrightarrow> (\<exists>ch. r \<in> set (subs_of b ch))"
| "sse_enabled (OpDisconnectKey k) b \<longleftrightarrow> 8 \<le> length k"
| "sse_enabled _ b \<longleftrightarrow> True"

fun aims_at :: "cref \<Rightarrow> prog \<Rightarrow> bool" where
  "aims_at r (Deliver q msg p) \<longleftrightarrow> q = r"
| "aims_at r _ \<longleftrightarrow> False"

fun enabled :: "event \<Rightarrow> system \<Rightarrow> bool" where
  "enabled (Connect claims uid key channel) (h, ph, th) \<longleftrightarrow>
     uid \<noteq> [] \<and> (\<forall>q. open_conn ph q \<longrightarrow> user_of h q \<noteq> Some uid)"
| "enabled (Registering t0 t1 t2 r) (h, ph, th) \<longleftrightarrow> ph r = Some Joining \<and> th Loop = Halt"
| "enabled (Receive env clk r raw) (h, ph, th) \<longleftrightarrow>
     open_conn ph r \<and> th (Reader r) = Halt \<and> length raw \<le> MaxMessageSize"
| "enabled (Step t) (h, ph, th) \<longleftrightarrow> th t \<noteq> Halt"
| "enabled (Leaving t r) (h, ph, th) \<longleftrightarrow>
     open_conn ph r \<and> th (Reader r) = Halt \<and> th Loop = Halt \<and> (\<forall>u. \<not> aims_at r (th u))"
| "enabled (RawBroadcast data) (h, ph, th) \<longleftrightarrow> th Loop = Halt"
| "enabled (RevokedKey key) (h, ph, th) \<longleftrightarrow> 8 \<le> length key"
| "enabled (SseEvent op) (h, ph, th) \<longleftrightarrow> (\<exists>b. hb_sse h = Some b \<and> sse_enabled op b)"
| "enabled _ (h, ph, th) \<longleftrightarrow> True"

fun perform :: "event \<Rightarrow> system \<Rightarrow> system outcome" where
  "perform (Connect claims uid key channel) (h, ph, th) =
     and_then (ws_admit claims uid key channel h) (\<lambda>(h', r). Done (h', ph(r \<mapsto> Joining), th))"
| "perform (Registering t0 t1 t2 r) (h, ph, th) = (case hb_heap h r of
     None \<Rightarrow> Panic NilDereference
   | Some c \<Rightarrow> and_then (register_locked t0 r h) (\<lambda>h'.
       Done (h', ph(r \<mapsto> Active), th(Loop := register_prog t1 t2 r (cl_UserID c)))))"
| "perform (Receive env clk r raw) (h, ph, th) = Done (h, ph, th(Reader r := ReadPump_prog env clk r raw))"
| "perform (Step t) (h, ph, th) = and_then (step_prog (th t) h) (\<lambda>(h', p). Done (h', ph, th(t := p)))"
| "perform (Leaving t r) (h, ph, th) = (case hb_heap h r of
     None \<Rightarrow> Panic NilDereference
   | Some c \<Rightarrow> and_then (unregister_locked r h) (\<lambda>h'. Done (close_conn r h',
       if ph r = Some Active then ph(r \<mapsto> Gone) else ph, th(Loop := unregister_prog t c))))"
| "perform (Writing w r) (h, ph, th) = (case WritePump_step w r h of
     None \<Rightarrow> Done (h, ph, th) | Some (h', frames, ok) \<Rightarrow> Done (h', ph, th))"
| "perform (Ticking w r) (h, ph, th) = (case WritePump_tick w r h of (h', frames, ok) \<Rightarrow> Done (h', ph, th))"
| "perform (RawBroadcast data) (h, ph, th) = and_then (Run_broadcast data h) (\<lambda>h'. Done (h', ph, th))"
| "perform (FromNode env vb channel data) (h, ph, th) =
     and_then (handleIncomingMessage env vb channel data h) (\<lambda>h'. Done (h', ph, th))"
| "perform (RevokedKey key) (h, ph, th) = and_then (DisconnectKey key h) (\<lambda>(h', n). Done (h', ph, th))"
| "perform (SseEvent op) (h, ph, th) = (case hb_sse h of
     None \<Rightarrow> Panic NilDereference
   | Some b \<Rightarrow> and_then (broker_step op b) (\<lambda>b'. Done (h\<lparr>hb_sse := Some b'\<rparr>, ph, th)))"
| "perform (AclSet acl) (h, ph, th) = Done (h\<lparr>hb_acl := SetChannelACL acl (hb_acl h)\<rparr>, ph, th)"
| "perform (AclRemove ch) (h, ph, th) = Done (h\<lparr>hb_acl := fst (RemoveChannelACL ch (hb_acl h))\<rparr>, ph, th)"

definition boot :: "ACLManager \<Rightarrow> Metrics \<Rightarrow> Bridge \<Rightarrow> system" where
  "boot acl m vb = (SetSSE NewSSEBroker (SetValkey vb (Hub_New acl m)), Map.empty, \<lambda>_. Halt)"

inductive reachable :: "system \<Rightarrow> bool" where
  boot: "reachable (boot acl m vb)"
| step: "reachable s \<Longrightarrow> enabled e s \<Longrightarrow> perform e s = Done s' \<Longrightarrow> reachable s'"

inductive_cases reachableE: "reachable s"

text \<open>A run: a list of events, each allowed in the state it finds.\<close>

fun enabled_run :: "event list \<Rightarrow> system \<Rightarrow> bool" where
  "enabled_run [] s \<longleftrightarrow> True"
| "enabled_run (e # es) s \<longleftrightarrow> enabled e s \<and> (case perform e s of Done s1 \<Rightarrow> enabled_run es s1 | Panic p \<Rightarrow> False)"

lemma reachable_run:
  "reachable s \<Longrightarrow> enabled_run es s \<Longrightarrow> each perform es s = Done s' \<Longrightarrow> reachable s'"
proof (induction es arbitrary: s)
  case (Cons e es)
  then obtain s1 where "perform e s = Done s1" "enabled_run es s1" "each perform es s1 = Done s'"
    by (cases "perform e s") auto
  then show ?case using Cons reachable.step by (metis enabled_run.simps(2))
qed simp

section \<open>Every enabled event completes and keeps the invariant\<close>

definition has_key :: "Hub \<Rightarrow> string \<Rightarrow> cref \<Rightarrow> bool" where
  "has_key h k r \<longleftrightarrow> map_option cl_APIKey (hb_heap h r) = Some k"

lemma disconnect_clients:
  assumes "\<forall>r \<in> set rs. hb_heap h r \<noteq> None" and "hub_inv ph h" and "distinct rs"
  shows "\<exists>h'. each (disconnect_client k) rs (h, n) =
       Done (h', n + length (filter (has_key h k) rs)) \<and> hub_inv ph h' \<and>
     (\<forall>r. hb_heap h' r = (if r \<in> set rs \<and> has_key h k r
        then map_option (\<lambda>c. c\<lparr>cl_conn_closed := True\<rparr>) (hb_heap h r) else hb_heap h r))"
  using assms
proof (induction rs arbitrary: h n)
  case (Cons r rs)
  then obtain c where c: "hb_heap h r = Some c" by auto
  show ?case
  proof (cases "cl_APIKey c = k")
    case False
    then have "disconnect_client k r (h, n) = Done (h, n)" using c by (simp add: disconnect_client_def)
    moreover have no: "\<not> has_key h k r" using c False by (simp add: has_key_def)
    moreover obtain h' where "each (disconnect_client k) rs (h, n) = Done (h', n + length (filter (has_key h k) rs))"
      "hub_inv ph h'" and heap: "\<forall>r. hb_heap h' r = (if r \<in> set rs \<and> has_key h k r
        then map_option (\<lambda>c. c\<lparr>cl_conn_closed := True\<rparr>) (hb_heap h r) else hb_heap h r)"
      using Cons.IH [of h n] Cons.prems by auto
    moreover from heap no have "\<forall>q. hb_heap h' q = (if q \<in> set (r # rs) \<and> has_key h k q
        then map_option (\<lambda>c. c\<lparr>cl_conn_closed := True\<rparr>) (hb_heap h q) else hb_heap h q)" by auto
    ultimately show ?thesis by simp
  next
    case True
    let ?h = "h\<lparr>hb_heap := (hb_heap h)(r \<mapsto> c\<lparr>cl_conn_closed := True\<rparr>)\<rparr>"
    have "disconnect_client k r (h, n) = Done (?h, Suc n)" using c True by (simp add: disconnect_client_def)
    moreover have "hub_inv ph ?h" using hub_inv_client_field [OF Cons.prems(2) c] by simp
    moreover have "\<forall>q \<in> set rs. hb_heap ?h q \<noteq> None" using Cons.prems(1) by simp
    moreover have "filter (has_key ?h k) rs =
        filter (has_key h k) rs"
      using c by (intro filter_cong) (auto simp: has_key_def)
    moreover have yes: "has_key h k r" using c True by (simp add: has_key_def)
    ultimately obtain h' where "each (disconnect_client k) (r # rs) (h, n) =
        Done (h', n + length (filter (has_key h k) (r # rs)))" "hub_inv ph h'"
      and heap: "\<forall>q. hb_heap h' q = (if q \<in> set rs \<and> has_key ?h k q
        then map_option (\<lambda>c. c\<lparr>cl_conn_closed := True\<rparr>) (hb_heap ?h q) else hb_heap ?h q)"
      using Cons.IH [of ?h "Suc n"] Cons.prems(3) by auto
    moreover have "\<forall>q. hb_heap h' q = (if q \<in> set (r # rs) \<and> has_key h k q
        then map_option (\<lambda>c. c\<lparr>cl_conn_closed := True\<rparr>) (hb_heap h q) else hb_heap h q)"
      using heap yes c Cons.prems(3) by (auto simp: has_key_def)
    ultimately show ?thesis by blast
  qed
qed simp

lemma DisconnectKey_effect:
  assumes inv: "hub_inv ph h" and "8 \<le> length k"
  shows "\<exists>h'. DisconnectKey k h =
       Done (h', length (filter (has_key h k) (map snd (Clients h)))) \<and>
     hub_inv ph h' \<and>
     (\<forall>r. hb_heap h' r = (if ph r = Some Active \<and> has_key h k r
        then map_option (\<lambda>c. c\<lparr>cl_conn_closed := True\<rparr>) (hb_heap h r) else hb_heap h r))"
proof -
  have "\<forall>r \<in> set (map snd (Clients h)). hb_heap h r \<noteq> None"
    using distinct_clients(2) [OF inv] open_conn_heap [OF inv] by (fastforce simp: open_conn_def)
  from disconnect_clients [OF this inv distinct_clients(1) [OF inv], of k 0] show ?thesis
    unfolding distinct_clients(2) [OF inv] using assms(2)
    by (auto simp: DisconnectKey_def slice_to_def simp del: and_then_eq_Done cong: if_cong)
qed

lemma DisconnectKey_frame:
  assumes "DisconnectKey k h = Done (h', n)"
  shows "h' = h\<lparr>hb_heap := hb_heap h'\<rparr>"
proof -
  have "each (disconnect_client k) rs (x, i) = Done (y, j) \<Longrightarrow> y = x\<lparr>hb_heap := hb_heap y\<rparr>" for rs x i y j
  proof (induction rs arbitrary: x i)
    case (Cons r rs)
    then obtain x1 i1 where "disconnect_client k r (x, i) = Done (x1, i1)"
      and rest: "each (disconnect_client k) rs (x1, i1) = Done (y, j)" by auto
    then have "x1 = x\<lparr>hb_heap := hb_heap x1\<rparr>" by (auto simp: disconnect_client_def split: option.splits if_splits)
    with Cons.IH [OF rest] show ?case by (metis Hub.surjective Hub.update_convs(1))
  qed simp
  then show ?thesis using assms by (auto simp: DisconnectKey_def split: if_splits)
qed

lemma Run_broadcast_inv: "keeps ph (Run_broadcast data)"
proof -
  have "\<exists>h'. Run_broadcast data h = Done h' \<and> hub_inv ph h'" if inv: "hub_inv ph h" for h
    using keeps_members [OF inv] distinct_clients(2) [OF inv]
    by (simp add: Run_broadcast_def open_conn_def)
  then show ?thesis by (simp add: keeps_def)
qed

lemma sse_step_returns:
  assumes "broker_ok b" and "sse_enabled op b"
  shows "\<exists>b'. broker_step op b = Done b' \<and> broker_ok b'"
proof -
  have "\<exists>b'. broker_step op b = Done b'"
  proof (cases op)
    case (OpUnsubscribe r)
    then show ?thesis using assms Unsubscribe_filed by auto blast
  next
    case (OpDisconnectKey k)
    then show ?thesis using assms DisconnectKey_loop [OF assms(1), of k] by (auto simp: DisconnectKey_long)
  next
    case (OpPublish ch m)
    then show ?thesis using Publish_ok [OF assms(1), of m _ ch] by (auto simp: Marshal_def)
  next
    case (OpPublishAll m)
    then show ?thesis using PublishAll_ok [OF assms(1), of m] by (auto simp: Marshal_def)
  qed simp_all
  then show ?thesis using broker_step_ok assms(1) by blast
qed

lemma hub_inv_other:
  "hub_inv ph h \<Longrightarrow> hub_inv ph (h\<lparr>hb_acl := acl\<rparr>)"
  "hub_inv ph h \<Longrightarrow> broker_ok b \<Longrightarrow> hub_inv ph (h\<lparr>hb_sse := Some b\<rparr>)"
  by (simp_all add: hub_inv_def rooms_ok_def user_of_def hub_live_def rooms_of_def queue_ok_def)

text \<open>The invariant of the system: that of the hub, and that every program in progress is safe while its client is open.\<close>

definition system_inv :: "system \<Rightarrow> bool" where
  "system_inv s \<longleftrightarrow> (case s of (h, ph, th) \<Rightarrow> hub_inv ph h \<and> (\<forall>t. aimed ph (th t)) \<and>
     (\<forall>r. safe {r} (th (Reader r)) \<and> (th (Reader r) \<noteq> Halt \<longrightarrow> open_conn ph r)) \<and>
     (\<exists>R. safe R (th Loop) \<and> (\<forall>r \<in> R. open_conn ph r)))"

lemma system_invD:
  assumes "system_inv (h, ph, th)"
  shows "hub_inv ph h" and "aimed ph (th t)" and "safe {r} (th (Reader r))"
    and "th (Reader r) \<noteq> Halt \<Longrightarrow> open_conn ph r" and "\<exists>R. safe R (th Loop) \<and> (\<forall>r \<in> R. open_conn ph r)"
  using assms by (auto simp: system_inv_def)

lemma system_inv_hub: "system_inv (h, ph, th) \<Longrightarrow> hub_inv ph h' \<Longrightarrow> system_inv (h', ph, th)"
  by (simp add: system_inv_def)

lemma system_inv_phases:
  assumes "system_inv (h, ph, th)" and "hub_inv ph' h'"
    and "\<And>q. open_conn ph q \<Longrightarrow> (\<exists>t. aims_at q (th t)) \<or> th (Reader q) \<noteq> Halt \<or> th Loop \<noteq> Halt \<Longrightarrow> open_conn ph' q"
  shows "system_inv (h', ph', th)"
proof -
  have "aimed ph' (th t)" for t
    using system_invD(2) [OF assms(1), of t] assms(3) by (cases "th t") (auto, metis aims_at.simps(1))
  moreover have "\<exists>R. safe R (th Loop) \<and> (\<forall>r \<in> R. open_conn ph' r)"
  proof (cases "th Loop = Halt")
    case True
    then show ?thesis using safe_Halt by (intro exI [of _ "{}"]) simp
  qed (use system_invD(5) [OF assms(1)] assms(3) in blast)
  ultimately show ?thesis
    using assms(2) system_invD(3,4) [OF assms(1)] assms(3) by (auto simp: system_inv_def)
qed

lemma system_inv_Loop:
  assumes "system_inv (h, ph, th)" and "safe R p" and "\<forall>r \<in> R. open_conn ph r" and "\<not> is_Deliver p"
  shows "system_inv (h, ph, th(Loop := p))"
  using assms aimed_if_not_Deliver [OF assms(4)] by (auto simp: system_inv_def)

lemma Connect_ok:
  assumes inv: "system_inv (h, ph, th)" and en: "enabled (Connect claims uid key channel) (h, ph, th)"
  shows "\<exists>s'. perform (Connect claims uid key channel) (h, ph, th) = Done s' \<and> system_inv s'"
proof -
  note hub = system_invD(1) [OF inv]
  obtain h' r where run: "ws_admit claims uid key channel h = Done (h', r)" "r = hb_next h" "hub_inv (ph(r \<mapsto> Joining)) h'"
    using ws_admit_inv [OF hub, of uid claims key channel] en by auto
  have "open_conn (ph(r \<mapsto> Joining)) q" if "open_conn ph q" for q
    using that by (simp add: open_conn_def)
  then show ?thesis using run system_inv_phases [OF inv run(3)] by simp
qed

lemma Registering_ok:
  assumes inv: "system_inv (h, ph, th)" and en: "enabled (Registering t0 t1 t2 r) (h, ph, th)"
  shows "\<exists>s'. perform (Registering t0 t1 t2 r) (h, ph, th) = Done s' \<and> system_inv s'"
proof -
  have r: "ph r = Some Joining" using en by simp
  note hub = system_invD(1) [OF inv]
  obtain c where c: "hb_heap h r = Some c" using open_conn_heap [OF hub, of r] r by (auto simp: open_conn_def)
  note reg = register_inv [OF hub r c]
  have op: "open_conn (ph(r \<mapsto> Active)) q" if "open_conn ph q" for q using that by (simp add: open_conn_def)
  have "system_inv (h\<lparr>Clients := AList.update (cl_UserID c) r (Clients h)\<rparr>, ph(r \<mapsto> Active), th)"
    using system_inv_phases [OF inv reg(2)] op by blast
  from system_inv_Loop [OF this safe_register] show ?thesis
    using c reg(1) by (simp add: register_locked_def open_conn_def register_prog_def)
qed

lemma Leaving_ok:
  assumes inv: "system_inv (h, ph, th)" and en: "enabled (Leaving t r) (h, ph, th)"
  shows "\<exists>s'. perform (Leaving t r) (h, ph, th) = Done s' \<and> system_inv s'"
proof -
  note hub = system_invD(1) [OF inv]
  obtain c where c: "hb_heap h r = Some c" using open_conn_heap [OF hub, of r] en by auto
  let ?ph = "if ph r = Some Active then ph(r \<mapsto> Gone) else ph"
  have "\<exists>h1. unregister_locked r h = Done h1 \<and> hub_inv ?ph h1"
  proof (cases "ph r = Some Active")
    case True
    then show ?thesis using c unregister_inv [OF hub True c] by (auto simp: unregister_locked_def)
  next
    case False
    then have "ph r = Some Joining" using en by (simp add: open_conn_def)
    then show ?thesis using c register_inv(1) [OF hub _ c] hub by (simp add: unregister_locked_def)
  qed
  then obtain h1 where h1: "unregister_locked r h = Done h1" "hub_inv ?ph (close_conn r h1)"
    using hub_inv_close_conn by blast
  have "open_conn ?ph q" if "open_conn ph q" "q \<noteq> r" for q using that by (simp add: open_conn_def)
  then have "system_inv (close_conn r h1, ?ph, th)"
    using system_inv_phases [OF inv h1(2)] en by fastforce
  from system_inv_Loop [OF this safe_unregister, of t c] show ?thesis
    using c h1(1) by (simp add: unregister_prog_def)
qed

lemma Step_ok:
  assumes inv: "system_inv (h, ph, th)" and en: "enabled (Step t) (h, ph, th)"
  shows "\<exists>s'. perform (Step t) (h, ph, th) = Done s' \<and> system_inv s'"
proof -
  have "\<exists>R. safe R (th t) \<and> (\<forall>r \<in> R. open_conn ph r) \<and> (\<forall>r. t = Reader r \<longrightarrow> R = {r})"
  proof (cases t)
    case Loop
    then show ?thesis using system_invD(5) [OF inv] by simp
  next
    case (Reader r)
    have "open_conn ph r" using system_invD(4) [OF inv, of r] en Reader by simp
    then show ?thesis using system_invD(3) [OF inv, of r] Reader by (intro exI [of _ "{r}"]) simp
  qed
  then obtain R where R: "safe R (th t)" "\<forall>r \<in> R. open_conn ph r" "\<forall>r. t = Reader r \<longrightarrow> R = {r}" by blast
  obtain h' p where "step_prog (th t) h = Done (h', p)" "hub_inv ph h'" "safe R p" "aimed ph p"
    using safe_step [OF R(1) system_invD(1) [OF inv] R(2) system_invD(2) [OF inv]] by blast
  moreover from this have "system_inv (h', ph, th(t := p))"
    using inv R by (cases t) (auto simp: system_inv_def)
  ultimately show ?thesis by simp
qed

lemma perform_ok:
  assumes inv: "system_inv (h, ph, th)" and en: "enabled e (h, ph, th)"
  shows "\<exists>s'. perform e (h, ph, th) = Done s' \<and> system_inv s'"
proof -
  note hub = system_invD(1) [OF inv] and lift = system_inv_hub [OF inv]
  show ?thesis
  proof (cases e)
    case (Connect claims uid key channel)
    then show ?thesis using Connect_ok [OF inv] en by simp
  next
    case (Registering t0 t1 t2 r)
    then show ?thesis using Registering_ok [OF inv] en by blast
  next
    case (Receive env clk r raw)
    have "system_inv (h, ph, th(Reader r := ReadPump_prog env clk r raw))"
      using inv en Receive safe_ReadPump by (auto simp: system_inv_def aimed_if_not_Deliver)
    then show ?thesis using Receive by simp
  next
    case (Step t)
    then show ?thesis using Step_ok [OF inv] en by blast
  next
    case (Leaving t r)
    then show ?thesis using Leaving_ok [OF inv] en by blast
  next
    case (Writing w r)
    then show ?thesis using inv lift WritePump_inv [OF hub, of w r] by (auto split: option.split)
  next
    case (Ticking w r)
    then show ?thesis using inv lift [OF hub_inv_close_conn [OF hub]] by (simp add: WritePump_tick_def)
  next
    case (RawBroadcast data)
    then show ?thesis using keepsD [OF Run_broadcast_inv hub] lift by fastforce
  next
    case (FromNode env vb channel data)
    then show ?thesis using keepsD [OF keeps_handleIncomingMessage hub] lift by fastforce
  next
    case (RevokedKey key)
    then show ?thesis using en DisconnectKey_effect [OF hub, of key] lift by auto
  next
    case (SseEvent op)
    then obtain b where "hb_sse h = Some b" "sse_enabled op b" using en by auto
    then show ?thesis
      using SseEvent sse_step_returns [OF hub_inv_parts(1) [OF hub]] hub_inv_other(2) [OF hub] lift by fastforce
  qed (use lift hub_inv_other(1) [OF hub] in auto)
qed

lemma reachable_system_inv: "reachable s \<Longrightarrow> system_inv s"
proof (induction rule: reachable.induct)
  case (boot acl m vb)
  have "hub_inv Map.empty (SetSSE NewSSEBroker (SetValkey vb (Hub_New acl m)))" by (rule hub_inv_New)
  then show ?case using safe_Halt by (auto simp: boot_def system_inv_def)
next
  case (step s e s')
  then show ?case using perform_ok [of "fst s" "fst (snd s)" "snd (snd s)" e] by (cases s) auto
qed

lemma reachable_inv: "reachable (h, ph, th) \<Longrightarrow> hub_inv ph h"
  using reachable_system_inv system_invD(1) by blast

lemma inv_coherent:
  assumes inv: "hub_inv ph h"
  shows "r \<in> set (members (Rooms h) room) \<longleftrightarrow>
           (\<exists>c. hb_heap h r = Some c \<and> room \<in> set (cl_Rooms c) \<and> \<not> ch_closed (cl_Send c))"
    and "map_of (Clients h) uid = Some r \<Longrightarrow>
           \<exists>c. hb_heap h r = Some c \<and> cl_UserID c = uid \<and> \<not> ch_closed (cl_Send c)"
    and "hb_heap h r = Some c \<Longrightarrow> hb_heap h q = Some c' \<Longrightarrow> \<not> ch_closed (cl_Send c) \<Longrightarrow>
           \<not> ch_closed (cl_Send c') \<Longrightarrow> cl_UserID c = cl_UserID c' \<Longrightarrow> r = q"
    and "map_of (Rooms h) room = Some ms \<Longrightarrow> ms \<noteq> [] \<and> distinct ms"
    and "hb_heap h r = Some c \<Longrightarrow> length (ch_buf (cl_Send c)) \<le> 256"
proof -
  note live = hub_inv_parts(2) [OF inv]
  show "r \<in> set (members (Rooms h) room) \<longleftrightarrow>
           (\<exists>c. hb_heap h r = Some c \<and> room \<in> set (cl_Rooms c) \<and> \<not> ch_closed (cl_Send c))"
    using hub_inv_parts(4) [OF inv, of r room] live [of r]
    by (cases "hb_heap h r") (auto simp: rooms_of_def hub_live_def)
  show "\<exists>c. hb_heap h r = Some c \<and> cl_UserID c = uid \<and> \<not> ch_closed (cl_Send c)"
    if "map_of (Clients h) uid = Some r"
    using that hub_inv_parts(3) [OF inv, of uid r] live [of r]
    by (cases "hb_heap h r") (auto simp: user_of_def hub_live_def open_conn_def)
  show "r = q" if "hb_heap h r = Some c" "hb_heap h q = Some c'" "\<not> ch_closed (cl_Send c)"
    "\<not> ch_closed (cl_Send c')" "cl_UserID c = cl_UserID c'"
    using that hub_inv_parts(9) [OF inv, of r q] live [of r] live [of q] by (simp add: user_of_def hub_live_def)
  show "ms \<noteq> [] \<and> distinct ms" if "map_of (Rooms h) room = Some ms"
    using that hub_inv_parts(7) [OF inv] by (simp add: rooms_ok_def)
  show "length (ch_buf (cl_Send c)) \<le> 256" if "hb_heap h r = Some c"
    using that hub_inv_parts(10) [OF inv, of r] by (simp add: queue_ok_def chan_ok_def)
qed

section \<open>What the system guarantees\<close>

text \<open>C1. No crash: under the assumptions stated above (different user IDs, no direct message on its way to a
  client that leaves, no \<^verbatim>\<open>Unsubscribe\<close> of a revoked stream), no action of any goroutine panics, in any state that any
  interleaving of the actions can reach.\<close>

theorem system_never_panics:
  assumes "reachable s" and "enabled e s"
  shows "\<exists>s'. perform e s = Done s'"
  using perform_ok [of "fst s" "fst (snd s)" "snd (snd s)" e] reachable_system_inv [OF assms(1)] assms(2) by auto

text \<open>C3. The hub's maps are coherent in every reachable state: a client is in the member set of a room
  exactly when the room is in the client's own set and its queue is open; a user ID in \<^verbatim>\<open>Clients\<close> is that of
  the client filed there, whose queue is open; two open clients have different user IDs; no room is kept
  empty; and no queue exceeds its 256 entries.\<close>

theorem hub_coherent:
  assumes "reachable (h, ph, th)"
  shows "(\<forall>r room. r \<in> set (members (Rooms h) room) \<longleftrightarrow>
            (\<exists>c. hb_heap h r = Some c \<and> room \<in> set (cl_Rooms c) \<and> \<not> ch_closed (cl_Send c))) \<and>
         (\<forall>uid r. map_of (Clients h) uid = Some r \<longrightarrow>
            (\<exists>c. hb_heap h r = Some c \<and> cl_UserID c = uid \<and> \<not> ch_closed (cl_Send c))) \<and>
         (\<forall>r q c c'. hb_heap h r = Some c \<and> hb_heap h q = Some c' \<and> \<not> ch_closed (cl_Send c) \<and>
            \<not> ch_closed (cl_Send c') \<and> cl_UserID c = cl_UserID c' \<longrightarrow> r = q) \<and>
         (\<forall>room ms. map_of (Rooms h) room = Some ms \<longrightarrow> ms \<noteq> [] \<and> distinct ms) \<and>
         (\<forall>r c. hb_heap h r = Some c \<longrightarrow> length (ch_buf (cl_Send c)) \<le> 256)"
proof -
  have inv: "hub_inv ph h" using reachable_inv [OF assms] .
  show ?thesis using inv_coherent [OF inv] by (intro conjI allI impI) blast+
qed

text \<open>C15. When a registered client's connection ends, the client leaves \<^verbatim>\<open>Clients\<close> and every room, its queue
  and its connection are closed, and the memberships of all other clients stay as they were.\<close>

theorem leaving_cleans_up:
  assumes "reachable (h, ph, th)" and "ph r = Some Active"
  shows "\<exists>h' c. ReadPump_exit t r h = Done h' \<and> hb_heap h' r = Some c \<and>
     ch_closed (cl_Send c) \<and> cl_conn_closed c \<and> r \<notin> set (map snd (Clients h')) \<and>
     (\<forall>q room. q \<in> set (members (Rooms h') room) \<longleftrightarrow> q \<in> set (members (Rooms h) room) \<and> q \<noteq> r)"
proof -
  have inv: "hub_inv ph h" using reachable_inv [OF assms(1)] .
  obtain h1 where h1: "Run_unregister t r h = Done h1" "hub_inv (ph(r \<mapsto> Gone)) h1" "rooms_of h1 = rooms_of h"
    using Run_unregister_inv [OF inv assms(2)] by blast
  have gone: "open_conn (ph(r \<mapsto> Gone)) q \<longleftrightarrow> q \<noteq> r \<and> open_conn ph q" for q by (auto simp: open_conn_def)
  obtain c where c: "hb_heap h1 r = Some c" using hub_inv_parts(5) [OF h1(2), of r] by auto
  have "ch_closed (cl_Send c)"
    using hub_inv_parts(2) [OF h1(2), of r] c by (simp add: gone hub_live_def)
  moreover have "r \<notin> set (map snd (Clients h1))" using distinct_clients(2) [OF h1(2), of r] by simp
  moreover have "q \<in> set (members (Rooms h1) room) \<longleftrightarrow> q \<in> set (members (Rooms h) room) \<and> q \<noteq> r" for q room
    using hub_inv_parts(4) [OF h1(2), of q room] hub_inv_parts(4) [OF inv, of q room] by (auto simp: gone h1(3))
  ultimately show ?thesis using h1(1) c
    by (intro exI [of _ "close_conn r h1"] exI [of _ "c\<lparr>cl_conn_closed := True\<rparr>"])
       (simp add: ReadPump_exit_def close_conn_def)
qed

end
