(* ===== verification/SseHandler.thy ===== *)
theory SseHandler
  imports SseBroker ApiKeys Http Metrics
begin

text \<open>
  \<^verbatim>\<open>internal/transport/sse.go\<close>, the handler of the \<^verbatim>\<open>/subscribe\<close> endpoint, on the broker and the metrics. A request is
  either refused or becomes a stream with the headers \<open>sse_headers\<close>: \<open>ServeSSE_open\<close> is the handler up to its loop,
  with the text it has written,
  \<open>ServeSSE_event\<close> is a round of the loop that receives from \<^verbatim>\<open>client.Events\<close>, \<open>ServeSSE_tick\<close> the text of the
  other round that continues, and \<open>ServeSSE_end\<close> the deferred calls in the order in which they run.
\<close>

type_synonym sse_state = "SSEBroker \<times> Metrics option"

datatype sse_result = SseRefused http_response | Streaming sref string

abbreviation nl :: string where "nl \<equiv> [CHR 0x0A]"
abbreviation dq :: string where "dq \<equiv> [CHR 0x22]"

definition sse_event_text :: "64 word \<Rightarrow> string \<Rightarrow> string" where
  "sse_event_text eid data = ''id: '' @ itoa_nat (unat eid) @ nl @ ''event: message'' @ nl @ ''data: '' @ data @ nl @ nl"

definition sse_connected_text :: "64 word \<Rightarrow> string \<Rightarrow> int \<Rightarrow> string" where
  "sse_connected_text eid channel now = ''id: '' @ itoa_nat (unat eid) @ nl @ ''event: connected'' @ nl @
     ''data: {'' @ dq @ ''channel'' @ dq @ '':'' @ dq @ channel @ dq @ '','' @ dq @ ''timestamp'' @ dq @ '':'' @ itoa now @ ''}'' @ nl @ nl"

definition sse_replay_text :: "SSEBroker \<Rightarrow> string \<Rightarrow> string \<Rightarrow> string" where
  "sse_replay_text b channel lastEventIDStr =
     (if lastEventIDStr \<noteq> [] \<and> 0 < Sscanf_uint64 lastEventIDStr
      then concat (map (\<lambda>e. sse_event_text (re_ID e) (re_Data e))
             (GetReplaySince b channel (Sscanf_uint64 lastEventIDStr)))
      else [])"

definition sse_headers :: "(string, string) gomap" where
  "sse_headers = [(''Content-Type'', ''text/event-stream''), (''Cache-Control'', ''no-cache''), (''Connection'', ''keep-alive''),
     (''Access-Control-Allow-Origin'', ''*''), (''X-Accel-Buffering'', ''no'')]"

definition ServeSSE_open ::
  "go_env \<Rightarrow> APIKeyStore \<Rightarrow> bool \<Rightarrow> int \<Rightarrow> http_request \<Rightarrow> sse_state \<Rightarrow> (sse_state \<times> sse_result) outcome" where
  "ServeSSE_open env apiKeys flusher now r st = (case st of (b, m) \<Rightarrow>
     let apiKey = request_key r; channel = rq_Query r ''channel'' in
     if apiKey = [] then Done (st, SseRefused (http_fail ''api_key required'' StatusUnauthorized))
     else and_then (Validate (unicode_lower env) apiKeys apiKey (request_origin r)) (\<lambda>v. case v of
         Inl err \<Rightarrow> Done (st, SseRefused (http_fail err StatusForbidden))
       | Inr _ \<Rightarrow>
           if channel = [] then Done (st, SseRefused (http_fail ''channel query param required'' StatusBadRequest))
           else if \<not> flusher then Done (st, SseRefused (http_fail ''SSE not supported'' StatusInternalServerError))
           else (case Subscribe channel apiKey b of (b', client) \<Rightarrow>
             Done ((b', map_option (\<lambda>x. x\<lparr>SseConnections := SseConnections x + 1\<rparr>) m),
                   Streaming client (sse_replay_text b' channel (rq_Header r ''Last-Event-ID'') @
                     sse_connected_text (GetCurrentEventID b') channel now)))))"

definition ServeSSE_event :: "sref \<Rightarrow> sse_state \<Rightarrow> (sse_state \<times> string) option" where
  "ServeSSE_event client st = (case st of (b, m) \<Rightarrow> (case sb_heap b client of
       None \<Rightarrow> None
     | Some c \<Rightarrow> (case recv (sc_Events c) of
           Got data q \<Rightarrow>
             Some ((b\<lparr>sb_heap := (sb_heap b)(client \<mapsto> c\<lparr>sc_Events := q\<rparr>)\<rparr>,
                    map_option (\<lambda>x. x\<lparr>MessagesDelivered := MessagesDelivered x + 1\<rparr>) m),
                   sse_event_text (GetCurrentEventID b) data)
         | _ \<Rightarrow> None)))"

definition ServeSSE_tick :: string where
  "ServeSSE_tick = '': keepalive'' @ nl @ nl"

definition ServeSSE_end :: "sref \<Rightarrow> sse_state \<Rightarrow> sse_state outcome" where
  "ServeSSE_end client st = (case st of (b, m) \<Rightarrow>
     and_then (Unsubscribe client b) (\<lambda>b'.
       Done (b', map_option (\<lambda>x. x\<lparr>SseConnections := SseConnections x - 1\<rparr>) m)))"

section \<open>Facts\<close>

lemma ServeSSE_open_accepts:
  assumes "Validate (unicode_lower env) apiKeys (request_key r) (request_origin r) = Done (Inr k)"
    and "request_key r \<noteq> []" and "rq_Query r ''channel'' \<noteq> []"
  shows "ServeSSE_open env apiKeys True now r (b, m) =
    (case Subscribe (rq_Query r ''channel'') (request_key r) b of (b', client) \<Rightarrow>
       Done ((b', map_option (\<lambda>x. x\<lparr>SseConnections := SseConnections x + 1\<rparr>) m),
             Streaming client (sse_replay_text b' (rq_Query r ''channel'') (rq_Header r ''Last-Event-ID'') @
               sse_connected_text (GetCurrentEventID b') (rq_Query r ''channel'') now)))"
  using assms by (simp add: ServeSSE_open_def Let_def del: and_then_eq_Done)

lemma replay_IDs:
  assumes "each broker_step ops NewSSEBroker = Done b" and "length (published ops) < 2 ^ 64"
    and "e \<in> set (replay_of b ch)"
  shows "re_ID e \<le> sb_eventID b"
proof -
  have "e \<in> set (history ch 0 (published ops))"
    using broker_run_replay [OF assms(1)] assms(3) by (auto simp: last_n_def dest: in_set_dropD)
  then obtain j where "j \<le> length (published ops)" "re_ID e = word_of_nat j" using history_IDs by fastforce
  with broker_run_replay [OF assms(1)] assms(2) show ?thesis by (simp add: word_le_nat_alt unat_of_nat)
qed

section \<open>What a stream carries\<close>

text \<open>C31. A subscriber that reconnects is sent what it missed: with the ID of the \<open>k\<close>-th event in its
  \<^verbatim>\<open>Last-Event-ID\<close>, the stream opens with one frame per event that was published on its channel since then, in
  order and with the data unchanged, if these are at most 100; then comes the connected event.\<close>

theorem reconnect_sends_missed:
  assumes "each broker_step ops NewSSEBroker = Done b" and "length (published ops) < 2 ^ 64"
    and "0 < k" and "k \<le> length (published ops)"
    and "length (filter (\<lambda>(c, _). c = rq_Query r ''channel'') (drop k (published ops))) \<le> 100"
    and "rq_Header r ''Last-Event-ID'' = itoa_nat k" and "rq_Query r ''channel'' \<noteq> []" and "request_key r \<noteq> []"
    and "Validate (unicode_lower env) apiKeys (request_key r) (request_origin r) = Done (Inr key)"
  shows "\<exists>b' m' client (entries :: ReplayEntry list). ServeSSE_open env apiKeys True now r (b, m) =
      Done ((b', m'), Streaming client (concat (map (\<lambda>e. sse_event_text (re_ID e) (re_Data e)) entries) @
        sse_connected_text (sb_eventID b) (rq_Query r ''channel'') now)) \<and>
    map re_Data entries = map snd (filter (\<lambda>(c, _). c = rq_Query r ''channel'') (drop k (published ops)))"
proof -
  let ?ch = "rq_Query r ''channel''"
  obtain b' client where sub: "Subscribe ?ch (request_key r) b = (b', client)" by fastforce
  have same: "sb_replay b' = sb_replay b" "sb_eventID b' = sb_eventID b"
    using sub by (auto simp: Subscribe_def Let_def)
  have k: "Sscanf_uint64 (itoa_nat k) = word_of_nat k" using assms(2,4) by (simp add: Sscanf_uint64_itoa_nat)
  have "(0 :: 64 word) < word_of_nat k" using assms(2-4) by (simp add: word_less_nat_alt unat_of_nat)
  then have "sse_replay_text b' ?ch (itoa_nat k) =
      concat (map (\<lambda>e. sse_event_text (re_ID e) (re_Data e)) (GetReplaySince b ?ch (word_of_nat k)))"
    using same(1) itoa_nat_digits [of k] by (simp add: sse_replay_text_def k GetReplaySince_def)
  then have "ServeSSE_open env apiKeys True now r (b, m) =
      Done ((b', map_option (\<lambda>x. x\<lparr>SseConnections := SseConnections x + 1\<rparr>) m),
        Streaming client (concat (map (\<lambda>e. sse_event_text (re_ID e) (re_Data e)) (GetReplaySince b ?ch (word_of_nat k))) @
          sse_connected_text (sb_eventID b) ?ch now))"
    using ServeSSE_open_accepts [OF assms(9,8,7), of now b m] sub same(2) assms(6)
    by (simp add: GetCurrentEventID_def)
  then show ?thesis using replay_since [OF assms(1,2,4,5)] by blast
qed

text \<open>C32. The ID a live event is sent with is not its own: it is the ID of the newest event of the whole broker
  at the time of the write. A client that reconnects with it is replayed nothing, on any channel, so whatever
  was still waiting in its queue is lost.\<close>

theorem live_label_hides_pending:
  assumes "each broker_step ops NewSSEBroker = Done b" and "length (published ops) < 2 ^ 64"
    and "sb_heap b client = Some c" and "ch_buf (sc_Events c) = first # pending"
  shows "\<exists>st' label. ServeSSE_event client (b, m) = Some (st', sse_event_text label first) \<and>
    label = word_of_nat (length (published ops)) \<and> GetReplaySince b ch label = []"
proof -
  have label: "sb_eventID b = word_of_nat (length (published ops))" using broker_run_replay [OF assms(1)] by simp
  have "\<not> sb_eventID b < re_ID e" if "e \<in> set (replay_of b ch)" for e
    using replay_IDs [OF assms(1,2) that] by simp
  then have "GetReplaySince b ch (sb_eventID b) = []"
    by (simp add: GetReplaySince_def replay_of_def filter_empty_conv split: option.splits)
  then show ?thesis using assms(3,4) label
    by (auto simp: ServeSSE_event_def recv_def GetCurrentEventID_def)
qed

section \<open>A reconnecting subscriber\<close>

definition sse_request :: "string \<Rightarrow> http_request" where
  "sse_request lastID = \<lparr>rq_Method = ''GET'', rq_EscapedPath = ''/subscribe'',
     rq_Query = (\<lambda>n. if n = ''api_key'' then sample_name else if n = ''channel'' then ''news'' else []),
     rq_Header = (\<lambda>n. if n = ''Last-Event-ID'' then lastID else []), rq_RemoteAddr = ''1.2.3.4:5'', rq_Body = []\<rparr>"

definition two_news :: "broker_op list" where
  "two_news = [OpSubscribe ''news'' ''k'', OpPublish ''news'' zero_Message, OpPublish ''news'' (zero_Message\<lparr>m_ID := ''2''\<rparr>)]"

lemma two_news_run: "\<exists>b c. each broker_step two_news NewSSEBroker = Done b \<and> sb_heap b 0 = Some c \<and>
    ch_buf (sc_Events c) = [json_text (Message_json zero_Message), json_text (Message_json (zero_Message\<lparr>m_ID := ''2''\<rparr>))]"
  by (simp add: two_news_def Subscribe_def Publish_def record_event_def slice_from_def NewSSEBroker_def replay_of_def
      Marshal_def Let_def subs_of_def members_def sse_offer_eq offered_def ch_space_def make_chan_def)

theorem reconnect_sends_missed_witness:
  "\<exists>b b' m' client (entries :: ReplayEntry list). each broker_step two_news NewSSEBroker = Done b \<and>
     ServeSSE_open sample_env sample_store True 7 (sse_request ''1'') (b, None) =
       Done ((b', m'), Streaming client (concat (map (\<lambda>e. sse_event_text (re_ID e) (re_Data e)) entries) @
         sse_connected_text (sb_eventID b) ''news'' 7)) \<and>
     map re_Data entries = [json_text (Message_json (zero_Message\<lparr>m_ID := ''2''\<rparr>))]"
proof -
  obtain b where run: "each broker_step two_news NewSSEBroker = Done b" using two_news_run by blast
  have v: "Validate (unicode_lower sample_env) sample_store (request_key (sse_request ''1'')) (request_origin (sse_request ''1'')) =
      Done (Inr sample_key)"
    by (simp add: Validate_def request_key_def request_origin_def sse_request_def sample_store_def sample_key_def sample_name_def)
  have one: "rq_Header (sse_request ''1'') ''Last-Event-ID'' = itoa_nat 1"
    by (simp add: sse_request_def) code_simp
  have req: "rq_Query (sse_request ''1'') ''channel'' = ''news''" "request_key (sse_request ''1'') \<noteq> []"
    by (simp_all add: sse_request_def request_key_def sample_name_def)
  have pub: "length (published two_news) = 2"
    "filter (\<lambda>(c, _). c = ''news'') (drop 1 (published two_news)) =
       [(''news'', json_text (Message_json (zero_Message\<lparr>m_ID := ''2''\<rparr>)))]"
    by (simp_all add: two_news_def)
  from reconnect_sends_missed [OF run _ _ _ _ one _ req(2) v, of 7 None, unfolded req(1) pub] run
  show ?thesis by (simp only: list.size list.map snd_conv) fastforce
qed

theorem live_label_hides_pending_witness:
  "\<exists>b st' label. each broker_step two_news NewSSEBroker = Done b \<and>
     ServeSSE_event 0 (b, None) = Some (st', sse_event_text label (json_text (Message_json zero_Message))) \<and>
     GetReplaySince b ''news'' label = []"
proof -
  obtain b c where run: "each broker_step two_news NewSSEBroker = Done b" "sb_heap b 0 = Some c"
    "ch_buf (sc_Events c) = [json_text (Message_json zero_Message), json_text (Message_json (zero_Message\<lparr>m_ID := ''2''\<rparr>))]"
    using two_news_run by blast
  show ?thesis using live_label_hides_pending [OF run(1) _ run(2,3), of None "''news''"] run(1)
    by (auto simp: two_news_def)
qed

end
