(* ===== verification/Webhooks.thy ===== *)
theory Webhooks
  imports Messages Metrics GoUrl
begin

text \<open>
  \<^verbatim>\<open>internal/webhook/webhook.go\<close>: registration, the choice of the webhooks an event goes to, and one
  delivery attempt. \<^verbatim>\<open>Dispatch\<close> starts a goroutine per chosen webhook; the model returns the list of
  the deliveries it starts. A delivery is a function of what the HTTP client answers.
\<close>

record Webhook =
  wh_ID :: string
  wh_URL :: string
  wh_Events :: "string slice"
  wh_Channel :: string
  wh_Secret :: string
  wh_Active :: bool

record Payload =
  pl_Event :: string
  pl_Channel :: string
  pl_Data :: json
  pl_Timestamp :: int

record WebhookManager =
  webhooks :: "(string, Webhook) gomap"

definition NewManager :: WebhookManager where
  "NewManager = \<lparr>webhooks = []\<rparr>"

definition Register_webhook :: "Webhook \<Rightarrow> WebhookManager \<Rightarrow> WebhookManager" where
  "Register_webhook wh wm =
     wm\<lparr>webhooks := AList.update (wh_ID wh) (wh\<lparr>wh_Active := True\<rparr>) (webhooks wm)\<rparr>"

definition Unregister_webhook :: "string \<Rightarrow> WebhookManager \<Rightarrow> WebhookManager \<times> bool" where
  "Unregister_webhook hid wm = (case map_of (webhooks wm) hid of
       Some _ \<Rightarrow> (wm\<lparr>webhooks := AList.delete hid (webhooks wm)\<rparr>, True)
     | None \<Rightarrow> (wm, False))"

definition List_webhooks :: "WebhookManager \<Rightarrow> Webhook list" where
  "List_webhooks wm = map (\<lambda>(_, wh). wh\<lparr>wh_Secret := ''***''\<rparr>) (webhooks wm)"

definition matchesEvent :: "Webhook \<Rightarrow> string \<Rightarrow> bool" where
  "matchesEvent wh event =
     (if elems (wh_Events wh) = [] then True else list_ex (\<lambda>e. e = event \<or> e = ''*'') (elems (wh_Events wh)))"

definition Dispatch :: "int \<Rightarrow> string \<Rightarrow> string \<Rightarrow> json \<Rightarrow> WebhookManager \<Rightarrow> (Webhook \<times> Payload) list" where
  "Dispatch now event channel data wm =
     (let payload = \<lparr>pl_Event = event, pl_Channel = channel, pl_Data = data, pl_Timestamp = now\<rparr>
      in map (\<lambda>(_, wh). (wh, payload))
           (filter (\<lambda>(_, wh). wh_Active wh \<and> matchesEvent wh event \<and>
                      \<not> (wh_Channel wh \<noteq> [] \<and> wh_Channel wh \<noteq> channel)) (webhooks wm)))"

definition Payload_json :: "Payload \<Rightarrow> json" where
  "Payload_json p = JObj [(''event'', JStr (pl_Event p)), (''channel'', JStr (pl_Channel p)),
     (''data'', pl_Data p), (''timestamp'', JNum (itoa (pl_Timestamp p)))]"

text \<open>What \<^verbatim>\<open>wm.client.Do(req)\<close> returns: an error, or a response with its status code.\<close>

datatype do_result = DoError | DoStatus nat

record webhook_post =
  wp_URL :: string
  wp_Headers :: "(string, string) gomap"
  wp_Body :: string

definition webhook_request :: "Webhook \<Rightarrow> Payload \<Rightarrow> webhook_post" where
  "webhook_request wh payload = \<lparr>wp_URL = wh_URL wh,
     wp_Headers = [(''Content-Type'', ''application/json''), (''User-Agent'', ''SyncHub-Webhook/1.0''),
                   (''X-Webhook-ID'', wh_ID wh)]
                  @ (if wh_Secret wh \<noteq> [] then [(''X-Webhook-Secret'', wh_Secret wh)] else []),
     wp_Body = json_text (Payload_json payload)\<rparr>"

definition count_failure :: "Metrics option \<Rightarrow> Metrics option" where
  "count_failure m = map_option (\<lambda>x. x\<lparr>WebhookFailures := WebhookFailures x + 1\<rparr>) m"

text \<open>\<^verbatim>\<open>http.NewRequest\<close> fails exactly when the URL does not parse. \<open>answer\<close> is the HTTP client; the
  result is the metrics and the request that was sent, if one was.\<close>

definition deliver ::
  "(webhook_post \<Rightarrow> do_result) \<Rightarrow> Webhook \<Rightarrow> Payload \<Rightarrow> Metrics option \<Rightarrow> Metrics option \<times> webhook_post option"
where
  "deliver answer wh payload m0 =
     (let m = map_option (\<lambda>x. x\<lparr>WebhookDeliveries := WebhookDeliveries x + 1\<rparr>) m0 in
      if url_Parse_Host (wh_URL wh) = None then (count_failure m, None)
      else let req = webhook_request wh payload in
        (case answer req of
           DoError \<Rightarrow> (count_failure m, Some req)
         | DoStatus code \<Rightarrow> (if 400 \<le> code then count_failure m else m, Some req)))"

text \<open>Every webhook is filed under its ID. \<^verbatim>\<open>Register\<close> activates what it stores, so that the server's own managers are
  \<open>webhooks_ok\<close>; the manager keeps the caller's pointer, through which a holder of it can switch the webhook off later.\<close>

definition webhooks_filed :: "WebhookManager \<Rightarrow> bool" where
  "webhooks_filed wm \<longleftrightarrow> gomap_ok (webhooks wm) \<and> (\<forall>hid wh. map_of (webhooks wm) hid = Some wh \<longrightarrow> wh_ID wh = hid)"

definition webhooks_ok :: "WebhookManager \<Rightarrow> bool" where
  "webhooks_ok wm \<longleftrightarrow> webhooks_filed wm \<and> (\<forall>hid wh. map_of (webhooks wm) hid = Some wh \<longrightarrow> wh_Active wh)"

section \<open>Facts\<close>

lemma webhooks_ok_New: "webhooks_ok NewManager"
  by (simp add: webhooks_ok_def webhooks_filed_def NewManager_def)

lemma webhooks_ok_Register: "webhooks_ok wm \<Longrightarrow> webhooks_ok (Register_webhook wh wm)"
  by (simp add: webhooks_ok_def webhooks_filed_def Register_webhook_def)

lemma webhooks_ok_Unregister: "webhooks_ok wm \<Longrightarrow> webhooks_ok (fst (Unregister_webhook hid wm))"
  by (simp add: webhooks_ok_def webhooks_filed_def Unregister_webhook_def split: option.splits)

lemma matchesEvent_iff:
  "matchesEvent wh e \<longleftrightarrow> elems (wh_Events wh) = [] \<or> e \<in> set (elems (wh_Events wh)) \<or> ''*'' \<in> set (elems (wh_Events wh))"
  by (auto simp: matchesEvent_def list_ex_iff)

section \<open>Properties\<close>

text \<open>C37. An event goes to exactly the registered webhooks that are active and subscribe to it, by name, by the
  star or by an empty event list, and whose channel filter is empty or is the event's channel;
  each of them gets it once, with the same payload.\<close>

theorem Dispatch_exact:
  assumes "webhooks_filed wm"
  shows "distinct (map (\<lambda>(wh, _). wh_ID wh) (Dispatch now event channel data wm)) \<and>
    ((wh, payload) \<in> set (Dispatch now event channel data wm) \<longleftrightarrow>
       map_of (webhooks wm) (wh_ID wh) = Some wh \<and> wh_Active wh \<and>
       (elems (wh_Events wh) = [] \<or> event \<in> set (elems (wh_Events wh)) \<or> ''*'' \<in> set (elems (wh_Events wh))) \<and>
       (wh_Channel wh = [] \<or> wh_Channel wh = channel) \<and>
       payload = \<lparr>pl_Event = event, pl_Channel = channel, pl_Data = data, pl_Timestamp = now\<rparr>)"
proof
  have g: "gomap_ok (webhooks wm)" using assms by (simp add: webhooks_filed_def)
  have ids: "\<forall>(hid, wh) \<in> set (webhooks wm). wh_ID wh = hid"
    using assms by (auto simp: webhooks_filed_def gomap_get_iff)
  then have "map (\<lambda>(wh, _). wh_ID wh) (Dispatch now event channel data wm) =
      map fst (filter (\<lambda>(_, wh). wh_Active wh \<and> matchesEvent wh event \<and>
                      \<not> (wh_Channel wh \<noteq> [] \<and> wh_Channel wh \<noteq> channel)) (webhooks wm))"
    by (auto simp: Dispatch_def Let_def)
  then show "distinct (map (\<lambda>(wh, _). wh_ID wh) (Dispatch now event channel data wm))"
    using g by (simp add: gomap_ok_def distinct_map_filter)
  show "(wh, payload) \<in> set (Dispatch now event channel data wm) \<longleftrightarrow>
       map_of (webhooks wm) (wh_ID wh) = Some wh \<and> wh_Active wh \<and>
       (elems (wh_Events wh) = [] \<or> event \<in> set (elems (wh_Events wh)) \<or> ''*'' \<in> set (elems (wh_Events wh))) \<and>
       (wh_Channel wh = [] \<or> wh_Channel wh = channel) \<and>
       payload = \<lparr>pl_Event = event, pl_Channel = channel, pl_Data = data, pl_Timestamp = now\<rparr>"
    using ids by (auto simp: Dispatch_def Let_def matchesEvent_iff gomap_get_iff [OF g])
qed

text \<open>Every delivery attempt is counted once, and it is counted as failed exactly when the URL
  does not parse, the HTTP client reports an error, or the status is 400 or more.\<close>

lemma deliver_counts:
  "\<exists>m'. fst (deliver answer wh payload (Some m)) = Some m' \<and>
     WebhookDeliveries m' = WebhookDeliveries m + 1 \<and>
     WebhookFailures m' = WebhookFailures m +
       (if url_Parse_Host (wh_URL wh) = None \<or>
           (case answer (webhook_request wh payload) of DoError \<Rightarrow> True | DoStatus code \<Rightarrow> 400 \<le> code)
        then 1 else 0)"
  by (auto simp: deliver_def count_failure_def Let_def split: do_result.splits)

section \<open>Witnesses\<close>

definition sample_hook :: Webhook where
  "sample_hook = \<lparr>wh_ID = ''h1'', wh_URL = ''https://x.example.com/hook'', wh_Events = Some [''alert''],
     wh_Channel = ''chat'', wh_Secret = ''s'', wh_Active = True\<rparr>"

text \<open>Two webhooks want the event; the one that was switched off does not get it.\<close>

definition sample_hooks :: WebhookManager where
  "sample_hooks = \<lparr>webhooks = [(''h1'', sample_hook), (''h2'', sample_hook\<lparr>wh_ID := ''h2'', wh_Active := False\<rparr>)]\<rparr>"

theorem Dispatch_exact_witness:
  "(sample_hook, \<lparr>pl_Event = ''alert'', pl_Channel = ''chat'', pl_Data = JNull, pl_Timestamp = 7\<rparr>)
     \<in> set (Dispatch 7 ''alert'' ''chat'' JNull sample_hooks) \<and>
   (\<forall>p. (sample_hook\<lparr>wh_ID := ''h2'', wh_Active := False\<rparr>, p) \<notin> set (Dispatch 7 ''alert'' ''chat'' JNull sample_hooks))"
proof -
  have ok: "webhooks_filed sample_hooks"
    by (simp add: sample_hooks_def webhooks_filed_def gomap_ok_def sample_hook_def)
  show ?thesis
    using Dispatch_exact [OF ok, of 7 "''alert''" "''chat''" JNull sample_hook
        "\<lparr>pl_Event = ''alert'', pl_Channel = ''chat'', pl_Data = JNull, pl_Timestamp = 7\<rparr>"]
      Dispatch_exact [OF ok, of 7 "''alert''" "''chat''" JNull "sample_hook\<lparr>wh_ID := ''h2'', wh_Active := False\<rparr>"]
    by (simp add: sample_hooks_def sample_hook_def)
qed

end
