(* ===== verification/RateLimit.thy ===== *)
theory RateLimit
  imports Http Metrics
begin

text \<open>
  \<^verbatim>\<open>internal/middleware/middleware.go\<close>: the per-IP and the per-key rate limiter, the middleware that
  applies the first to a handler, and the CORS middleware. A point in time is a number of nanoseconds; an
  operation that reads the clock twice takes two readings. Counts and durations are signed 64-bit
  integers: \<open>v_count\<close> wraps, and \<^verbatim>\<open>time.Since\<close> saturates. Both limiters run under one mutex, so each of
  their methods is one step.

  The two limiters are the same algorithm on two types. The locale \<open>window_limiter\<close> states what the
  algorithm promises for one key and derives the behaviour of whole request sequences;
  \<open>cleaned_limiter\<close> adds the background cleanup. Both types are interpretations.
\<close>

record visitor =
  v_count :: "64 word"
  v_lastSeen :: int

record RateLimiter =
  visitors :: "(string, visitor) gomap"
  rl_rate :: "64 word"
  rl_window :: "64 word"

record KeyRateLimiter =
  krl_keys :: "(string, visitor) gomap"
  krl_rate :: "64 word"
  krl_window :: "64 word"

definition NewRateLimiter :: "64 word \<Rightarrow> 64 word \<Rightarrow> RateLimiter" where
  "NewRateLimiter rate window = \<lparr>visitors = [], rl_rate = rate, rl_window = window\<rparr>"

definition NewKeyRateLimiter :: "64 word \<Rightarrow> 64 word \<Rightarrow> KeyRateLimiter" where
  "NewKeyRateLimiter rate window = \<lparr>krl_keys = [], krl_rate = rate, krl_window = window\<rparr>"

text \<open>\<^verbatim>\<open>t.Sub(u)\<close> of two points in time is the nearest value an \<^verbatim>\<open>int64\<close> can hold.\<close>

definition time_Sub :: "int \<Rightarrow> int \<Rightarrow> 64 word" where
  "time_Sub t u = word_of_int (max (- (2 ^ 63)) (min (2 ^ 63 - 1) (t - u)))"

text \<open>\<open>t0\<close> is the time \<^verbatim>\<open>time.Since\<close> reads and \<open>t1\<close> the one stored as \<^verbatim>\<open>lastSeen\<close>.\<close>

definition RateLimiter_Allow :: "int \<Rightarrow> int \<Rightarrow> string \<Rightarrow> RateLimiter \<Rightarrow> RateLimiter \<times> bool" where
  "RateLimiter_Allow t0 t1 ip rl =
     (let fresh = (rl\<lparr>visitors := AList.update ip \<lparr>v_count = 1, v_lastSeen = t1\<rparr> (visitors rl)\<rparr>, True)
      in case map_of (visitors rl) ip of
        None \<Rightarrow> fresh
      | Some v \<Rightarrow>
          if rl_window rl <s time_Sub t0 (v_lastSeen v) then fresh
          else (rl\<lparr>visitors := AList.update ip \<lparr>v_count = v_count v + 1, v_lastSeen = t1\<rparr> (visitors rl)\<rparr>,
                v_count v + 1 \<le>s rl_rate rl))"

text \<open>\<open>ts ip\<close> is the time at which the loop looks at the entry of \<open>ip\<close>.\<close>

definition RateLimiter_cleanup :: "(string \<Rightarrow> int) \<Rightarrow> RateLimiter \<Rightarrow> RateLimiter" where
  "RateLimiter_cleanup ts rl =
     rl\<lparr>visitors := filter (\<lambda>(ip, v). \<not> rl_window rl <s time_Sub (ts ip) (v_lastSeen v)) (visitors rl)\<rparr>"

definition KeyRateLimiter_Allow :: "int \<Rightarrow> int \<Rightarrow> string \<Rightarrow> KeyRateLimiter \<Rightarrow> KeyRateLimiter \<times> bool" where
  "KeyRateLimiter_Allow t0 t1 key krl =
     (let fresh = (krl\<lparr>krl_keys := AList.update key \<lparr>v_count = 1, v_lastSeen = t1\<rparr> (krl_keys krl)\<rparr>, True)
      in case map_of (krl_keys krl) key of
        None \<Rightarrow> fresh
      | Some v \<Rightarrow>
          if krl_window krl <s time_Sub t0 (v_lastSeen v) then fresh
          else (krl\<lparr>krl_keys := AList.update key \<lparr>v_count = v_count v + 1, v_lastSeen = t1\<rparr> (krl_keys krl)\<rparr>,
                v_count v + 1 \<le>s krl_rate krl))"

definition KeyRateLimiter_cleanup :: "(string \<Rightarrow> int) \<Rightarrow> KeyRateLimiter \<Rightarrow> KeyRateLimiter" where
  "KeyRateLimiter_cleanup ts krl =
     krl\<lparr>krl_keys := filter (\<lambda>(key, v). \<not> krl_window krl <s time_Sub (ts key) (v_lastSeen v)) (krl_keys krl)\<rparr>"

text \<open>The address the middleware charges: the first entry of a forwarding header, which the client
  controls, or else the peer address.\<close>

definition client_ip :: "http_request \<Rightarrow> string" where
  "client_ip r =
     (let forwarded = rq_Header r ''X-Forwarded-For'';
          ip = (if forwarded \<noteq> [] then hd (Split forwarded CHR '','') else rq_RemoteAddr r)
      in TrimSpace ip)"

text \<open>
  \<open>RateLimitMiddleware\<close> in front of a handler \<open>next\<close>. The limiter and the metrics are shared objects, so they are
  parts of the state \<open>'s\<close>: \<open>limiter\<close> and \<open>set_limiter\<close> read and write the one, \<open>meter\<close> applies a function to the other
  unless its pointer is nil. \<open>reply\<close> makes a result of a response.
\<close>

definition RateLimitMiddleware ::
  "('s \<Rightarrow> RateLimiter) \<Rightarrow> (RateLimiter \<Rightarrow> 's \<Rightarrow> 's) \<Rightarrow> ((Metrics \<Rightarrow> Metrics) \<Rightarrow> 's \<Rightarrow> 's) \<Rightarrow> (http_response \<Rightarrow> 'r)
   \<Rightarrow> int \<Rightarrow> int \<Rightarrow> (http_request \<Rightarrow> 's \<Rightarrow> ('s \<times> 'r) outcome) \<Rightarrow> http_request \<Rightarrow> 's \<Rightarrow> ('s \<times> 'r) outcome"
where
  "RateLimitMiddleware limiter set_limiter meter reply t0 t1 next r s =
     (case RateLimiter_Allow t0 t1 (client_ip r) (limiter s) of
        (rl, False) \<Rightarrow>
          Done (meter (\<lambda>m. m\<lparr>RateLimitHits := RateLimitHits m + 1\<rparr>) (set_limiter rl s),
                reply (http_fail ''rate limit exceeded'' StatusTooManyRequests))
      | (rl, True) \<Rightarrow> next r (set_limiter rl s))"

definition CORS_headers :: "http_request \<Rightarrow> (string, string) gomap" where
  "CORS_headers r =
     (let origin = rq_Header r ''Origin'' in
      [(''Access-Control-Allow-Origin'', if origin = [] then ''*'' else origin),
       (''Access-Control-Allow-Methods'', ''GET, POST, PUT, PATCH, DELETE, OPTIONS''),
       (''Access-Control-Allow-Headers'', ''Content-Type, Authorization, X-User-Token, X-API-Key''),
       (''Access-Control-Allow-Credentials'', ''true''),
       (''Access-Control-Max-Age'', ''86400'')])"

text \<open>The headers are set before the handler runs, so the handler's own settings win. \<open>reply\<close> makes a result of a
  response, and \<open>with_headers\<close> changes the headers a result is written with, if it is written by this server.\<close>

definition add_headers :: "(string, string) gomap \<Rightarrow> (string, string) gomap \<Rightarrow> (string, string) gomap" where
  "add_headers old new = foldl (\<lambda>m (k, v). AList.update k v m) old new"

definition CORSMiddleware ::
  "(http_response \<Rightarrow> 'r) \<Rightarrow> (((string, string) gomap \<Rightarrow> (string, string) gomap) \<Rightarrow> 'r \<Rightarrow> 'r)
   \<Rightarrow> (http_request \<Rightarrow> 's \<Rightarrow> ('s \<times> 'r) outcome) \<Rightarrow> http_request \<Rightarrow> 's \<Rightarrow> ('s \<times> 'r) outcome" where
  "CORSMiddleware reply with_headers next r s =
     (if rq_Method r = ''OPTIONS''
      then Done (s, reply \<lparr>rs_Status = StatusOK, rs_Headers = CORS_headers r, rs_Body = []\<rparr>)
      else and_then (next r s) (\<lambda>(s', res). Done (s', with_headers (add_headers (CORS_headers r)) res)))"

section \<open>Request sequences\<close>

text \<open>\<open>serve allow reqs s\<close> handles the requests \<open>(t0, t1, key)\<close> in order and returns their decisions;
  \<open>decisions_for\<close> picks those of one key.\<close>

fun serve ::
  "(int \<Rightarrow> int \<Rightarrow> string \<Rightarrow> 's \<Rightarrow> 's \<times> bool) \<Rightarrow> (int \<times> int \<times> string) list \<Rightarrow> 's \<Rightarrow> bool list" where
  "serve allow [] s = []"
| "serve allow ((t0, t1, key) # reqs) s =
     (case allow t0 t1 key s of (s', b) \<Rightarrow> b # serve allow reqs s')"

definition decisions_for :: "string \<Rightarrow> (int \<times> int \<times> string) list \<Rightarrow> bool list \<Rightarrow> bool list" where
  "decisions_for key reqs bs = map snd (filter (\<lambda>(r, b). snd (snd r) = key) (zip reqs bs))"

definition reqs_of :: "string \<Rightarrow> (int \<times> int \<times> string) list \<Rightarrow> (int \<times> int \<times> string) list" where
  "reqs_of key reqs = filter (\<lambda>r. snd (snd r) = key) reqs"

text \<open>Every request comes within a window of the one before it.\<close>

fun steady :: "64 word \<Rightarrow> int \<Rightarrow> (int \<times> int \<times> string) list \<Rightarrow> bool" where
  "steady w prev [] = True"
| "steady w prev ((t0, t1, _) # reqs) = (time_Sub t0 prev \<le>s w \<and> steady w t1 reqs)"

lemma sint_int64: "- (2 ^ 63) \<le> i \<Longrightarrow> i < 2 ^ 63 \<Longrightarrow> sint (word_of_int i :: 64 word) = i"
  unfolding sint_sbintrunc' by (intro signed_take_bit_int_eq_self) simp_all

lemma sint_time_Sub: "sint (time_Sub t u) = max (- (2 ^ 63)) (min (2 ^ 63 - 1) (t - u))"
  unfolding time_Sub_def by (rule sint_int64) auto

text \<open>Once the window is over it stays over.\<close>

lemma time_Sub_later: "w <s time_Sub t u \<Longrightarrow> t \<le> t' \<Longrightarrow> w <s time_Sub t' u"
  unfolding word_sless_alt sint_time_Sub by linarith

lemma not_word_sless: "\<not> a <s b \<longleftrightarrow> b \<le>s a"
  by (simp add: word_sless_alt word_sle_eq not_less)

section \<open>The contract of a limiter\<close>

locale window_limiter =
  fixes allow :: "int \<Rightarrow> int \<Rightarrow> string \<Rightarrow> 's \<Rightarrow> 's \<times> bool"
    and seen :: "'s \<Rightarrow> string \<Rightarrow> visitor option"
    and rate :: "'s \<Rightarrow> 64 word"
    and window :: "'s \<Rightarrow> 64 word"
  assumes allow_fresh:
      "(case seen s key of None \<Rightarrow> True | Some v \<Rightarrow> window s <s time_Sub t0 (v_lastSeen v)) \<Longrightarrow>
       allow t0 t1 key s = (s', b) \<Longrightarrow> b \<and> seen s' key = Some \<lparr>v_count = 1, v_lastSeen = t1\<rparr>"
    and allow_again:
      "seen s key = Some v \<Longrightarrow> time_Sub t0 (v_lastSeen v) \<le>s window s \<Longrightarrow> allow t0 t1 key s = (s', b) \<Longrightarrow>
       b = (v_count v + 1 \<le>s rate s) \<and> seen s' key = Some \<lparr>v_count = v_count v + 1, v_lastSeen = t1\<rparr>"
    and allow_frame:
      "allow t0 t1 key s = (s', b) \<Longrightarrow>
       (key' \<noteq> key \<longrightarrow> seen s' key' = seen s key') \<and> rate s' = rate s \<and> window s' = window s"
begin

text \<open>A decision about a key depends on what the limiter knows of that key only.\<close>

lemma allow_determined:
  assumes "seen s key = seen t key" and "rate s = rate t" and "window s = window t"
    and "allow t0 t1 key s = (s', b)" and "allow t0 t1 key t = (t', c)"
  shows "b = c \<and> seen s' key = seen t' key"
proof (cases "case seen s key of None \<Rightarrow> True | Some v \<Rightarrow> window s <s time_Sub t0 (v_lastSeen v)")
  case True
  with assms(1-3) have True': "case seen t key of None \<Rightarrow> True | Some v \<Rightarrow> window t <s time_Sub t0 (v_lastSeen v)"
    by (simp split: option.splits)
  from allow_fresh [OF True assms(4)] allow_fresh [OF True' assms(5)] show ?thesis by simp
next
  case False
  then obtain v where "seen s key = Some v" and "time_Sub t0 (v_lastSeen v) \<le>s window s"
    by (auto simp: not_word_sless split: option.splits)
  with assms allow_again [of s key v t0 t1 s' b] allow_again [of t key v t0 t1 t' c]
  show ?thesis by simp
qed

text \<open>The decisions about a key are those it would get if nobody else sent anything.\<close>

lemma serve_isolated:
  assumes "seen s key = seen t key" and "rate s = rate t" and "window s = window t"
  shows "decisions_for key reqs (serve allow reqs s) = serve allow (reqs_of key reqs) t"
  using assms
proof (induction reqs arbitrary: s t)
  case Nil
  then show ?case by (simp add: decisions_for_def reqs_of_def)
next
  case (Cons r reqs)
  obtain t0 t1 k where r: "r = (t0, t1, k)" by (cases r)
  obtain s' b where s': "allow t0 t1 k s = (s', b)" by (cases "allow t0 t1 k s")
  obtain t' c where t': "allow t0 t1 k t = (t', c)" by (cases "allow t0 t1 k t")
  note fs = allow_frame [OF s'] and ft = allow_frame [OF t']
  show ?case
  proof (cases "k = key")
    case True
    have "b = c \<and> seen s' key = seen t' key"
      using allow_determined [of s key t t0 t1 s' b t' c] Cons.prems s' t' True by simp
    with Cons.IH [of s' t'] Cons.prems fs ft show ?thesis
      by (simp add: r True s' [unfolded True] t' [unfolded True] decisions_for_def reqs_of_def)
  next
    case False
    with Cons.IH [of s' t] Cons.prems fs show ?thesis
      by (simp add: r s' decisions_for_def reqs_of_def)
  qed
qed

text \<open>While the requests of a key keep coming within a window of each other its count only grows.\<close>

lemma serve_steady_again:
  assumes "seen s key = Some v" and "steady (window s) (v_lastSeen v) reqs"
    and "\<forall>r \<in> set reqs. snd (snd r) = key"
  shows "serve allow reqs s = map (\<lambda>i. v_count v + 1 + word_of_nat i \<le>s rate s) [0..<length reqs]"
  using assms
proof (induction reqs arbitrary: s v)
  case Nil
  then show ?case by simp
next
  case (Cons r reqs)
  obtain t0 t1 k where r: "r = (t0, t1, k)" by (cases r)
  with Cons.prems have k: "k = key" and gap: "time_Sub t0 (v_lastSeen v) \<le>s window s"
    and rest: "steady (window s) t1 reqs"
    by auto
  obtain s' b where s': "allow t0 t1 key s = (s', b)" by (cases "allow t0 t1 key s")
  note a = allow_again [OF Cons.prems(1) gap s'] and f = allow_frame [OF s']
  have "serve allow reqs s' =
      map (\<lambda>i. v_count v + 1 + 1 + word_of_nat i \<le>s rate s) [0..<length reqs]"
    using Cons.IH [of s' "\<lparr>v_count = v_count v + 1, v_lastSeen = t1\<rparr>"] a f rest Cons.prems(3)
    by simp
  moreover have "map (\<lambda>i. v_count v + 1 + word_of_nat i \<le>s rate s) [0..<Suc (length reqs)] =
      (v_count v + 1 \<le>s rate s) # map (\<lambda>i. v_count v + 1 + 1 + word_of_nat i \<le>s rate s) [0..<length reqs]"
    by (simp only: upt_conv_Cons zero_less_Suc list.map map_Suc_upt [symmetric] map_map comp_def)
       (simp add: add_ac)
  ultimately show ?case using a by (simp add: r k s' del: upt_Suc)
qed

lemma serve_steady_new:
  assumes "seen s key = None" and "reqs = (t0, t1, key) # rest" and "steady (window s) t1 rest"
    and "\<forall>r \<in> set rest. snd (snd r) = key"
  shows "serve allow reqs s = True # map (\<lambda>i. 2 + word_of_nat i \<le>s rate s) [0..<length rest]"
proof -
  obtain s' b where s': "allow t0 t1 key s = (s', b)" by (cases "allow t0 t1 key s")
  have "b \<and> seen s' key = Some \<lparr>v_count = 1, v_lastSeen = t1\<rparr>"
    using assms(1) by (intro allow_fresh [OF _ s']) simp
  moreover have "rate s' = rate s" "window s' = window s" using allow_frame [OF s'] by simp_all
  ultimately show ?thesis
    using serve_steady_again [of s' key "\<lparr>v_count = 1, v_lastSeen = t1\<rparr>" rest] assms s' by simp
qed

end

locale cleaned_limiter = window_limiter allow seen rate window
  for allow :: "int \<Rightarrow> int \<Rightarrow> string \<Rightarrow> 's \<Rightarrow> 's \<times> bool" and seen rate window +
  fixes cleanup :: "(string \<Rightarrow> int) \<Rightarrow> 's \<Rightarrow> 's" and wf :: "'s \<Rightarrow> bool"
  assumes cleanup_seen: "wf s \<Longrightarrow> seen (cleanup ts s) key =
      (case seen s key of None \<Rightarrow> None
       | Some v \<Rightarrow> if window s <s time_Sub (ts key) (v_lastSeen v) then None else Some v)"
    and cleanup_frame: "rate (cleanup ts s) = rate s" "window (cleanup ts s) = window s"
begin

text \<open>A cleanup that ran before a request changes neither its decision nor what is stored for it.\<close>

lemma cleanup_unobservable:
  assumes "wf s" and "ts key \<le> t0"
    and "allow t0 t1 key s = (s', b)" and "allow t0 t1 key (cleanup ts s) = (s'', c)"
  shows "b = c \<and> seen s'' key = seen s' key"
proof (cases "\<exists>v. seen s key = Some v \<and> window s <s time_Sub (ts key) (v_lastSeen v)")
  case True
  then obtain v where v: "seen s key = Some v" "window s <s time_Sub (ts key) (v_lastSeen v)" by blast
  with assms(2) have "window s <s time_Sub t0 (v_lastSeen v)" using time_Sub_later by blast
  with v have "b \<and> seen s' key = Some \<lparr>v_count = 1, v_lastSeen = t1\<rparr>"
    by (intro allow_fresh [OF _ assms(3)]) simp
  moreover have "c \<and> seen s'' key = Some \<lparr>v_count = 1, v_lastSeen = t1\<rparr>"
    using v by (intro allow_fresh [OF _ assms(4)]) (simp add: cleanup_seen [OF assms(1)])
  ultimately show ?thesis by simp
next
  case False
  then have "seen (cleanup ts s) key = seen s key"
    by (auto simp: cleanup_seen [OF assms(1)] split: option.splits)
  then show ?thesis
    using allow_determined [of "cleanup ts s" key s t0 t1 s'' c s' b] assms cleanup_frame by auto
qed

end

section \<open>The two limiters\<close>

definition limiter_ok :: "RateLimiter \<Rightarrow> bool" where
  "limiter_ok rl \<longleftrightarrow> gomap_ok (visitors rl)"

definition key_limiter_ok :: "KeyRateLimiter \<Rightarrow> bool" where
  "key_limiter_ok krl \<longleftrightarrow> gomap_ok (krl_keys krl)"

interpretation ip_limiter: cleaned_limiter RateLimiter_Allow "\<lambda>rl. map_of (visitors rl)" rl_rate
  rl_window RateLimiter_cleanup limiter_ok
  by unfold_locales
    (auto simp: RateLimiter_Allow_def RateLimiter_cleanup_def limiter_ok_def Let_def map_of_filter
      not_word_sless [symmetric] split: option.splits if_splits)

interpretation key_limiter: cleaned_limiter KeyRateLimiter_Allow "\<lambda>krl. map_of (krl_keys krl)" krl_rate
  krl_window KeyRateLimiter_cleanup key_limiter_ok
  by unfold_locales
    (auto simp: KeyRateLimiter_Allow_def KeyRateLimiter_cleanup_def key_limiter_ok_def Let_def
      map_of_filter not_word_sless [symmetric] split: option.splits if_splits)

section \<open>Properties\<close>

text \<open>The decisions about the second and the later ones of \<open>n + 1\<close> steady requests. The counter wraps, so the request that brings it
  to \<open>2 ^ 63\<close> is admitted again; before that, the decisions are those of a counter that does not wrap.\<close>

definition steady_decisions :: "64 word \<Rightarrow> nat \<Rightarrow> bool list" where
  "steady_decisions rate n = map (\<lambda>i. 2 + word_of_nat i \<le>s rate) [0..<n]"

lemma steady_decisions_up_to_wrap:
  assumes "int n < 2 ^ 63 - 1"
  shows "steady_decisions rate n = map (\<lambda>i. 2 + int i \<le> sint rate) [0..<n]"
proof -
  have "sint (2 + word_of_nat i :: 64 word) = 2 + int i" if "i < n" for i
  proof -
    have "2 + word_of_nat i = (word_of_int (2 + int i) :: 64 word)" by simp
    moreover have "sint (word_of_int (2 + int i) :: 64 word) = 2 + int i"
      using that assms by (intro sint_int64) simp_all
    ultimately show ?thesis by simp
  qed
  then show ?thesis by (simp add: steady_decisions_def word_sle_eq)
qed

lemma steady_decisions_wrap:
  assumes "n > 2 ^ 63 - 2"
  shows "steady_decisions rate n ! (2 ^ 63 - 2)"
proof -
  have "sint (2 + word_of_nat (2 ^ 63 - 2) :: 64 word) \<le> sint rate"
    using sint_greater_eq [of rate] by simp
  then show ?thesis using assms by (simp add: steady_decisions_def word_sle_eq del: of_nat_numeral of_nat_diff)
qed

text \<open>C35. While the requests of one address keep coming within a window of each other, the limiter
  admits the first of them and then every one up to the configured rate, and refuses the following ones up to the request
  number \<open>2 ^ 63 - 1\<close>, whatever other addresses send in between; the next one finds the counter wrapped to its least value and
  is admitted again.\<close>

theorem ip_limiter_steady_requests:
  assumes "map_of (visitors rl) ip = None"
    and "reqs_of ip reqs = (t0, t1, ip) # rest" and "steady (rl_window rl) t1 rest"
  shows "(int (length rest) < 2 ^ 63 - 1 \<longrightarrow> decisions_for ip reqs (serve RateLimiter_Allow reqs rl) =
      True # map (\<lambda>i. 2 + int i \<le> sint (rl_rate rl)) [0..<length rest]) \<and>
    (2 ^ 63 - 2 < length rest \<longrightarrow> decisions_for ip reqs (serve RateLimiter_Allow reqs rl) ! (2 ^ 63 - 1))"
proof -
  have "\<forall>r \<in> set rest. snd (snd r) = ip"
    using assms(2) by (auto simp: reqs_of_def filter_eq_Cons_iff)
  then have "serve RateLimiter_Allow (reqs_of ip reqs) rl = True # steady_decisions (rl_rate rl) (length rest)"
    using assms unfolding steady_decisions_def by (intro ip_limiter.serve_steady_new) auto
  then have "decisions_for ip reqs (serve RateLimiter_Allow reqs rl) = True # steady_decisions (rl_rate rl) (length rest)"
    using ip_limiter.serve_isolated [of rl ip rl reqs] by simp
  then show ?thesis
    using steady_decisions_up_to_wrap steady_decisions_wrap by (simp add: nth_Cons')
qed

text \<open>The per-key limiter of the publish endpoint has the same law.\<close>

lemma key_limiter_steady_requests:
  assumes "map_of (krl_keys krl) key = None"
    and "reqs_of key reqs = (t0, t1, key) # rest" and "steady (krl_window krl) t1 rest"
  shows "decisions_for key reqs (serve KeyRateLimiter_Allow reqs krl) = True # steady_decisions (krl_rate krl) (length rest)"
proof -
  have "\<forall>r \<in> set rest. snd (snd r) = key"
    using assms(2) by (auto simp: reqs_of_def filter_eq_Cons_iff)
  then have "serve KeyRateLimiter_Allow (reqs_of key reqs) krl = True # steady_decisions (krl_rate krl) (length rest)"
    using assms unfolding steady_decisions_def by (intro key_limiter.serve_steady_new) auto
  then show ?thesis using key_limiter.serve_isolated [of krl key krl reqs] by simp
qed

text \<open>C36. The background cleanup cannot be observed: on a limiter it ran on earlier, a request gets
  the decision it would have got without the cleanup, and leaves the same entry behind.\<close>

theorem cleanup_transparent:
  assumes "limiter_ok rl" and "ts ip \<le> t0"
  shows "snd (RateLimiter_Allow t0 t1 ip (RateLimiter_cleanup ts rl)) = snd (RateLimiter_Allow t0 t1 ip rl) \<and>
    map_of (visitors (fst (RateLimiter_Allow t0 t1 ip (RateLimiter_cleanup ts rl)))) ip =
    map_of (visitors (fst (RateLimiter_Allow t0 t1 ip rl))) ip"
proof -
  obtain a b where ab: "RateLimiter_Allow t0 t1 ip rl = (a, b)"
    by (cases "RateLimiter_Allow t0 t1 ip rl")
  obtain c d where cd: "RateLimiter_Allow t0 t1 ip (RateLimiter_cleanup ts rl) = (c, d)"
    by (cases "RateLimiter_Allow t0 t1 ip (RateLimiter_cleanup ts rl)")
  show ?thesis using ip_limiter.cleanup_unobservable [OF assms ab cd] ab cd by simp
qed

text \<open>The middleware runs the handler exactly when the limiter admits the client's address; a
  refused request is answered with status 429, counted once, and does not reach the handler.\<close>

lemma RateLimitMiddleware_gate:
  "RateLimitMiddleware limiter set_limiter meter reply t0 t1 next r s =
     (let (rl, admitted) = RateLimiter_Allow t0 t1 (client_ip r) (limiter s) in
      if admitted then next r (set_limiter rl s)
      else Done (meter (\<lambda>m. m\<lparr>RateLimitHits := RateLimitHits m + 1\<rparr>) (set_limiter rl s),
             reply (http_fail ''rate limit exceeded'' 429)))"
  by (auto simp: RateLimitMiddleware_def StatusTooManyRequests_def split: prod.splits bool.splits)

text \<open>An address the limiter has not seen is admitted. Without a forwarding header the address is the peer's with its
  port, so that every new connection counts as a new client; with one it is whatever the client wrote there.\<close>

lemma unseen_admitted: "map_of (visitors rl) ip = None \<Longrightarrow> snd (RateLimiter_Allow t0 t1 ip rl)"
  by (simp add: RateLimiter_Allow_def)

section \<open>Witnesses\<close>

text \<open>A client that sends one request every 30 seconds under a limit of two per minute is refused
  from its third request on.\<close>

theorem ip_limiter_steady_requests_witness:
  "decisions_for ''a'' [(0, 0, ''a''), (5, 5, ''b''), (30, 30, ''a''), (60, 60, ''a'')]
     (serve RateLimiter_Allow [(0, 0, ''a''), (5, 5, ''b''), (30, 30, ''a''), (60, 60, ''a'')]
        (NewRateLimiter 2 60)) = [True, True, False]"
  using ip_limiter_steady_requests [of "NewRateLimiter 2 60" "''a''"
      "[(0, 0, ''a''), (5, 5, ''b''), (30, 30, ''a''), (60, 60, ''a'')]" 0 0
      "[(30, 30, ''a''), (60, 60, ''a'')]"]
  by (simp add: NewRateLimiter_def reqs_of_def upt_rec word_sle_eq sint_time_Sub del: serve.simps)

theorem cleanup_transparent_witness:
  "snd (RateLimiter_Allow 200 200 ''a''
      (RateLimiter_cleanup (\<lambda>_. 150) (fst (RateLimiter_Allow 0 0 ''a'' (NewRateLimiter 2 60))))) =
   snd (RateLimiter_Allow 200 200 ''a'' (fst (RateLimiter_Allow 0 0 ''a'' (NewRateLimiter 2 60))))"
  using cleanup_transparent [of "fst (RateLimiter_Allow 0 0 ''a'' (NewRateLimiter 2 60))"
      "\<lambda>_. 150" "''a''" 200 200]
  by (simp add: limiter_ok_def gomap_ok_def RateLimiter_Allow_def NewRateLimiter_def Let_def)

end
