(* ===== verification/HttpServer.thy ===== *)
theory HttpServer
  imports HubSystem SseHandler Webhooks RateLimit
begin

text \<open>
  \<^verbatim>\<open>cmd/server/main.go\<close>: the handlers of the HTTP API, on the state that \<^verbatim>\<open>main\<close> builds and shares among them. The
  broker and the bridge are the ones the hub holds, the access rules and the metrics too. Each handler is given
  without the rate limiter around it, whose theory says what the middleware does; a panic of a handler is a
  \<open>Panic\<close> outcome. The values a handler reads from outside (the clock, the random source, the disk) are arguments.
  Go writes a map with its keys sorted, so the objects below list their entries in that order.
\<close>

record Server =
  sv_keys :: APIKeyStore
  sv_hub :: Hub
  sv_webhooks :: WebhookManager
  sv_jwt :: "JWTAuth option"
  sv_globalLimiter :: RateLimiter
  sv_publishLimiter :: RateLimiter
  sv_keyLimiter :: KeyRateLimiter
  sv_deliveries :: "(Webhook \<times> Payload) list"

type_synonym handler = "http_request \<Rightarrow> Server \<Rightarrow> (Server \<times> http_response) outcome"

definition main_state :: "string option \<Rightarrow> string \<Rightarrow> string \<Rightarrow> (string list \<Rightarrow> bool) \<Rightarrow> random_source \<Rightarrow> string \<Rightarrow> int \<Rightarrow> Server" where
  "main_state file jwtSecret jwtIssuer connect rnd valkeyURL now =
     \<lparr>sv_keys = NewAPIKeyStore file,
      sv_hub = SetSSE NewSSEBroker (SetValkey (NewBridge connect rnd valkeyURL) (Hub_New NewACLManager (Metrics_New now))),
      sv_webhooks = NewManager,
      sv_jwt = NewJWTAuth jwtSecret (if jwtIssuer = [] then ''synchub'' else jwtIssuer),
      sv_globalLimiter = NewRateLimiter 100 (60 * 1000000000),
      sv_publishLimiter = NewRateLimiter 200 (60 * 1000000000),
      sv_keyLimiter = NewKeyRateLimiter 1000 (60 * 1000000000),
      sv_deliveries = []\<rparr>"

definition jnat :: "nat \<Rightarrow> json" where
  "jnat n = JNum (itoa (int n))"

definition on_metrics :: "(Metrics \<Rightarrow> Metrics) \<Rightarrow> Hub \<Rightarrow> Hub" where
  "on_metrics f h = h\<lparr>hb_metrics := f (hb_metrics h)\<rparr>"

section \<open>Key management\<close>

definition handle_revoke :: "bool \<Rightarrow> string option \<Rightarrow> handler" where
  "handle_revoke write_ok junk r sv =
     (let key = rq_Query r ''key'' in
      if key = [] then Done (sv, http_fail ''key param required'' StatusBadRequest)
      else and_then (Revoke write_ok junk key (sv_keys sv)) (\<lambda>(ks, found).
        if \<not> found then Done (sv\<lparr>sv_keys := ks\<rparr>, http_fail ''key not found'' StatusNotFound)
        else and_then (DisconnectKey key (sv_hub sv)) (\<lambda>(h1, wsDropped).
          (case hb_sse h1 of
             None \<Rightarrow> Panic NilDereference
           | Some b \<Rightarrow> and_then (DisconnectKey_sse key b) (\<lambda>(b', sseDropped).
               Done (sv\<lparr>sv_keys := ks,
                 sv_hub := on_metrics (\<lambda>m. m\<lparr>KeyRevocations := KeyRevocations m + 1\<rparr>) (h1\<lparr>hb_sse := Some b'\<rparr>)\<rparr>,
                 json_reply (json_text (JObj [(''sse_dropped'', jnat sseDropped), (''status'', JStr ''revoked''),
                   (''ws_dropped'', jnat wsDropped)]))))))))"

section \<open>Publishing\<close>

record publish_req =
  pr_Channel :: string
  pr_Event :: string
  pr_Data :: json
  pr_Publisher :: string

definition set_publish_field ::
  "(string \<Rightarrow> string option) \<Rightarrow> string \<Rightarrow> json \<Rightarrow> publish_req \<Rightarrow> publish_req option" where
  "set_publish_field fl n j q =
     (if n = ''channel'' then map_option (\<lambda>s. q\<lparr>pr_Channel := s\<rparr>) (decode_str j (pr_Channel q))
      else if n = ''event'' then map_option (\<lambda>s. q\<lparr>pr_Event := s\<rparr>) (decode_str j (pr_Event q))
      else if n = ''data'' then map_option (\<lambda>v. q\<lparr>pr_Data := v\<rparr>) (to_iface fl j)
      else map_option (\<lambda>s. q\<lparr>pr_Publisher := s\<rparr>) (decode_str j (pr_Publisher q)))"

text \<open>The body is read through a \<^verbatim>\<open>MaxBytesReader\<close>: a value that does not end within the first megabyte cannot be
  decoded. The decoder sees the end of an object or an array at its last byte, that of any other value at the byte
  after it.\<close>

definition json_decode_limited :: "nat \<Rightarrow> string \<Rightarrow> json option" where
  "json_decode_limited n body = (case json_value [] (take n body) of
       None \<Rightarrow> None
     | Some (j, rest) \<Rightarrow> (case j of
           JObj _ \<Rightarrow> Some j
         | JArr _ \<Rightarrow> Some j
         | _ \<Rightarrow> if rest = [] \<and> n < length body then None else Some j))"

definition decode_publish :: "go_env \<Rightarrow> string \<Rightarrow> publish_req option" where
  "decode_publish env body = (case json_decode_limited (2 ^ 20) body of
       None \<Rightarrow> None
     | Some j \<Rightarrow> decode_struct [''channel'', ''event'', ''data'', ''publisher''] (set_publish_field (float_lit env)) j
         \<lparr>pr_Channel = [], pr_Event = [], pr_Data = JNull, pr_Publisher = []\<rparr>)"

text \<open>The loop over the members of the room, with the number of queues that took the message.\<close>

definition publish_offer :: "string \<Rightarrow> cref \<Rightarrow> Hub \<times> nat \<Rightarrow> (Hub \<times> nat) outcome" where
  "publish_offer data r st = (case st of (h, n) \<Rightarrow>
     (case hb_heap h r of
        None \<Rightarrow> Panic NilDereference
      | Some c \<Rightarrow> and_then (try_send data (cl_Send c)) (\<lambda>(q, sent).
          let h' = h\<lparr>hb_heap := (hb_heap h)(r \<mapsto> c\<lparr>cl_Send := q\<rparr>)\<rparr> in
          Done (if sent then (on_metrics (\<lambda>m. m\<lparr>WsMessagesOut := WsMessagesOut m + 1\<rparr>) h', Suc n) else (h', n)))))"

definition publish_message :: "int \<Rightarrow> publish_req \<Rightarrow> Message" where
  "publish_message now q = zero_Message\<lparr>m_Type := pr_Event q, m_Room := pr_Channel q, m_UserID := pr_Publisher q,
     m_Payload := pr_Data q, m_Timestamp := now\<rparr>"

text \<open>Lines 212 to 242: the delivery, once the request has passed its gates.\<close>

definition publish_deliver :: "int \<Rightarrow> int \<Rightarrow> publish_req \<Rightarrow> Server \<Rightarrow> (Server \<times> http_response) outcome" where
  "publish_deliver t0 t1 q sv =
     (let msg = publish_message t0 q; h = sv_hub sv in
      and_then (case map_of (Rooms h) (pr_Channel q) of
                  None \<Rightarrow> Done (h, 0)
                | Some ms \<Rightarrow> each (publish_offer (json_text (Message_json msg))) ms (h, 0)) (\<lambda>(h1, wsCount).
      (case hb_sse h1 of
         None \<Rightarrow> Panic NilDereference
       | Some b \<Rightarrow> and_then (Publish (pr_Channel q) msg b) (\<lambda>(b', sseCount).
           Done (sv\<lparr>sv_hub := on_metrics (\<lambda>m. m\<lparr>MessagesPublished := MessagesPublished m + 1,
                       MessagesDelivered := MessagesDelivered m + word_of_nat (wsCount + sseCount)\<rparr>) (h1\<lparr>hb_sse := Some b'\<rparr>),
                    sv_deliveries := sv_deliveries sv @ Dispatch t1 (pr_Event q) (pr_Channel q) (pr_Data q) (sv_webhooks sv)\<rparr>,
             json_reply (json_text (JObj [(''channel'', JStr (pr_Channel q)), (''sse_delivered'', jnat sseCount),
               (''status'', JStr ''published''), (''ws_delivered'', jnat wsCount)])))))))"

definition handle_publish :: "go_env \<Rightarrow> int \<Rightarrow> int \<Rightarrow> int \<Rightarrow> int \<Rightarrow> handler" where
  "handle_publish env l0 l1 t0 t1 r sv =
     (if rq_Method r \<noteq> ''POST'' then Done (sv, http_fail ''POST only'' StatusMethodNotAllowed)
      else let apiKey = header_key r in
        and_then (Validate (unicode_lower env) (sv_keys sv) apiKey (request_origin r)) (\<lambda>v. case v of
          Inl err \<Rightarrow> Done (sv, http_fail err StatusForbidden)
        | Inr _ \<Rightarrow> (case KeyRateLimiter_Allow l0 l1 apiKey (sv_keyLimiter sv) of
            (kl, False) \<Rightarrow>
              Done (sv\<lparr>sv_keyLimiter := kl,
                  sv_hub := on_metrics (\<lambda>m. m\<lparr>RateLimitHits := RateLimitHits m + 1\<rparr>) (sv_hub sv)\<rparr>,
                http_fail ''per-key rate limit exceeded'' StatusTooManyRequests)
          | (kl, True) \<Rightarrow>
              let sv1 = sv\<lparr>sv_keyLimiter := kl\<rparr> in
              (case decode_publish env (rq_Body r) of
                 None \<Rightarrow> Done (sv1, http_fail ''invalid JSON or payload too large (max 1MB)'' StatusBadRequest)
               | Some q0 \<Rightarrow>
                   if pr_Channel q0 = [] then Done (sv1, http_fail ''channel required'' StatusBadRequest)
                   else
                     let q1 = (if pr_Event q0 = [] then q0\<lparr>pr_Event := ''message''\<rparr> else q0) in
                     and_then (if pr_Publisher q1 = []
                               then (case Get (sv_keys sv1) apiKey of None \<Rightarrow> Panic NilDereference
                                     | Some k \<Rightarrow> Done (q1\<lparr>pr_Publisher := ak_Name k\<rparr>))
                               else Done q1) (\<lambda>q.
                     if \<not> CanWrite (unicode_lower env) (hb_acl (sv_hub sv1)) (pr_Channel q) []
                     then Done (sv1, http_fail ''write permission denied for this channel'' StatusForbidden)
                     else publish_deliver t0 t1 q sv1)))))"

section \<open>Presence\<close>

definition handle_channels :: "go_env \<Rightarrow> handler" where
  "handle_channels env r sv =
     and_then (slice_from (length ''/channels/'') (rq_Path r)) (\<lambda>path.
     if length path < 2 then Done (sv, http_fail ''channel name required'' StatusBadRequest)
     else if length ''/presence'' < length path \<and> HasSuffix path ''/presence'' then
       let channelName = take (length path - length ''/presence'') path in
       and_then (Validate (unicode_lower env) (sv_keys sv) (header_key r) (request_origin r)) (\<lambda>v. case v of
         Inl err \<Rightarrow> Done (sv, http_fail err StatusForbidden)
       | Inr _ \<Rightarrow> and_then (GetRoomMembers channelName (sv_hub sv)) (\<lambda>ms.
           Done (sv, json_reply (json_text (JObj [(''channel'', JStr channelName), (''count'', jnat (length ms)),
             (''members'', JArr (map JStr ms))])))))
     else Done (sv, http_fail ''use /channels/{name}/presence'' StatusNotFound))"

section \<open>Tokens\<close>

record token_req =
  tr_UserID :: string
  tr_DisplayName :: string
  tr_Roles :: "string list"
  tr_Channels :: "string list"
  tr_Permissions :: "(string, string) gomap"
  tr_TTL :: int

definition set_token_field :: "string \<Rightarrow> json \<Rightarrow> token_req \<Rightarrow> token_req option" where
  "set_token_field n j q =
     (if n = ''user_id'' then map_option (\<lambda>s. q\<lparr>tr_UserID := s\<rparr>) (decode_str j (tr_UserID q))
      else if n = ''display_name'' then map_option (\<lambda>s. q\<lparr>tr_DisplayName := s\<rparr>) (decode_str j (tr_DisplayName q))
      else if n = ''roles'' then map_option (\<lambda>l. q\<lparr>tr_Roles := l\<rparr>) (decode_str_list j)
      else if n = ''channels'' then map_option (\<lambda>l. q\<lparr>tr_Channels := l\<rparr>) (decode_str_list j)
      else if n = ''permissions'' then map_option (\<lambda>p. q\<lparr>tr_Permissions := p\<rparr>) (decode_str_map j (tr_Permissions q))
      else map_option (\<lambda>i. q\<lparr>tr_TTL := i\<rparr>) (decode_int64 j (tr_TTL q)))"

definition decode_token :: "string \<Rightarrow> token_req option" where
  "decode_token body = (case json_decode body of
       None \<Rightarrow> None
     | Some j \<Rightarrow> decode_struct [''user_id'', ''display_name'', ''roles'', ''channels'', ''permissions'', ''ttl_seconds'']
         set_token_field j
         \<lparr>tr_UserID = [], tr_DisplayName = [], tr_Roles = [], tr_Channels = [], tr_Permissions = [], tr_TTL = 0\<rparr>)"

text \<open>\<^verbatim>\<open>time.Duration(req.TTL) * time.Second\<close> is a product of two \<^verbatim>\<open>int64\<close> and wraps.\<close>

definition token_ttl :: "int \<Rightarrow> int" where
  "token_ttl ttl = (if 0 < ttl then sint (word_of_int ttl * word_of_int 1000000000 :: 64 word)
     else 24 * 3600 * 1000000000)"

text \<open>\<open>secs\<close> is \<^verbatim>\<open>int(ttl.Seconds())\<close>, which goes through a \<^verbatim>\<open>float64\<close>.\<close>

definition handle_token :: "go_env \<Rightarrow> (int \<Rightarrow> int) \<Rightarrow> jwt_lib \<Rightarrow> int \<Rightarrow> int \<Rightarrow> handler" where
  "handle_token env secs lib t0 t1 r sv =
     (if rq_Method r \<noteq> ''POST'' then Done (sv, http_fail ''POST only'' StatusMethodNotAllowed)
      else case sv_jwt sv of
        None \<Rightarrow> Done (sv, http_fail ''JWT auth not configured (set JWT_SECRET env var)'' StatusServiceUnavailable)
      | Some j \<Rightarrow>
          and_then (Validate (unicode_lower env) (sv_keys sv) (header_key r) (request_origin r)) (\<lambda>v. case v of
            Inl err \<Rightarrow> Done (sv, http_fail err StatusForbidden)
          | Inr _ \<Rightarrow> (case decode_token (rq_Body r) of
              None \<Rightarrow> Done (sv, http_fail ''invalid JSON'' StatusBadRequest)
            | Some q \<Rightarrow>
                if tr_UserID q = [] then Done (sv, http_fail ''user_id required'' StatusBadRequest)
                else let ttl = token_ttl (tr_TTL q) in
                  (case GenerateToken lib j (tr_UserID q) (tr_DisplayName q) (tr_Roles q) (tr_Channels q)
                          (tr_Permissions q) ttl t0 t1 of
                     Inl err \<Rightarrow> Done (sv, http_fail err StatusInternalServerError)
                   | Inr token \<Rightarrow> Done (sv, json_reply (json_text (JObj [(''expires_in'', JNum (itoa (secs ttl))),
                       (''token'', JStr token), (''user_id'', JStr (tr_UserID q))])))))))"

section \<open>Health and statistics\<close>

definition handle_health :: "bool \<Rightarrow> int \<Rightarrow> handler" where
  "handle_health ping now r sv = (case (hb_sse (sv_hub sv), hb_valkey (sv_hub sv)) of
       (Some b, Some vb) \<Rightarrow>
         Done (sv, json_reply (json_text (JObj [(''jwt_enabled'', JBool (sv_jwt sv \<noteq> None)),
           (''sse_subscribers'', jnat (TotalSubscribers b)), (''status'', JStr ''ok''), (''timestamp'', JNum (itoa now)),
           (''valkey'', Bridge_Stats ping vb), (''ws_channels'', jnat (RoomCount (sv_hub sv))),
           (''ws_connections'', jnat (ClientCount (sv_hub sv)))])))
     | _ \<Rightarrow> Panic NilDereference)"

definition handle_stats :: "int \<Rightarrow> handler" where
  "handle_stats now r sv = (case hb_sse (sv_hub sv) of
       None \<Rightarrow> Panic NilDereference
     | Some b \<Rightarrow> Done (sv, json_reply (json_text (JObj [(''online_users'', JArr (map JStr (GetOnlineUsers (sv_hub sv)))),
         (''sse_subscribers'', jnat (TotalSubscribers b)), (''timestamp'', JNum (itoa now)),
         (''ws_channels'', jnat (RoomCount (sv_hub sv))), (''ws_connections'', jnat (ClientCount (sv_hub sv))),
         (''ws_rooms'', JArr (map JStr (GetRooms (sv_hub sv))))]))))"

lemma json_decode_limited_json_text:
  assumes "json_ok maxNestingDepth j" and "length (json_text j) \<le> n"
  shows "json_decode_limited n (json_text j) = Some j"
  using json_value_json_text [OF assms(1)] assms(2) by (simp add: json_decode_limited_def split: json.split)

section \<open>Publishing is a fan-out over the room and the subscribers\<close>

lemma publish_offer_eq:
  "publish_offer d r (h, n) = (case hb_heap h r of
       None \<Rightarrow> Panic NilDereference
     | Some c \<Rightarrow> if ch_closed (cl_Send c) then Panic SendOnClosedChannel
         else Done (if ch_space (cl_Send c)
           then (on_metrics (\<lambda>m. m\<lparr>WsMessagesOut := WsMessagesOut m + 1\<rparr>) (posted d r c h), Suc n) else (posted d r c h, n)))"
  by (simp add: publish_offer_def try_send_def posted_def Let_def del: and_then_eq_Done split: option.split)

lemma on_metrics_views [simp]:
  "hub_inbox (on_metrics f h) = hub_inbox h" "hub_space (on_metrics f h) = hub_space h"
  "hub_live (on_metrics f h) = hub_live h" "hb_sse (on_metrics f h) = hb_sse h" "Rooms (on_metrics f h) = Rooms h"
  "hb_heap (on_metrics f h) = hb_heap h" "Clients (on_metrics f h) = Clients h" "hb_acl (on_metrics f h) = hb_acl h"
  by (auto simp: on_metrics_def hub_inbox_def hub_space_def hub_live_def fun_eq_iff)

lemma publish_offer_Done:
  "publish_offer d r (h, n) = Done (h', n') \<longleftrightarrow> (\<exists>h1. hub_offer d r h = Done h1 \<and>
     (if hub_space h r then h' = on_metrics (\<lambda>m. m\<lparr>WsMessagesOut := WsMessagesOut m + 1\<rparr>) h1 \<and> n' = Suc n
      else h' = h1 \<and> n' = n))"
  by (auto simp: publish_offer_eq hub_offer_eq hub_space_def split: option.splits if_splits)

interpretation pub: counted_fanout publish_offer "\<lambda>st. hub_inbox (fst st)" "\<lambda>st. hub_space (fst st)" "\<lambda>st. hub_live (fst st)" snd
proof
  fix s :: "Hub \<times> nat" and r d
  assume "hub_live (fst s) r"
  then show "\<exists>s'. publish_offer d r s = Done s'"
    by (cases s) (auto simp: hub_live_def publish_offer_eq split: option.splits)
next
  fix d r q and s s' :: "Hub \<times> nat"
  assume "publish_offer d r s = Done s'"
  then obtain h1 where h1: "hub_offer d r (fst s) = Done h1"
    and s': "if hub_space (fst s) r
       then fst s' = on_metrics (\<lambda>m. m\<lparr>WsMessagesOut := WsMessagesOut m + 1\<rparr>) h1 \<and> snd s' = Suc (snd s)
       else fst s' = h1 \<and> snd s' = snd s"
    by (cases s; cases s') (auto simp: publish_offer_Done)
  then have v: "hub_inbox (fst s') = hub_inbox h1" "hub_space (fst s') = hub_space h1" "hub_live (fst s') = hub_live h1"
    by (auto split: if_splits)
  show "hub_inbox (fst s') q = (if q = r \<and> hub_space (fst s) r then hub_inbox (fst s) r @ [d] else hub_inbox (fst s) q)"
    unfolding v by (rule ws.offer_inbox [OF h1])
  show "q \<noteq> r \<Longrightarrow> hub_space (fst s') q = hub_space (fst s) q" unfolding v by (rule ws.offer_space [OF h1])
  show "hub_live (fst s') q = hub_live (fst s) q" unfolding v by (rule ws.offer_keeps_live [OF h1])
  show "snd s' = (if hub_space (fst s) r then Suc (snd s) else snd s)" using s' by auto
qed

lemma publish_loop_inv:
  "each (publish_offer d) ms (h, n) = Done (h', n') \<Longrightarrow> hub_inv ph h \<Longrightarrow> \<forall>r \<in> set ms. open_conn ph r \<Longrightarrow>
   hub_inv ph h' \<and> hb_sse h' = hb_sse h \<and> hb_valkey h' = hb_valkey h \<and> hb_acl h' = hb_acl h"
proof (induction ms arbitrary: h n)
  case (Cons r ms)
  then obtain h1 n1 where step: "publish_offer d r (h, n) = Done (h1, n1)"
    and rest: "each (publish_offer d) ms (h1, n1) = Done (h', n')" by auto
  from step obtain h2 where h2: "hub_offer d r h = Done h2"
    and h1: "h1 = h2 \<or> h1 = on_metrics (\<lambda>m. m\<lparr>WsMessagesOut := WsMessagesOut m + 1\<rparr>) h2"
    by (auto simp: publish_offer_Done split: if_splits)
  have "hub_inv ph h2" using keepsD [OF keeps_hub_offer, of ph r h d] Cons.prems(2,3) h2 by auto
  then have "hub_inv ph h1" using h1 hub_inv_metrics by (auto simp: on_metrics_def)
  moreover have "hb_sse h1 = hb_sse h" "hb_valkey h1 = hb_valkey h" "hb_acl h1 = hb_acl h"
    using h1 hub_offer_same [OF h2] by (auto simp: same_but_queues_def on_metrics_def)
  ultimately show ?case using Cons.IH [OF rest] Cons.prems(3) by simp
qed simp

text \<open>A run of the delivery, with everything it leaves behind.\<close>

lemma publish_deliver_run:
  fixes q :: publish_req
  assumes inv: "hub_inv ph (sv_hub sv)" and sse: "hb_sse (sv_hub sv) = Some b"
  defines "ms \<equiv> members (Rooms (sv_hub sv)) (pr_Channel q)"
    and "ws \<equiv> length (filter (hub_space (sv_hub sv)) (members (Rooms (sv_hub sv)) (pr_Channel q)))"
    and "ev \<equiv> length (filter (sse_space (b, 0)) (subs_of b (pr_Channel q)))"
  shows "\<exists>h b' f. publish_deliver t0 t1 q sv = Done (sv\<lparr>sv_hub := on_metrics f (h\<lparr>hb_sse := Some b'\<rparr>),
      sv_deliveries := sv_deliveries sv @ Dispatch t1 (pr_Event q) (pr_Channel q) (pr_Data q) (sv_webhooks sv)\<rparr>,
      json_reply (json_text (JObj [(''channel'', JStr (pr_Channel q)), (''sse_delivered'', jnat ev),
        (''status'', JStr ''published''), (''ws_delivered'', jnat ws)]))) \<and>
    hub_inv ph h \<and> broker_ok b' \<and> hb_valkey h = hb_valkey (sv_hub sv) \<and> hb_acl h = hb_acl (sv_hub sv) \<and>
    (\<forall>r. hub_inbox h r = (if r \<in> set ms \<and> hub_space (sv_hub sv) r
       then hub_inbox (sv_hub sv) r @ [wire (publish_message t0 q)] else hub_inbox (sv_hub sv) r)) \<and>
    (\<forall>r. sse_inbox (b', 0) r = (if r \<in> set (subs_of b (pr_Channel q)) \<and> sse_space (b, 0) r
       then sse_inbox (b, 0) r @ [wire (publish_message t0 q)] else sse_inbox (b, 0) r))"
proof -
  let ?h = "sv_hub sv" and ?d = "wire (publish_message t0 q)"
  have open_ms: "\<forall>r \<in> set ms. open_conn ph r" using hub_inv_parts(4) [OF inv] by (auto simp: ms_def)
  have dist: "distinct ms" unfolding ms_def by (rule rooms_ok_distinct [OF hub_inv_parts(7) [OF inv]])
  obtain h1 n where run: "each (publish_offer ?d) ms (?h, 0) = Done (h1, n)"
    using pub.each_offer_returns [of ms "(?h, 0)" ?d] open_ms hub_inv_parts(2) [OF inv] by auto
  have loop: "(case map_of (Rooms ?h) (pr_Channel q) of None \<Rightarrow> Done (?h, 0)
      | Some ms \<Rightarrow> each (publish_offer (json_text (Message_json (publish_message t0 q)))) ms (?h, 0)) = Done (h1, n)"
    using run by (simp add: ms_def members_def wire_def split: option.splits)
  have h1: "hub_inv ph h1" "hb_sse h1 = Some b" "hb_valkey h1 = hb_valkey ?h" "hb_acl h1 = hb_acl ?h"
    using publish_loop_inv [OF run inv open_ms] sse by auto
  have n: "n = ws" using pub.each_offer_tally [OF run dist] by (simp add: ws_def ms_def)
  obtain b' where b': "Publish (pr_Channel q) (publish_message t0 q) b = Done (b', ev)" "broker_ok b'"
    "\<forall>r. sse_inbox (b', 0) r = (if r \<in> set (subs_of b (pr_Channel q)) \<and> sse_space (b, 0) r
       then sse_inbox (b, 0) r @ [?d] else sse_inbox (b, 0) r)"
    unfolding ev_def
    using Publish_ok [OF hub_inv_parts(1) [OF inv sse] Marshal_wire, of "pr_Channel q" "publish_message t0 q"] by auto
  have box: "hub_inbox h1 r = (if r \<in> set ms \<and> hub_space ?h r then hub_inbox ?h r @ [?d] else hub_inbox ?h r)" for r
    using pub.each_offer_inbox [OF run dist, of r] by simp
  show ?thesis
    by (rule exI [of _ h1], rule exI [of _ b'], rule exI, intro conjI)
       (use loop h1 b' n box in \<open>simp_all add: publish_deliver_def Let_def\<close>)
qed

section \<open>What the API guarantees\<close>

text \<open>C8. A publication that has passed the gates is delivered: the handler completes and answers 200, every
  member of the room and every subscriber of the channel with space in its queue gets the message once, nobody
  else gets anything, the two numbers it reports are those of the queues reached, and the webhooks chosen by
  \<^verbatim>\<open>Dispatch\<close> are started.\<close>

theorem publish_delivers:
  assumes "hub_inv ph (sv_hub sv)" and "hb_sse (sv_hub sv) = Some b"
  shows "\<exists>sv' resp b'. publish_deliver t0 t1 q sv = Done (sv', resp) \<and> hub_inv ph (sv_hub sv') \<and>
    hb_sse (sv_hub sv') = Some b' \<and> rs_Status resp = 200 \<and>
    rs_Body resp = json_text (JObj [(''channel'', JStr (pr_Channel q)),
      (''sse_delivered'', jnat (length (filter (sse_space (b, 0)) (subs_of b (pr_Channel q))))),
      (''status'', JStr ''published''),
      (''ws_delivered'', jnat (length (filter (hub_space (sv_hub sv)) (members (Rooms (sv_hub sv)) (pr_Channel q)))))])
      @ [CHR 0x0A] \<and>
    (\<forall>r. hub_inbox (sv_hub sv') r =
       (if r \<in> set (members (Rooms (sv_hub sv)) (pr_Channel q)) \<and> hub_space (sv_hub sv) r
        then hub_inbox (sv_hub sv) r @ [wire (publish_message t0 q)] else hub_inbox (sv_hub sv) r)) \<and>
    (\<forall>r. sse_inbox (b', 0) r = (if r \<in> set (subs_of b (pr_Channel q)) \<and> sse_space (b, 0) r
       then sse_inbox (b, 0) r @ [wire (publish_message t0 q)] else sse_inbox (b, 0) r)) \<and>
    sv_deliveries sv' = sv_deliveries sv @ Dispatch t1 (pr_Event q) (pr_Channel q) (pr_Data q) (sv_webhooks sv)"
proof -
  from publish_deliver_run [OF assms, of t0 t1 q] obtain h b' f where run:
    "publish_deliver t0 t1 q sv = Done (sv\<lparr>sv_hub := on_metrics f (h\<lparr>hb_sse := Some b'\<rparr>),
      sv_deliveries := sv_deliveries sv @ Dispatch t1 (pr_Event q) (pr_Channel q) (pr_Data q) (sv_webhooks sv)\<rparr>,
      json_reply (json_text (JObj [(''channel'', JStr (pr_Channel q)),
        (''sse_delivered'', jnat (length (filter (sse_space (b, 0)) (subs_of b (pr_Channel q))))),
        (''status'', JStr ''published''),
        (''ws_delivered'', jnat (length (filter (hub_space (sv_hub sv)) (members (Rooms (sv_hub sv)) (pr_Channel q)))))])))"
    and inv: "hub_inv ph h" "broker_ok b'"
    and boxes: "\<forall>r. hub_inbox h r = (if r \<in> set (members (Rooms (sv_hub sv)) (pr_Channel q)) \<and> hub_space (sv_hub sv) r
        then hub_inbox (sv_hub sv) r @ [wire (publish_message t0 q)] else hub_inbox (sv_hub sv) r)"
      "\<forall>r. sse_inbox (b', 0) r = (if r \<in> set (subs_of b (pr_Channel q)) \<and> sse_space (b, 0) r
        then sse_inbox (b, 0) r @ [wire (publish_message t0 q)] else sse_inbox (b, 0) r)" by blast
  have "hub_inv ph (on_metrics f (h\<lparr>hb_sse := Some b'\<rparr>))"
    using hub_inv_metrics [OF hub_inv_other(2) [OF inv]] by (simp add: on_metrics_def)
  moreover have "hub_inbox (h\<lparr>hb_sse := Some b'\<rparr>) = hub_inbox h" by (simp add: hub_inbox_def fun_eq_iff)
  ultimately show ?thesis using run boxes by (simp add: json_reply_def)
qed

text \<open>C14. Revoking a key takes effect everywhere at once: after a successful \<^verbatim>\<open>/api/keys/revoke\<close> the key is refused
  for every origin, the connection of every registered WebSocket client that uses it is closed, and no
  subscriber that uses it is left in any channel; the reply reports the two numbers.\<close>

theorem revoke_takes_effect:
  assumes "hub_inv ph (sv_hub sv)" and "hb_sse (sv_hub sv) = Some b" and "store_ok (sv_keys sv)"
    and "rq_Query r ''key'' = key" and "key \<noteq> []" and "Get (sv_keys sv) key = Some k"
  shows "\<exists>sv' resp b'. handle_revoke w junk r sv = Done (sv', resp) \<and> rs_Status resp = 200 \<and>
    (\<forall>ul origin. Validate ul (sv_keys sv') key origin = Done (Inl ''API key is deactivated'')) \<and>
    (\<forall>c. c \<in> set (map snd (Clients (sv_hub sv))) \<and> has_key (sv_hub sv) key c \<longrightarrow>
       map_option cl_conn_closed (hb_heap (sv_hub sv') c) = Some True) \<and>
    hb_sse (sv_hub sv') = Some b' \<and> (\<forall>ch c. c \<in> set (subs_of b' ch) \<longrightarrow> \<not> uses_key b key c)"
proof -
  have p: "map_of (keys (sv_keys sv)) key = Some (Some k)"
    using assms(6) by (auto simp: Get_def split: option.splits)
  with assms(3) have len: "8 \<le> length key" by (auto simp: store_ok_def)
  obtain ks where ks: "Revoke w junk key (sv_keys sv) = Done (ks, True)"
    using p len by (simp add: Revoke_def)
  obtain h1 n where h1: "DisconnectKey key (sv_hub sv) = Done (h1, n)" "hub_inv ph h1"
    and heap: "\<forall>c. hb_heap h1 c = (if ph c = Some Active \<and> has_key (sv_hub sv) key c
      then map_option (\<lambda>c. c\<lparr>cl_conn_closed := True\<rparr>) (hb_heap (sv_hub sv) c) else hb_heap (sv_hub sv) c)"
    using DisconnectKey_effect [OF assms(1) len] by blast
  have sse: "hb_sse h1 = Some b" using arg_cong [OF DisconnectKey_frame [OF h1(1)], of hb_sse] assms(2) by simp
  obtain b' m where b': "DisconnectKey_sse key b = Done (b', m)"
    and subs: "\<forall>ch. subs_of b' ch = filter (\<lambda>r. \<not> uses_key b key r) (subs_of b ch)"
    using DisconnectKey_loop [OF hub_inv_parts(1) [OF assms(1,2)], of key] DisconnectKey_long [OF len, of b] by auto
  have closed: "map_option cl_conn_closed (hb_heap h1 c) = Some True"
    if "c \<in> set (map snd (Clients (sv_hub sv)))" "has_key (sv_hub sv) key c" for c
  proof -
    have "ph c = Some Active" using that(1) distinct_clients(2) [OF assms(1)] by blast
    with heap that(2) show ?thesis by (auto simp: has_key_def)
  qed
  show ?thesis
    using assms(4,5) ks h1(1) sse b' subs closed Validate_after_Revoke(1) [OF ks]
    by (simp add: handle_revoke_def Let_def json_reply_def)
qed

text \<open>C38. A channel whose rule is not public and lists permissions cannot be published to over HTTP by anybody,
  unless it lists the empty user: the handler asks for the permission of the user \<^verbatim>\<open>""\<close>. Whatever the request,
  no queue changes and the answer is not a success.\<close>

theorem publish_refused_on_protected_channel:
  assumes "handle_publish env l0 l1 t0 t1 r sv = Done (sv', resp)"
    and "decode_publish env (rq_Body r) = Some q" and "GetChannelACL (hb_acl (sv_hub sv)) (pr_Channel q) = Some acl"
    and "\<not> acl_Public acl" and "elems (acl_Permissions acl) \<noteq> []" and "map_of (elems (acl_Permissions acl)) [] = None"
  shows "400 \<le> rs_Status resp \<and> hub_inbox (sv_hub sv') = hub_inbox (sv_hub sv) \<and>
    hb_sse (sv_hub sv') = hb_sse (sv_hub sv) \<and> sv_deliveries sv' = sv_deliveries sv"
proof -
  have no: "\<not> CanWrite (unicode_lower env) (hb_acl (sv_hub sv)) (pr_Channel q) []"
    using assms(3-6) by (simp add: CanWrite_def GetChannelACL_def)
  show ?thesis
  proof (cases "rq_Method r = ''POST''")
    case True
    from assms(1) True obtain v where v: "Validate (unicode_lower env) (sv_keys sv) (header_key r) (request_origin r) = Done v"
      by (auto simp: handle_publish_def Let_def)
    obtain kl ok where kl: "KeyRateLimiter_Allow l0 l1 (header_key r) (sv_keyLimiter sv) = (kl, ok)" by fastforce
    show ?thesis
    proof (cases v)
      case (Inl err)
      then show ?thesis using assms(1) True v by (auto simp: handle_publish_def Let_def status_defs)
    next
      case (Inr key)
      then show ?thesis using assms(1,2) True v kl no
        by (cases ok; cases "Get (sv_keys sv) (header_key r)")
           (auto simp: handle_publish_def Let_def status_defs split: if_splits)
    qed
  qed (use assms(1) in \<open>auto simp: handle_publish_def status_defs\<close>)
qed

text \<open>C39. The lifetime of a token is the requested number of seconds up to 9223372036 of them, and 24 hours
  when none is requested; one second more and the 64-bit product is negative, so that the token is issued
  already expired.\<close>

theorem token_ttl_bounds:
  "(0 < s \<and> s \<le> 9223372036 \<longrightarrow> token_ttl s = s * 1000000000) \<and>
   (s \<le> 0 \<longrightarrow> token_ttl s = 86400 * 1000000000) \<and> token_ttl 9223372037 < 0"
proof -
  have "token_ttl s = s * 1000000000" if "0 < s" "s \<le> 9223372036"
  proof -
    have "sint (word_of_int (s * 1000000000) :: 64 word) = s * 1000000000"
      unfolding sint_sbintrunc' using that by (intro signed_take_bit_int_eq_self) simp_all
    then show ?thesis using that unfolding token_ttl_def wi_hom_mult by simp
  qed
  moreover have "token_ttl 9223372037 < 0" by (simp add: token_ttl_def)
  ultimately show ?thesis by (simp add: token_ttl_def)
qed

end
