(* ===== verification/AdminApi.thy ===== *)
theory AdminApi
  imports HttpServer
begin

text \<open>
  \<^verbatim>\<open>cmd/server/main.go\<close>, the management endpoints: \<^verbatim>\<open>/api/keys\<close>, \<^verbatim>\<open>/api/keys/update\<close>, \<^verbatim>\<open>/webhooks\<close> and \<^verbatim>\<open>/acl\<close>, each
  handler whole. The structs they decode the body into and the JSON of what they answer are written out from the
  struct tags. None of them asks for an API key.
\<close>

section \<open>Keys\<close>

record create_req =
  cr_Name :: string
  cr_Domains :: "string slice"

definition set_create_field :: "string \<Rightarrow> json \<Rightarrow> create_req \<Rightarrow> create_req option" where
  "set_create_field n j q =
     (if n = ''name'' then map_option (\<lambda>s. q\<lparr>cr_Name := s\<rparr>) (decode_str j (cr_Name q))
      else map_option (\<lambda>l. q\<lparr>cr_Domains := l\<rparr>) (decode_str_slice j))"

definition decode_create :: "string \<Rightarrow> create_req option" where
  "decode_create body = (case json_decode body of
       None \<Rightarrow> None
     | Some j \<Rightarrow> decode_struct [''name'', ''domains''] set_create_field j \<lparr>cr_Name = [], cr_Domains = None\<rparr>)"

definition handle_keys :: "random_source \<Rightarrow> int \<Rightarrow> bool \<Rightarrow> string option \<Rightarrow> handler" where
  "handle_keys rnd now write_ok junk r sv =
     (if rq_Method r = ''POST'' then
        (case decode_create (rq_Body r) of
           None \<Rightarrow> Done (sv, http_fail ''invalid JSON'' StatusBadRequest)
         | Some q \<Rightarrow>
             and_then (GenerateKey rnd now write_ok junk (cr_Name q) (cr_Domains q) (sv_keys sv)) (\<lambda>(ks, res).
               Done (sv\<lparr>sv_keys := ks\<rparr>, case res of
                   Inl err \<Rightarrow> http_fail err StatusBadRequest
                 | Inr apiKey \<Rightarrow> json_reply (json_text (APIKey_json apiKey)))))
      else if rq_Method r = ''GET'' then
        and_then (List_keys (sv_keys sv)) (\<lambda>ks. Done (sv, json_reply (json_text (JArr (map APIKey_json ks)))))
      else Done (sv, http_fail ''method not allowed'' StatusMethodNotAllowed))"

text \<open>The two pointers of the update request: \<^verbatim>\<open>null\<close> is nil, like a missing member.\<close>

record update_req =
  ur_Name :: "string option"
  ur_Domains :: "string slice"
  ur_Active :: "bool option"

definition decode_ptr :: "(json \<Rightarrow> 'a option) \<Rightarrow> json \<Rightarrow> 'a option option" where
  "decode_ptr dec j = (case j of JNull \<Rightarrow> Some None | _ \<Rightarrow> map_option Some (dec j))"

definition set_update_field :: "string \<Rightarrow> json \<Rightarrow> update_req \<Rightarrow> update_req option" where
  "set_update_field n j q =
     (if n = ''name'' then map_option (\<lambda>s. q\<lparr>ur_Name := s\<rparr>) (decode_ptr (\<lambda>j. decode_str j []) j)
      else if n = ''domains'' then map_option (\<lambda>l. q\<lparr>ur_Domains := l\<rparr>) (decode_str_slice j)
      else map_option (\<lambda>b. q\<lparr>ur_Active := b\<rparr>) (decode_ptr (\<lambda>j. decode_bool j False) j))"

definition decode_update :: "string \<Rightarrow> update_req option" where
  "decode_update body = (case json_decode body of
       None \<Rightarrow> None
     | Some j \<Rightarrow> decode_struct [''name'', ''domains'', ''active''] set_update_field j
         \<lparr>ur_Name = None, ur_Domains = None, ur_Active = None\<rparr>)"

definition handle_keys_update :: "int \<Rightarrow> bool \<Rightarrow> string option \<Rightarrow> handler" where
  "handle_keys_update now write_ok junk r sv =
     (if rq_Method r \<noteq> ''PUT'' \<and> rq_Method r \<noteq> ''PATCH''
      then Done (sv, http_fail ''PUT or PATCH only'' StatusMethodNotAllowed)
      else let key = rq_Query r ''key'' in
        if key = [] then Done (sv, http_fail ''key param required'' StatusBadRequest)
        else (case decode_update (rq_Body r) of
            None \<Rightarrow> Done (sv, http_fail ''invalid JSON'' StatusBadRequest)
          | Some q \<Rightarrow>
              and_then (Update now write_ok junk key (ur_Name q) (ur_Domains q) (ur_Active q) (sv_keys sv)) (\<lambda>(ks, res).
                Done (sv\<lparr>sv_keys := ks\<rparr>, case res of
                    Inl err \<Rightarrow> http_fail err StatusNotFound
                  | Inr updated \<Rightarrow> json_reply (json_text (APIKey_json updated))))))"

section \<open>Webhooks\<close>

definition Webhook_json :: "Webhook \<Rightarrow> json" where
  "Webhook_json wh = JObj [(''id'', JStr (wh_ID wh)), (''url'', JStr (wh_URL wh)), (''events'', str_slice_json (wh_Events wh)),
     (''channel'', JStr (wh_Channel wh)), (''secret'', JStr (wh_Secret wh)), (''active'', JBool (wh_Active wh))]"

definition set_Webhook_field :: "string \<Rightarrow> json \<Rightarrow> Webhook \<Rightarrow> Webhook option" where
  "set_Webhook_field n j wh =
     (if n = ''id'' then map_option (\<lambda>s. wh\<lparr>wh_ID := s\<rparr>) (decode_str j (wh_ID wh))
      else if n = ''url'' then map_option (\<lambda>s. wh\<lparr>wh_URL := s\<rparr>) (decode_str j (wh_URL wh))
      else if n = ''events'' then map_option (\<lambda>l. wh\<lparr>wh_Events := l\<rparr>) (decode_str_slice j)
      else if n = ''channel'' then map_option (\<lambda>s. wh\<lparr>wh_Channel := s\<rparr>) (decode_str j (wh_Channel wh))
      else if n = ''secret'' then map_option (\<lambda>s. wh\<lparr>wh_Secret := s\<rparr>) (decode_str j (wh_Secret wh))
      else map_option (\<lambda>b. wh\<lparr>wh_Active := b\<rparr>) (decode_bool j (wh_Active wh)))"

definition decode_Webhook :: "string \<Rightarrow> Webhook option" where
  "decode_Webhook body = (case json_decode body of
       None \<Rightarrow> None
     | Some j \<Rightarrow> decode_struct [''id'', ''url'', ''events'', ''channel'', ''secret'', ''active''] set_Webhook_field j
         \<lparr>wh_ID = [], wh_URL = [], wh_Events = None, wh_Channel = [], wh_Secret = [], wh_Active = False\<rparr>)"

text \<open>\<^verbatim>\<open>Register\<close> sets \<^verbatim>\<open>Active\<close> of the handler's own variable, which is what it answers with. The error of the random
  source is ignored and leaves an empty ID.\<close>

definition handle_webhooks :: "random_source \<Rightarrow> handler" where
  "handle_webhooks rnd r sv =
     (if rq_Method r = ''POST'' then
        (case decode_Webhook (rq_Body r) of
           None \<Rightarrow> Done (sv, http_fail ''invalid JSON'' StatusBadRequest)
         | Some wh0 \<Rightarrow>
             if wh_URL wh0 = [] then Done (sv, http_fail ''url required'' StatusBadRequest)
             else let wh = (if wh_ID wh0 = []
                     then wh0\<lparr>wh_ID := case GenerateRandomKey rnd 16 of Inl _ \<Rightarrow> [] | Inr hid \<Rightarrow> hid\<rparr> else wh0)
               in Done (sv\<lparr>sv_webhooks := Register_webhook wh (sv_webhooks sv)\<rparr>,
                    json_reply (json_text (Webhook_json (wh\<lparr>wh_Active := True\<rparr>)))))
      else if rq_Method r = ''GET'' then
        Done (sv, json_reply (json_text (JArr (map Webhook_json (List_webhooks (sv_webhooks sv))))))
      else if rq_Method r = ''DELETE'' then
        (let hid = rq_Query r ''id'' in
         if hid = [] then Done (sv, http_fail ''id param required'' StatusBadRequest)
         else (case Unregister_webhook hid (sv_webhooks sv) of
             (wm, True) \<Rightarrow> Done (sv\<lparr>sv_webhooks := wm\<rparr>, json_reply (json_text (JObj [(''status'', JStr ''deleted'')])))
           | (wm, False) \<Rightarrow> Done (sv\<lparr>sv_webhooks := wm\<rparr>, http_fail ''webhook not found'' StatusNotFound)))
      else Done (sv, http_fail ''method not allowed'' StatusMethodNotAllowed))"

section \<open>Access rules\<close>

definition ChannelACL_json :: "ChannelACL \<Rightarrow> json" where
  "ChannelACL_json a = JObj [(''channel'', JStr (acl_Channel a)), (''public'', JBool (acl_Public a)),
     (''max_members'', JNum (itoa (acl_MaxMembers a))), (''allowed_keys'', str_slice_json (acl_AllowedKeys a)),
     (''permissions'', case acl_Permissions a of None \<Rightarrow> JNull | Some m \<Rightarrow> map_json JStr m)]"

definition set_ACL_field :: "string \<Rightarrow> json \<Rightarrow> ChannelACL \<Rightarrow> ChannelACL option" where
  "set_ACL_field n j a =
     (if n = ''channel'' then map_option (\<lambda>s. a\<lparr>acl_Channel := s\<rparr>) (decode_str j (acl_Channel a))
      else if n = ''public'' then map_option (\<lambda>b. a\<lparr>acl_Public := b\<rparr>) (decode_bool j (acl_Public a))
      else if n = ''max_members'' then map_option (\<lambda>i. a\<lparr>acl_MaxMembers := i\<rparr>) (decode_int64 j (acl_MaxMembers a))
      else if n = ''allowed_keys'' then map_option (\<lambda>l. a\<lparr>acl_AllowedKeys := l\<rparr>) (decode_str_slice j)
      else map_option (\<lambda>p. a\<lparr>acl_Permissions := p\<rparr>) (decode_map_slice j (acl_Permissions a)))"

definition decode_ACL :: "string \<Rightarrow> ChannelACL option" where
  "decode_ACL body = (case json_decode body of
       None \<Rightarrow> None
     | Some j \<Rightarrow> decode_struct [''channel'', ''public'', ''max_members'', ''allowed_keys'', ''permissions''] set_ACL_field j
         \<lparr>acl_Channel = [], acl_Public = False, acl_MaxMembers = 0, acl_AllowedKeys = None, acl_Permissions = None\<rparr>)"

definition set_acl :: "ACLManager \<Rightarrow> Server \<Rightarrow> Server" where
  "set_acl am sv = sv\<lparr>sv_hub := (sv_hub sv)\<lparr>hb_acl := am\<rparr>\<rparr>"

definition handle_acl :: handler where
  "handle_acl r sv =
     (let am = hb_acl (sv_hub sv); channel = rq_Query r ''channel'' in
      if rq_Method r = ''POST'' then
        (case decode_ACL (rq_Body r) of
           None \<Rightarrow> Done (sv, http_fail ''invalid JSON'' StatusBadRequest)
         | Some acl \<Rightarrow>
             if acl_Channel acl = [] then Done (sv, http_fail ''channel required'' StatusBadRequest)
             else Done (set_acl (SetChannelACL acl am) sv,
               json_reply (json_text (JObj [(''channel'', JStr (acl_Channel acl)), (''status'', JStr ''set'')]))))
      else if rq_Method r = ''GET'' then
        (if channel \<noteq> [] then
           (case GetChannelACL am channel of
              None \<Rightarrow> Done (sv, json_reply (json_text (JObj [(''channel'', JStr channel), (''public'', JBool True)])))
            | Some acl \<Rightarrow> Done (sv, json_reply (json_text (ChannelACL_json acl))))
         else Done (sv, json_reply (json_text (JArr (map ChannelACL_json (ListACLs am))))))
      else if rq_Method r = ''DELETE'' then
        (if channel = [] then Done (sv, http_fail ''channel param required'' StatusBadRequest)
         else (case RemoveChannelACL channel am of
             (am', True) \<Rightarrow> Done (set_acl am' sv, json_reply (json_text (JObj [(''status'', JStr ''removed'')])))
           | (am', False) \<Rightarrow> Done (set_acl am' sv, http_fail ''no ACL for channel'' StatusNotFound)))
      else Done (sv, http_fail ''method not allowed'' StatusMethodNotAllowed))"


section \<open>Reading a rule back\<close>

definition acl_utf8 :: "ChannelACL \<Rightarrow> bool" where
  "acl_utf8 a \<longleftrightarrow> utf8 (acl_Channel a) \<and> list_all utf8 (elems (acl_AllowedKeys a)) \<and>
     list_all (\<lambda>(u, p). utf8 u \<and> utf8 p) (elems (acl_Permissions a))"

text \<open>The rule with its permissions in the order in which they are written, which is the same Go map.\<close>

definition sorted_acl :: "ChannelACL \<Rightarrow> ChannelACL" where
  "sorted_acl a = a\<lparr>acl_Permissions := map_option (sort_key fst) (acl_Permissions a)\<rparr>"

lemma decode_str_slice_json [simp]: "decode_str_slice (str_slice_json s) = Some s"
  by (simp add: decode_str_slice_def str_slice_json_def str_list_json_def split: option.split)

lemma decode_map_slice_json:
  assumes "gomap_ok (elems p)"
  shows "decode_map_slice (case p of None \<Rightarrow> JNull | Some m \<Rightarrow> map_json JStr m) None = Some (map_option (sort_key fst) p)"
proof (cases p)
  case (Some m)
  then have "distinct (map fst (sort_key fst m))"
    using assms by (simp add: gomap_ok_def distinct_map distinct_sort)
  then show ?thesis
    using Some decode_str_entries_JStr [of "sort_key fst m" "[]"] by (simp add: decode_map_slice_def map_json_def)
qed (simp add: decode_map_slice_def)

lemma ChannelACL_json_ok:
  assumes "acl_utf8 a"
  shows "json_ok maxNestingDepth (ChannelACL_json a)"
proof -
  have names: "utf8 ''channel'' \<and> utf8 ''public'' \<and> utf8 ''max_members'' \<and> utf8 ''allowed_keys'' \<and> utf8 ''permissions''"
    by (simp add: utf8_ascii byte_in_def)
  have perms: "json_ok 9999 (case acl_Permissions a of None \<Rightarrow> JNull | Some m \<Rightarrow> map_json JStr m)"
    using assms by (auto simp: acl_utf8_def map_json_def list_all_iff split: option.split)
  show ?thesis
    using assms names perms str_slice_json_ok [of "acl_AllowedKeys a" 9999] is_number_itoa
    by (simp add: acl_utf8_def ChannelACL_json_def maxNestingDepth_def)
qed

lemma decode_ACL_reply:
  assumes "acl_utf8 a" and "gomap_ok (elems (acl_Permissions a))"
    and "- (2 ^ 63) \<le> acl_MaxMembers a" and "acl_MaxMembers a < 2 ^ 63"
  shows "decode_ACL (json_text (ChannelACL_json a) @ [CHR 0x0A]) = Some (sorted_acl a)"
  using decode_json_line [OF ChannelACL_json_ok [OF assms(1)]] ParseInt64_itoa [OF assms(3,4)] decode_map_slice_json [OF assms(2)]
  by (simp add: decode_ACL_def decode_struct_def ChannelACL_json_def set_ACL_field_def decode_str_def decode_bool_def
      decode_int64_def sorted_acl_def)

section \<open>What the management endpoints guarantee\<close>

text \<open>C16. A created key works: a \<^verbatim>\<open>POST /api/keys\<close> with a name and a domain answers with a key of 64
  hexadecimal digits made of the random bytes and changes no other key. From then on, whatever operations are performed on the
  store, until one updates or revokes that key or draws its bytes again, \<^verbatim>\<open>Validate\<close> accepts it without an origin and from exactly the origins
  whose host one of its domains matches. The request needs no credentials: nothing is asked of its headers and its query.\<close>

theorem created_key_accepted:
  assumes "store_ok (sv_keys sv)" and "rq_Method r = ''POST''" and "decode_create (rq_Body r) = Some q"
    and "cr_Name q \<noteq> []" and "elems (cr_Domains q) \<noteq> []" and "rnd 32 = Inr bs" and "length bs = 32"
  shows "\<exists>sv' resp k. handle_keys rnd now w junk r sv = Done (sv', resp) \<and> rs_Status resp = 200 \<and>
    rs_Body resp = json_text (APIKey_json k) @ [CHR 0x0A] \<and>
    ak_Key k = EncodeToString bs \<and> length (ak_Key k) = 64 \<and> ak_Name k = cr_Name q \<and> ak_AllowedDomains k = cr_Domains q \<and>
    store_ok (sv_keys sv') \<and> (\<forall>other. other \<noteq> ak_Key k \<longrightarrow> Get (sv_keys sv') other = Get (sv_keys sv) other) \<and>
    (\<forall>ops s origin. each store_step ops (sv_keys sv') = Done s \<longrightarrow> (\<forall>op \<in> set ops. \<not> names_key (ak_Key k) op) \<longrightarrow>
       (Validate ul s (ak_Key k) origin = Done (Inr k) \<longleftrightarrow> origin = [] \<or> ExtractHost origin \<noteq> [] \<and>
          (\<exists>pattern \<in> set (elems (cr_Domains q)). pattern = ''*'' \<or> MatchDomainPattern ul pattern (ExtractHost origin))))"
proof -
  let ?k = "\<lparr>ak_Key = EncodeToString bs, ak_Name = cr_Name q, ak_AllowedDomains = cr_Domains q, ak_Channels = [],
     ak_CreatedAt = now, ak_UpdatedAt = 0, ak_Active = True\<rparr>"
  let ?ks = "save w junk ((sv_keys sv)\<lparr>keys := AList.update (EncodeToString bs) (Some ?k) (keys (sv_keys sv))\<rparr>)"
  have len: "length (EncodeToString bs) = 64" using assms(7) by simp
  have "\<not> keys_nil (sv_keys sv)" using assms(1) by (simp add: store_ok_def)
  then have "GenerateKey rnd now w junk (cr_Name q) (cr_Domains q) (sv_keys sv) = Done (?ks, Inr ?k)"
    using assms(4-6) len by (simp add: GenerateKey_def GenerateRandomKey_def Let_def)
  then have run: "handle_keys rnd now w junk r sv = Done (sv\<lparr>sv_keys := ?ks\<rparr>, json_reply (json_text (APIKey_json ?k)))"
    using assms(2,3) by (simp add: handle_keys_def)
  have "store_ok ?ks" using assms(1) len by (intro store_ok_put) simp_all
  moreover have mine: "Get ?ks (EncodeToString bs) = Some ?k"
    and "\<forall>other. other \<noteq> EncodeToString bs \<longrightarrow> Get ?ks other = Get (sv_keys sv) other"
    by (simp_all add: Get_def)
  moreover have "Get s (EncodeToString bs) = Some ?k"
    if "each store_step ops ?ks = Done s" "\<forall>op \<in> set ops. \<not> names_key (EncodeToString bs) op" for ops s
    using store_run_other [OF that] mine by simp
  ultimately show ?thesis using run len
    by (intro exI [of _ "sv\<lparr>sv_keys := ?ks\<rparr>"] exI [of _ "json_reply (json_text (APIKey_json ?k))"] exI [of _ ?k])
       (auto simp: json_reply_def Validate_accepts_iff)
qed

text \<open>C17. An access rule set over HTTP is in force and can be read back: after \<^verbatim>\<open>POST /acl\<close> the manager decides by
  the rule of the body, \<^verbatim>\<open>GET /acl\<close> answers with a text that decodes to the same rule, the rules of the other channels
  are untouched, and \<^verbatim>\<open>DELETE /acl\<close> opens the channel again.\<close>

theorem acl_endpoint_roundtrip:
  assumes "decode_ACL (rq_Body post) = Some a" and "acl_Channel a \<noteq> []"
    and "rq_Method post = ''POST''" and "rq_Method get = ''GET''" and "rq_Method del = ''DELETE''"
    and "rq_Query get ''channel'' = acl_Channel a" and "rq_Query del ''channel'' = acl_Channel a"
    and "acl_utf8 a" and "gomap_ok (elems (acl_Permissions a))"
    and "- (2 ^ 63) \<le> acl_MaxMembers a" and "acl_MaxMembers a < 2 ^ 63"
  shows "\<exists>sv1 resp1 resp2 sv3 resp3. handle_acl post sv = Done (sv1, resp1) \<and> rs_Status resp1 = 200 \<and>
    (\<forall>ch. GetChannelACL (hb_acl (sv_hub sv1)) ch =
       (if ch = acl_Channel a then Some a else GetChannelACL (hb_acl (sv_hub sv)) ch)) \<and>
    handle_acl get sv1 = Done (sv1, resp2) \<and> rs_Status resp2 = 200 \<and> decode_ACL (rs_Body resp2) = Some (sorted_acl a) \<and>
    handle_acl del sv1 = Done (sv3, resp3) \<and> rs_Status resp3 = 200 \<and>
    (\<forall>ch. GetChannelACL (hb_acl (sv_hub sv3)) ch =
       (if ch = acl_Channel a then None else GetChannelACL (hb_acl (sv_hub sv)) ch))"
proof -
  let ?am = "SetChannelACL a (hb_acl (sv_hub sv))" and ?c = "acl_Channel a"
  let ?sv1 = "set_acl (SetChannelACL a (hb_acl (sv_hub sv))) sv"
  obtain am' where rem: "RemoveChannelACL ?c ?am = (am', True)"
    by (auto simp: RemoveChannelACL_def SetChannelACL_def)
  have "handle_acl post sv = Done (?sv1, json_reply (json_text (JObj [(''channel'', JStr ?c), (''status'', JStr ''set'')])))"
    using assms(1-3) by (simp add: handle_acl_def Let_def)
  moreover have am: "hb_acl (sv_hub ?sv1) = ?am" by (simp add: set_acl_def)
  moreover have "handle_acl get ?sv1 = Done (?sv1, json_reply (json_text (ChannelACL_json a)))"
    using assms(2,4,6) unfolding handle_acl_def am by simp
  moreover have "decode_ACL (rs_Body (json_reply (json_text (ChannelACL_json a)))) = Some (sorted_acl a)"
    using decode_ACL_reply [OF assms(8-11)] by (simp add: json_reply_def)
  moreover have "handle_acl del ?sv1 = Done (set_acl am' ?sv1, json_reply (json_text (JObj [(''status'', JStr ''removed'')])))"
    using assms(2,5,7) rem unfolding handle_acl_def am by simp
  moreover have "hb_acl (sv_hub (set_acl am' ?sv1)) = fst (RemoveChannelACL ?c ?am)" by (simp add: set_acl_def rem)
  ultimately show ?thesis by (intro exI conjI allI) (assumption | simp add: json_reply_def)+
qed

end
