(* ===== verification/Routing.thy ===== *)
theory Routing
  imports AdminApi
begin

text \<open>
  \<^verbatim>\<open>cmd/server/main.go\<close>, the server as a whole: the routes of the \<^verbatim>\<open>ServeMux\<close>, the rate limiters in front of the handlers,
  and the CORS and logging middleware around all of them. \<open>mux_route\<close> is the choice that \<^verbatim>\<open>net/http\<close> (Go 1.25) makes
  for the patterns \<^verbatim>\<open>main\<close> registers. A request is one step here, up to the point where a WebSocket or a stream takes
  over; how the goroutines of the hub interleave is the subject of the hub's state machine.
\<close>

section \<open>Routes\<close>

text \<open>\<^verbatim>\<open>path.Clean\<close> of a rooted path, by its segments, and \<^verbatim>\<open>cleanPath\<close>, which keeps a final slash.\<close>

fun clean_segs :: "string list \<Rightarrow> string list \<Rightarrow> string list" where
  "clean_segs acc [] = rev acc"
| "clean_segs acc (s # ss) =
     (if s = [] \<or> s = ''.'' then clean_segs acc ss
      else if s = ''..'' then clean_segs (drop 1 acc) ss
      else clean_segs (s # acc) ss)"

definition path_Clean :: "string \<Rightarrow> string" where
  "path_Clean p = CHR ''/'' # join ''/'' (clean_segs [] (Split p CHR ''/''))"

definition cleanPath :: "string \<Rightarrow> string" where
  "cleanPath p0 = (if p0 = [] then ''/''
     else let p = (if hd p0 = CHR ''/'' then p0 else CHR ''/'' # p0); np = path_Clean p in
       if last p = CHR ''/'' \<and> np \<noteq> ''/'' then np @ ''/'' else np)"

text \<open>The segments a path is matched by. A final slash shows as a last empty segment.\<close>

definition path_segments :: "string \<Rightarrow> string list" where
  "path_segments p = map pathUnescape (Split (drop 1 p) CHR ''/'')"

definition literal_patterns :: "string list" where
  "literal_patterns = [''/api/keys'', ''/api/keys/update'', ''/api/keys/revoke'', ''/publish'', ''/subscribe'', ''/ws'',
     ''/webhooks'', ''/acl'', ''/auth/token'', ''/health'', ''/stats'', ''/metrics'']"

definition match_pattern :: "string \<Rightarrow> string" where
  "match_pattern p = (case find (\<lambda>pat. path_segments pat = path_segments p) literal_patterns of
       Some pat \<Rightarrow> pat
     | None \<Rightarrow> if hd (path_segments p) = ''channels'' \<and> tl (path_segments p) \<noteq> [] then ''/channels/'' else ''/'')"

text \<open>A path that is not cleaned, that of a \<^verbatim>\<open>CONNECT\<close> request, is empty or starts with a slash.\<close>

datatype route = Redirect string | Pattern string | NoRoute | BadURI

definition mux_route :: "string \<Rightarrow> string \<Rightarrow> route" where
  "mux_route meth escapedPath =
     (if escapedPath = ''*'' then BadURI
      else let path = (if meth = ''CONNECT'' then escapedPath else cleanPath escapedPath) in
        if path = [] \<or> hd path \<noteq> CHR ''/'' then NoRoute
        else if path_segments path = [''channels''] then Redirect (cleanPath (pathUnescape escapedPath) @ ''/'')
        else if path \<noteq> escapedPath then Redirect path
        else Pattern (match_pattern path))"

section \<open>What a request leads to\<close>

text \<open>A response, a stream that has started with one, an upgraded connection, or the error the WebSocket library
  answered itself.\<close>

datatype served = Reply http_response | Stream sref http_response | Socket cref | UpgradeError

primrec with_headers :: "((string, string) gomap \<Rightarrow> (string, string) gomap) \<Rightarrow> served \<Rightarrow> served" where
  "with_headers f (Reply resp) = Reply (resp\<lparr>rs_Headers := f (rs_Headers resp)\<rparr>)"
| "with_headers f (Stream c resp) = Stream c (resp\<lparr>rs_Headers := f (rs_Headers resp)\<rparr>)"
| "with_headers f (Socket c) = Socket c"
| "with_headers f UpgradeError = UpgradeError"

type_synonym server_handler = "http_request \<Rightarrow> Server \<Rightarrow> (Server \<times> served) outcome"

text \<open>What a request reads from outside: the libraries, the random source, the clock at the places where the code
  reads it, and what the file system, the Valkey service and the WebSocket library answer. \<open>w_redirect\<close> and \<open>w_index\<close>
  are the responses \<^verbatim>\<open>http.RedirectHandler\<close> and \<^verbatim>\<open>http.ServeFile\<close> write.\<close>

record world =
  w_go :: go_env
  w_jwt :: jwt_lib
  w_rand :: random_source
  w_limit0 :: int
  w_limit1 :: int
  w_key0 :: int
  w_key1 :: int
  w_now :: int
  w_later :: int
  w_secs :: "int \<Rightarrow> int"
  w_uptime :: string
  w_elapsed :: string
  w_write_ok :: bool
  w_junk :: "string option"
  w_ping :: bool
  w_flusher :: bool
  w_upgrade :: bool
  w_redirect :: "http_request \<Rightarrow> string \<Rightarrow> http_response"
  w_index :: "http_request \<Rightarrow> http_response"

definition plain :: "handler \<Rightarrow> server_handler" where
  "plain h r sv = and_then (h r sv) (\<lambda>(sv', resp). Done (sv', Reply resp))"

definition on_server_metrics :: "(Metrics \<Rightarrow> Metrics) \<Rightarrow> Server \<Rightarrow> Server" where
  "on_server_metrics f sv = sv\<lparr>sv_hub := on_metrics f (sv_hub sv)\<rparr>"

definition with_global :: "world \<Rightarrow> server_handler \<Rightarrow> server_handler" where
  "with_global w = RateLimitMiddleware sv_globalLimiter (\<lambda>rl sv. sv\<lparr>sv_globalLimiter := rl\<rparr>) on_server_metrics Reply
     (w_limit0 w) (w_limit1 w)"

definition with_publish :: "world \<Rightarrow> server_handler \<Rightarrow> server_handler" where
  "with_publish w = RateLimitMiddleware sv_publishLimiter (\<lambda>rl sv. sv\<lparr>sv_publishLimiter := rl\<rparr>) on_server_metrics Reply
     (w_limit0 w) (w_limit1 w)"

text \<open>The broker and the metrics are the ones the hub holds; \<open>on_sse\<close> and \<open>put_sse\<close> take them out and put them back.\<close>

definition on_sse :: "(sse_state \<Rightarrow> 'a) \<Rightarrow> Server \<Rightarrow> 'a option" where
  "on_sse f sv = map_option (\<lambda>b. f (b, Some (hb_metrics (sv_hub sv)))) (hb_sse (sv_hub sv))"

definition put_sse :: "sse_state \<Rightarrow> Server \<Rightarrow> Server" where
  "put_sse st sv = (case st of (b, m) \<Rightarrow> sv\<lparr>sv_hub :=
     on_metrics (\<lambda>old. case m of None \<Rightarrow> old | Some new \<Rightarrow> new) ((sv_hub sv)\<lparr>hb_sse := Some b\<rparr>)\<rparr>)"

definition serve_subscribe :: "world \<Rightarrow> server_handler" where
  "serve_subscribe w r sv = (case on_sse (ServeSSE_open (w_go w) (sv_keys sv) (w_flusher w) (w_now w) r) sv of
       None \<Rightarrow> Panic NilDereference
     | Some opened \<Rightarrow> and_then opened (\<lambda>(st, res). Done (put_sse st sv, case res of
           SseRefused resp \<Rightarrow> Reply resp
         | Streaming c text \<Rightarrow> Stream c \<lparr>rs_Status = 200, rs_Headers = sse_headers, rs_Body = text\<rparr>)))"

text \<open>A round of the stream of \<open>c\<close> that finds an event, with the text it writes, and the end of the stream.\<close>

definition stream_round :: "sref \<Rightarrow> Server \<Rightarrow> (Server \<times> string) option" where
  "stream_round c sv = (case on_sse (ServeSSE_event c) sv of
       Some (Some (st, text)) \<Rightarrow> Some (put_sse st sv, text)
     | _ \<Rightarrow> None)"

definition stream_end :: "sref \<Rightarrow> Server \<Rightarrow> Server outcome" where
  "stream_end c sv = (case on_sse (ServeSSE_end c) sv of
       None \<Rightarrow> Panic NilDereference
     | Some ended \<Rightarrow> and_then ended (\<lambda>st. Done (put_sse st sv)))"

text \<open>A delivery that \<^verbatim>\<open>Dispatch\<close> has started runs in a goroutine of its own; here it is the \<open>i\<close>-th of those still to run.\<close>

definition run_delivery :: "(webhook_post \<Rightarrow> do_result) \<Rightarrow> nat \<Rightarrow> Server \<Rightarrow> Server \<times> webhook_post option" where
  "run_delivery answer i sv = (case sv_deliveries sv ! i of (wh, payload) \<Rightarrow>
     (case deliver answer wh payload (Some (hb_metrics (sv_hub sv))) of (m, req) \<Rightarrow>
        (sv\<lparr>sv_deliveries := take i (sv_deliveries sv) @ drop (Suc i) (sv_deliveries sv),
            sv_hub := on_metrics (\<lambda>old. case m of None \<Rightarrow> old | Some new \<Rightarrow> new) (sv_hub sv)\<rparr>, req)))"

definition serve_ws :: "world \<Rightarrow> server_handler" where
  "serve_ws w r sv =
     and_then (ServeWS (w_go w) (w_jwt w) (sv_keys sv) (sv_jwt sv) (w_upgrade w) (w_now w) r (sv_hub sv)) (\<lambda>(h, res).
       Done (sv\<lparr>sv_hub := h\<rparr>, case res of
           Refused resp \<Rightarrow> Reply resp
         | UpgradeFailed \<Rightarrow> UpgradeError
         | Upgraded c \<Rightarrow> Socket c))"

definition handle_metrics :: "string \<Rightarrow> handler" where
  "handle_metrics uptime r sv = Done (sv, \<lparr>rs_Status = 200,
     rs_Headers = [(''Content-Type'', ''text/plain; version=0.0.4; charset=utf-8'')],
     rs_Body = ServeMetrics uptime (hb_metrics (sv_hub sv))\<rparr>)"

definition NotFound :: http_response where
  "NotFound = http_Error ''404 page not found'' StatusNotFound"

definition handle_root :: "(http_request \<Rightarrow> http_response) \<Rightarrow> handler" where
  "handle_root index r sv = Done (sv, if rq_Path r \<noteq> ''/'' then NotFound else index r)"

text \<open>The registrations of \<^verbatim>\<open>main\<close>, in its order.\<close>

definition endpoint :: "world \<Rightarrow> string \<Rightarrow> server_handler" where
  "endpoint w pat =
     (if pat = ''/api/keys'' then with_global w (plain (handle_keys (w_rand w) (w_now w) (w_write_ok w) (w_junk w)))
      else if pat = ''/api/keys/update'' then with_global w (plain (handle_keys_update (w_now w) (w_write_ok w) (w_junk w)))
      else if pat = ''/api/keys/revoke'' then with_global w (plain (handle_revoke (w_write_ok w) (w_junk w)))
      else if pat = ''/publish''
      then with_publish w (plain (handle_publish (w_go w) (w_key0 w) (w_key1 w) (w_now w) (w_later w)))
      else if pat = ''/subscribe'' then with_global w (serve_subscribe w)
      else if pat = ''/ws'' then with_global w (serve_ws w)
      else if pat = ''/channels/'' then with_global w (plain (handle_channels (w_go w)))
      else if pat = ''/webhooks'' then with_global w (plain (handle_webhooks (w_rand w)))
      else if pat = ''/acl'' then with_global w (plain handle_acl)
      else if pat = ''/auth/token''
      then with_global w (plain (handle_token (w_go w) (w_secs w) (w_jwt w) (w_now w) (w_later w)))
      else if pat = ''/health'' then plain (handle_health (w_ping w) (w_now w))
      else if pat = ''/stats'' then plain (handle_stats (w_now w))
      else if pat = ''/metrics'' then plain (handle_metrics (w_uptime w))
      else plain (handle_root (w_index w)))"

definition mux :: "world \<Rightarrow> server_handler" where
  "mux w r sv = (case mux_route (rq_Method r) (rq_EscapedPath r) of
       Redirect p \<Rightarrow> Done (sv, Reply (w_redirect w r p))
     | Pattern pat \<Rightarrow> endpoint w pat r sv
     | NoRoute \<Rightarrow> Done (sv, Reply NotFound)
     | BadURI \<Rightarrow> Done (sv, Reply \<lparr>rs_Status = StatusBadRequest, rs_Headers = [(''Connection'', ''close'')], rs_Body = []\<rparr>))"

text \<open>\<^verbatim>\<open>LoggingMiddleware\<close>, with the log as part of the state; \<open>elapsed\<close> is the text of the time the request took.\<close>

definition LoggingMiddleware ::
  "string \<Rightarrow> (http_request \<Rightarrow> 's \<Rightarrow> ('s \<times> 'r) outcome) \<Rightarrow> http_request \<Rightarrow> 's \<times> string list \<Rightarrow> (('s \<times> string list) \<times> 'r) outcome" where
  "LoggingMiddleware elapsed next r st = (case st of (s, lg) \<Rightarrow>
     let start = ''[http] '' @ rq_Method r @ '' '' @ rq_Path r @ '' '' @ rq_RemoteAddr r;
         finish = ''[http] '' @ rq_Method r @ '' '' @ rq_Path r @ '' completed in '' @ elapsed in
     and_then (next r s) (\<lambda>(s', res). Done ((s', lg @ [start, finish]), res)))"

text \<open>The goroutine of the graceful shutdown: after the signal it cancels the subscriptions and closes the bridge. Closing
  the listener is the server's own affair.\<close>

definition graceful_shutdown :: "Server \<Rightarrow> Server" where
  "graceful_shutdown sv = sv\<lparr>sv_hub := (sv_hub sv)\<lparr>hb_valkey := map_option Close (hb_valkey (sv_hub sv))\<rparr>\<rparr>"

definition serve_request :: "world \<Rightarrow> http_request \<Rightarrow> Server \<times> string list \<Rightarrow> ((Server \<times> string list) \<times> served) outcome" where
  "serve_request w = LoggingMiddleware (w_elapsed w) (CORSMiddleware Reply with_headers (mux w))"

end
