(* ===== verification/ServerSafety.thy ===== *)
theory ServerSafety
  imports Routing
begin

text \<open>
  The server's invariant and the proof that every request keeps it and completes. \<open>server_ok\<close> joins the invariants of the
  components; the locale \<open>rate_limited\<close> states what a limiter in front of a handler needs of the state it is part of,
  and is interpreted for the two limiters of the server.
\<close>

definition server_ok :: "phases \<Rightarrow> Server \<Rightarrow> bool" where
  "server_ok ph sv \<longleftrightarrow> hub_inv ph (sv_hub sv) \<and> store_ok (sv_keys sv) \<and> webhooks_ok (sv_webhooks sv)"

text \<open>An upgraded request adds a connection that waits for its registration.\<close>

fun phases_after :: "served \<Rightarrow> phases \<Rightarrow> phases" where
  "phases_after (Socket c) ph = ph(c \<mapsto> Joining)"
| "phases_after _ ph = ph"

text \<open>A handler completes and keeps the invariant.\<close>

definition answers :: "phases \<Rightarrow> handler \<Rightarrow> http_request \<Rightarrow> Server \<Rightarrow> bool" where
  "answers ph h r sv \<longleftrightarrow> (\<exists>sv' resp. h r sv = Done (sv', resp) \<and> server_ok ph sv')"

definition serves :: "phases \<Rightarrow> server_handler \<Rightarrow> http_request \<Rightarrow> Server \<Rightarrow> bool" where
  "serves ph h r sv \<longleftrightarrow> (\<exists>sv' res. h r sv = Done (sv', res) \<and> server_ok (phases_after res ph) sv')"

lemma serves_plain: "answers ph h r sv \<Longrightarrow> serves ph (plain h) r sv"
  by (auto simp: answers_def serves_def plain_def)

lemma server_okE:
  assumes "server_ok ph sv"
  obtains b vb where "hub_inv ph (sv_hub sv)" and "hb_sse (sv_hub sv) = Some b" and "broker_ok b"
    and "hb_valkey (sv_hub sv) = Some vb" and "store_ok (sv_keys sv)" and "webhooks_ok (sv_webhooks sv)"
proof -
  have sv: "hub_inv ph (sv_hub sv)" "store_ok (sv_keys sv)" "webhooks_ok (sv_webhooks sv)"
    using assms by (simp_all add: server_ok_def)
  obtain b vb where "hb_sse (sv_hub sv) = Some b" "hb_valkey (sv_hub sv) = Some vb"
    using hub_inv_parts(12,13) [OF sv(1)] by auto
  then show thesis using that sv hub_inv_parts(1) [OF sv(1)] by blast
qed

lemma server_ok_parts [simp]:
  "server_ok ph (sv\<lparr>sv_globalLimiter := rl\<rparr>) = server_ok ph sv" "server_ok ph (sv\<lparr>sv_publishLimiter := rl\<rparr>) = server_ok ph sv"
  "server_ok ph (sv\<lparr>sv_keyLimiter := kl\<rparr>) = server_ok ph sv" "server_ok ph (sv\<lparr>sv_deliveries := ds\<rparr>) = server_ok ph sv"
  by (simp_all add: server_ok_def)

lemma server_ok_keys: "server_ok ph sv \<Longrightarrow> store_ok ks \<Longrightarrow> server_ok ph (sv\<lparr>sv_keys := ks\<rparr>)"
  by (simp add: server_ok_def)

lemma server_ok_webhooks: "server_ok ph sv \<Longrightarrow> webhooks_ok wm \<Longrightarrow> server_ok ph (sv\<lparr>sv_webhooks := wm\<rparr>)"
  by (simp add: server_ok_def)

lemma server_ok_hub: "server_ok ph sv \<Longrightarrow> hub_inv ph' h \<Longrightarrow> server_ok ph' (sv\<lparr>sv_hub := h\<rparr>)"
  by (simp add: server_ok_def)

lemma on_metrics_inv: "hub_inv ph h \<Longrightarrow> hub_inv ph (on_metrics f h)"
  by (simp add: on_metrics_def hub_inv_metrics)

lemma server_ok_metrics: "server_ok ph sv \<Longrightarrow> server_ok ph (sv\<lparr>sv_hub := on_metrics f (sv_hub sv)\<rparr>)"
  by (auto simp: server_ok_def intro: on_metrics_inv)

lemma server_ok_put_sse:
  assumes "server_ok ph sv" and "broker_ok b"
  shows "server_ok ph (put_sse (b, m) sv)"
proof -
  have "hub_inv ph (sv_hub sv)" using assms(1) by (simp add: server_ok_def)
  from server_ok_hub [OF assms(1) on_metrics_inv [OF hub_inv_other(2) [OF this assms(2)]]]
  show ?thesis by (simp add: put_sse_def)
qed

lemma server_ok_acl: "server_ok ph sv \<Longrightarrow> server_ok ph (set_acl am sv)"
  by (auto simp: server_ok_def set_acl_def intro: hub_inv_other(1))

section \<open>The limiter in front of a handler\<close>

text \<open>\<open>inv\<close> is what a request finds, \<open>good\<close> what it leaves with its result.\<close>

locale rate_limited =
  fixes inv :: "'s \<Rightarrow> bool" and good :: "'s \<Rightarrow> 'r \<Rightarrow> bool" and limiter :: "'s \<Rightarrow> RateLimiter"
    and set_limiter :: "RateLimiter \<Rightarrow> 's \<Rightarrow> 's" and meter :: "(Metrics \<Rightarrow> Metrics) \<Rightarrow> 's \<Rightarrow> 's" and reply :: "http_response \<Rightarrow> 'r"
  assumes set_limiter_inv: "inv s \<Longrightarrow> inv (set_limiter rl s)"
    and meter_inv: "inv s \<Longrightarrow> inv (meter f s)"
    and reply_good: "inv s \<Longrightarrow> good s (reply resp)"
begin

lemma limited_returns:
  assumes "inv s" and "\<And>rl. \<exists>s' x. next r (set_limiter rl s) = Done (s', x) \<and> good s' x"
  shows "\<exists>s' x. RateLimitMiddleware limiter set_limiter meter reply t0 t1 next r s = Done (s', x) \<and> good s' x"
proof (cases "RateLimiter_Allow t0 t1 (client_ip r) (limiter s)")
  case (Pair rl admitted)
  then show ?thesis
    using assms(2) [of rl] reply_good [OF meter_inv [OF set_limiter_inv [OF assms(1)]], of _ rl]
    by (simp add: RateLimitMiddleware_gate)
qed

end

interpretation global_limit: rate_limited "server_ok ph" "\<lambda>sv res. server_ok (phases_after res ph) sv"
  sv_globalLimiter "\<lambda>rl sv. sv\<lparr>sv_globalLimiter := rl\<rparr>" on_server_metrics Reply for ph
  by unfold_locales (simp_all add: on_server_metrics_def server_ok_metrics)

interpretation publish_limit: rate_limited "server_ok ph" "\<lambda>sv res. server_ok (phases_after res ph) sv"
  sv_publishLimiter "\<lambda>rl sv. sv\<lparr>sv_publishLimiter := rl\<rparr>" on_server_metrics Reply for ph
  by unfold_locales (simp_all add: on_server_metrics_def server_ok_metrics)

lemma serves_global:
  assumes "server_ok ph sv" and "\<And>rl. serves ph h r (sv\<lparr>sv_globalLimiter := rl\<rparr>)"
  shows "serves ph (with_global w h) r sv"
  using global_limit.limited_returns [of ph sv h r] assms by (simp add: serves_def with_global_def)

lemma serves_publish:
  assumes "server_ok ph sv" and "\<And>rl. serves ph h r (sv\<lparr>sv_publishLimiter := rl\<rparr>)"
  shows "serves ph (with_publish w h) r sv"
  using publish_limit.limited_returns [of ph sv h r] assms by (simp add: serves_def with_publish_def)

section \<open>The handlers\<close>

text \<open>The documented behaviour of \<^verbatim>\<open>rand.Read\<close>: it fills the buffer or fails.\<close>

definition fills :: "random_source \<Rightarrow> bool" where
  "fills rnd \<longleftrightarrow> (\<forall>n bs. rnd n = Inr bs \<longrightarrow> length bs = n)"

lemma handle_keys_serves:
  assumes "server_ok ph sv" and "fills rnd"
  shows "answers ph (handle_keys rnd now w junk) r sv"
proof -
  have ok: "store_ok (sv_keys sv)" using assms(1) by (simp add: server_ok_def)
  obtain ks where list: "List_keys (sv_keys sv) = Done ks"
    using List_entries_Done [OF store_ok_entries [OF ok]] by (auto simp: List_keys_def)
  have gen: "\<exists>ks res. GenerateKey rnd now w junk name ds (sv_keys sv) = Done (ks, res) \<and> store_ok ks" for name ds
    using GenerateKey_safe [OF ok] assms(2) by (simp add: fills_def)
  show ?thesis
  proof (cases "decode_create (rq_Body r)")
    case None
    then show ?thesis using assms(1) list by (simp add: answers_def handle_keys_def)
  next
    case (Some q)
    obtain ks res where "GenerateKey rnd now w junk (cr_Name q) (cr_Domains q) (sv_keys sv) = Done (ks, res)" "store_ok ks"
      using gen by blast
    then show ?thesis using Some assms(1) list by (simp add: answers_def handle_keys_def server_ok_keys)
  qed
qed

lemma handle_keys_update_serves:
  assumes "server_ok ph sv"
  shows "answers ph (handle_keys_update now w junk) r sv"
proof (cases "decode_update (rq_Body r)")
  case None
  then show ?thesis using assms by (simp add: answers_def handle_keys_update_def Let_def)
next
  case (Some q)
  have "store_ok (sv_keys sv)" using assms by (simp add: server_ok_def)
  from Update_safe [OF this] obtain ks res where
    "Update now w junk (rq_Query r ''key'') (ur_Name q) (ur_Domains q) (ur_Active q) (sv_keys sv) = Done (ks, res)" "store_ok ks"
    by blast
  then show ?thesis using Some assms by (simp add: answers_def handle_keys_update_def Let_def server_ok_keys)
qed

lemma handle_revoke_serves:
  assumes "server_ok ph sv"
  shows "answers ph (handle_revoke w junk) r sv"
proof -
  let ?key = "rq_Query r ''key''"
  from assms obtain b vb where sv: "hub_inv ph (sv_hub sv)" "hb_sse (sv_hub sv) = Some b" "broker_ok b"
    "hb_valkey (sv_hub sv) = Some vb" "store_ok (sv_keys sv)"
    by (elim server_okE)
  from Revoke_safe [OF sv(5)] obtain ks found where ks: "Revoke w junk ?key (sv_keys sv) = Done (ks, found)" "store_ok ks"
    by blast
  show ?thesis
  proof (cases "found \<and> ?key \<noteq> []")
    case False
    then show ?thesis using assms ks by (auto simp: answers_def handle_revoke_def Let_def server_ok_keys)
  next
    case True
    then have len: "8 \<le> length ?key" using ks(1) by (auto simp: Revoke_def slice_to_def split: option.splits if_splits)
    obtain h1 n where h1: "DisconnectKey ?key (sv_hub sv) = Done (h1, n)" "hub_inv ph h1"
      using DisconnectKey_effect [OF sv(1) len] by blast
    have frame: "hb_sse h1 = Some b" using sv(2) by (subst DisconnectKey_frame [OF h1(1)]) simp
    obtain b' m where b': "DisconnectKey_sse ?key b = Done (b', m)" "broker_ok b'"
      using DisconnectKey_loop [OF sv(3), of ?key] DisconnectKey_long [OF len, of b] by auto
    let ?h = "on_metrics (\<lambda>m. m\<lparr>KeyRevocations := KeyRevocations m + 1\<rparr>) (h1\<lparr>hb_sse := Some b'\<rparr>)"
    have "hub_inv ph ?h" by (intro on_metrics_inv hub_inv_other(2) h1(2) b'(2))
    then have "server_ok ph (sv\<lparr>sv_keys := ks, sv_hub := ?h\<rparr>)"
      by (rule server_ok_hub [OF server_ok_keys [OF assms ks(2)]])
    then show ?thesis using True ks h1(1) frame b'(1) by (simp add: answers_def handle_revoke_def Let_def)
  qed
qed

lemma Validate_Get: "Validate ul s key origin = Done (Inr k) \<Longrightarrow> Get s key = Some k"
  by (auto simp: Validate_def Get_def split: option.splits if_splits)

lemma publish_deliver_serves:
  assumes "server_ok ph sv"
  shows "\<exists>sv' resp. publish_deliver t0 t1 q sv = Done (sv', resp) \<and> server_ok ph sv'"
proof -
  from assms obtain b vb where sv: "hub_inv ph (sv_hub sv)" "hb_sse (sv_hub sv) = Some b"
    "hb_valkey (sv_hub sv) = Some vb"
    by (elim server_okE)
  obtain h b' f ds resp where run: "publish_deliver t0 t1 q sv =
      Done (sv\<lparr>sv_hub := on_metrics f (h\<lparr>hb_sse := Some b'\<rparr>), sv_deliveries := ds\<rparr>, resp)"
    and h: "hub_inv ph h" "broker_ok b'"
    using publish_deliver_run [OF sv(1,2), of t0 t1 q] by blast
  have "server_ok ph (sv\<lparr>sv_hub := on_metrics f (h\<lparr>hb_sse := Some b'\<rparr>)\<rparr>)"
    by (rule server_ok_hub [OF assms on_metrics_inv [OF hub_inv_other(2) [OF h]]])
  then show ?thesis using run by simp
qed

lemma handle_publish_serves:
  assumes "server_ok ph sv"
  shows "answers ph (handle_publish env l0 l1 t0 t1) r sv"
proof -
  obtain kl ok where kl: "KeyRateLimiter_Allow l0 l1 (header_key r) (sv_keyLimiter sv) = (kl, ok)" by fastforce
  have "store_ok (sv_keys sv)" using assms by (simp add: server_ok_def)
  then obtain v where v: "Validate (unicode_lower env) (sv_keys sv) (header_key r) (request_origin r) = Done v"
    using Validate_safe by blast
  show ?thesis
  proof (cases v)
    case (Inl err)
    then show ?thesis using assms v by (simp add: answers_def handle_publish_def Let_def)
  next
    case (Inr k)
    let ?sv = "sv\<lparr>sv_keyLimiter := kl\<rparr>"
    have get: "Get (sv_keys sv) (header_key r) = Some k" using v Inr by (simp add: Validate_Get)
    have sv1: "server_ok ph ?sv" using assms by simp
    have metrics: "server_ok ph (sv\<lparr>sv_keyLimiter := kl, sv_hub := on_metrics f (sv_hub sv)\<rparr>)" for f
      using server_ok_metrics [OF sv1] by simp
    show ?thesis using assms v Inr get kl metrics publish_deliver_serves [OF sv1]
      by (cases ok; cases "decode_publish env (rq_Body r)") (auto simp: answers_def handle_publish_def Let_def)
  qed
qed

lemma GetRoomMembers_Done:
  assumes "hub_inv ph h"
  shows "\<exists>us. GetRoomMembers room h = Done us"
proof -
  have "\<exists>us. user_ids h rs = Done us" if "\<forall>r \<in> set rs. hb_heap h r \<noteq> None" for rs
    using that by (induction rs) auto
  moreover have "\<forall>r \<in> set ms. hb_heap h r \<noteq> None" if "map_of (Rooms h) room = Some ms" for ms
    using that hub_inv_parts(4) [OF assms, of _ room] open_conn_heap [OF assms] by (force simp: members_def)
  ultimately show ?thesis by (auto simp: GetRoomMembers_def split: option.split)
qed

lemma handle_channels_serves:
  assumes "server_ok ph sv" and "length ''/channels/'' \<le> length (rq_Path r)"
  shows "answers ph (handle_channels env) r sv"
proof -
  have sv: "hub_inv ph (sv_hub sv)" "store_ok (sv_keys sv)" using assms(1) by (simp_all add: server_ok_def)
  obtain v where v: "Validate (unicode_lower env) (sv_keys sv) (header_key r) (request_origin r) = Done v"
    using Validate_safe [OF sv(2)] by blast
  have "\<exists>us. GetRoomMembers room (sv_hub sv) = Done us" for room by (rule GetRoomMembers_Done [OF sv(1)])
  then show ?thesis using assms v
    by (cases v) (auto simp: answers_def handle_channels_def slice_from_def Let_def)
qed

lemma handle_webhooks_serves:
  assumes "server_ok ph sv"
  shows "answers ph (handle_webhooks rnd) r sv"
proof -
  have wm: "webhooks_ok (sv_webhooks sv)" using assms by (simp add: server_ok_def)
  obtain wm' found where un: "Unregister_webhook (rq_Query r ''id'') (sv_webhooks sv) = (wm', found)" by fastforce
  have "webhooks_ok wm'" using webhooks_ok_Unregister [OF wm, of "rq_Query r ''id''"] un by simp
  then have "server_ok ph (sv\<lparr>sv_webhooks := wm'\<rparr>)" by (rule server_ok_webhooks [OF assms])
  moreover have "server_ok ph (sv\<lparr>sv_webhooks := Register_webhook wh (sv_webhooks sv)\<rparr>)" for wh
    by (rule server_ok_webhooks [OF assms webhooks_ok_Register [OF wm]])
  ultimately show ?thesis using assms un
    by (cases "decode_Webhook (rq_Body r)") (auto simp: answers_def handle_webhooks_def Let_def split: bool.split)
qed

lemma handle_acl_serves:
  assumes "server_ok ph sv"
  shows "answers ph handle_acl r sv"
proof -
  obtain am' found where rem: "RemoveChannelACL (rq_Query r ''channel'') (hb_acl (sv_hub sv)) = (am', found)" by fastforce
  then show ?thesis using assms server_ok_acl [OF assms]
    by (cases "decode_ACL (rq_Body r)") (auto simp: answers_def handle_acl_def Let_def split: bool.split option.split)
qed

lemma handle_token_serves:
  assumes "server_ok ph sv"
  shows "answers ph (handle_token env secs lib t0 t1) r sv"
proof -
  have "store_ok (sv_keys sv)" using assms by (simp add: server_ok_def)
  then obtain v where v: "Validate (unicode_lower env) (sv_keys sv) (header_key r) (request_origin r) = Done v"
    using Validate_safe by blast
  then show ?thesis using assms
    by (cases v) (auto simp: answers_def handle_token_def Let_def split: option.split sum.split)
qed

lemma info_serves:
  assumes "server_ok ph sv"
  shows "answers ph (handle_health ping now) r sv" and "answers ph (handle_stats now) r sv"
    and "answers ph (handle_metrics up) r sv" and "answers ph (handle_root index) r sv"
proof -
  obtain b vb where "hb_sse (sv_hub sv) = Some b" "hb_valkey (sv_hub sv) = Some vb" by (rule server_okE [OF assms])
  then show "answers ph (handle_health ping now) r sv" "answers ph (handle_stats now) r sv"
    "answers ph (handle_metrics up) r sv" "answers ph (handle_root index) r sv"
    using assms by (simp_all add: answers_def handle_health_def handle_stats_def handle_metrics_def handle_root_def)
qed

lemma serve_subscribe_serves:
  assumes "server_ok ph sv"
  shows "serves ph (serve_subscribe w) r sv"
proof -
  from assms obtain b vb where sv: "hub_inv ph (sv_hub sv)" "hb_sse (sv_hub sv) = Some b" "broker_ok b"
    "hb_valkey (sv_hub sv) = Some vb" "store_ok (sv_keys sv)"
    by (elim server_okE)
  obtain v where v: "Validate (unicode_lower (w_go w)) (sv_keys sv) (request_key r) (request_origin r) = Done v"
    using Validate_safe [OF sv(5)] by blast
  have "\<exists>b' m res. ServeSSE_open (w_go w) (sv_keys sv) (w_flusher w) (w_now w) r (b, Some (hb_metrics (sv_hub sv))) =
      Done ((b', m), res) \<and> broker_ok b'"
    using v sv(3) broker_ok_Subscribe [OF sv(3)]
    by (cases v) (auto simp: ServeSSE_open_def Let_def split: prod.split)
  then obtain b' m res where run:
    "ServeSSE_open (w_go w) (sv_keys sv) (w_flusher w) (w_now w) r (b, Some (hb_metrics (sv_hub sv))) = Done ((b', m), res)"
    "broker_ok b'" by blast
  show ?thesis using run(1) sv(2) server_ok_put_sse [OF assms run(2), of m]
    by (simp add: serves_def serve_subscribe_def on_sse_def split: sse_result.split)
qed


text \<open>The user a WebSocket request would be is not connected.\<close>

definition unknown_user :: "world \<Rightarrow> http_request \<Rightarrow> Server \<Rightarrow> bool" where
  "unknown_user w r sv \<longleftrightarrow> (\<forall>claims uid c. ws_identity (w_go w) (w_jwt w) (sv_jwt sv) (w_now w) r = Inr (claims, uid) \<and>
     hub_live (sv_hub sv) c \<longrightarrow> user_of (sv_hub sv) c \<noteq> Some uid)"

lemma serve_ws_serves:
  assumes "server_ok ph sv" and "unknown_user w r sv"
  shows "serves ph (serve_ws w) r sv"
proof -
  have sv: "hub_inv ph (sv_hub sv)" "store_ok (sv_keys sv)" using assms(1) by (simp_all add: server_ok_def)
  obtain v where v: "Validate (unicode_lower (w_go w)) (sv_keys sv) (request_key r) (request_origin r) = Done v"
    using Validate_safe [OF sv(2)] by blast
  have "\<exists>h' res. ServeWS (w_go w) (w_jwt w) (sv_keys sv) (sv_jwt sv) (w_upgrade w) (w_now w) r (sv_hub sv) = Done (h', res) \<and>
      (case res of Upgraded c \<Rightarrow> hub_inv (ph(c \<mapsto> Joining)) h' | _ \<Rightarrow> h' = sv_hub sv)"
  proof (cases "ws_identity (w_go w) (w_jwt w) (sv_jwt sv) (w_now w) r")
    case (Inl resp)
    then show ?thesis using v by (cases v) (auto simp: ServeWS_def Let_def)
  next
    case (Inr who)
    obtain claims uid where who: "who = (claims, uid)" by fastforce
    have fresh: "\<forall>q. open_conn ph q \<longrightarrow> user_of (sv_hub sv) q \<noteq> Some uid"
      using assms(2) Inr who hub_inv_parts(2) [OF sv(1)] by (auto simp: unknown_user_def)
    have "uid \<noteq> []" using ws_identity_named Inr who by blast
    from ws_admit_inv [OF sv(1) fresh this, of claims "request_key r" "rq_Query r ''channel''"]
    obtain h' c where admit: "ws_admit claims uid (request_key r) (rq_Query r ''channel'') (sv_hub sv) = Done (h', c)"
      "hub_inv (ph(c \<mapsto> Joining)) h'" by blast
    then show ?thesis using v Inr who by (cases v) (auto simp: ServeWS_def Let_def)
  qed
  then obtain h' res where run:
    "ServeWS (w_go w) (w_jwt w) (sv_keys sv) (sv_jwt sv) (w_upgrade w) (w_now w) r (sv_hub sv) = Done (h', res)"
    "case res of Upgraded c \<Rightarrow> hub_inv (ph(c \<mapsto> Joining)) h' | _ \<Rightarrow> h' = sv_hub sv" by blast
  then show ?thesis using assms(1) server_ok_hub [OF assms(1)]
    by (cases res) (simp_all add: serves_def serve_ws_def)
qed

section \<open>Streams and webhooks\<close>

lemma ServeSSE_event_ok:
  assumes "broker_ok b" and "ServeSSE_event c (b, m) = Some ((b', m'), text)"
  shows "broker_ok b'"
proof -
  obtain cl data q where cl: "sb_heap b c = Some cl" "recv (sc_Events cl) = Got data q"
    and b': "b' = b\<lparr>sb_heap := (sb_heap b)(c \<mapsto> cl\<lparr>sc_Events := q\<rparr>)\<rparr>"
    using assms(2) by (auto simp: ServeSSE_event_def split: option.splits received.splits)
  have "ch_closed q = ch_closed (sc_Events cl)" using cl(2) by (auto simp: recv_def split: list.splits if_splits)
  then show ?thesis using assms(1) cl(1) unfolding b' broker_ok_def subs_of_def by auto (metis option.inject)
qed

lemma stream_round_ok:
  assumes "server_ok ph sv" and "stream_round c sv = Some (sv', text)"
  shows "server_ok ph sv'"
proof -
  obtain b where b: "hb_sse (sv_hub sv) = Some b" "broker_ok b" by (rule server_okE [OF assms(1)])
  obtain b' m where "ServeSSE_event c (b, Some (hb_metrics (sv_hub sv))) = Some ((b', m), text)" "sv' = put_sse (b', m) sv"
    using assms(2) b(1) by (auto simp: stream_round_def on_sse_def split: option.splits)
  then show ?thesis using server_ok_put_sse [OF assms(1)] ServeSSE_event_ok [OF b(2)] by blast
qed

lemma stream_end_ok:
  assumes "server_ok ph sv" and "hb_sse (sv_hub sv) = Some b" and "c \<in> set (subs_of b ch)"
  shows "\<exists>sv'. stream_end c sv = Done sv' \<and> server_ok ph sv'"
proof -
  have b: "broker_ok b" using assms(1,2) hub_inv_parts(1) by (auto simp: server_ok_def)
  have "\<exists>b'. broker_step (OpUnsubscribe c) b = Done b' \<and> broker_ok b'"
    by (rule sse_step_returns [OF b]) (use assms(3) in auto)
  then obtain b' where "Unsubscribe c b = Done b'" "broker_ok b'" by auto
  then show ?thesis using assms(2) server_ok_put_sse [OF assms(1)] by (simp add: stream_end_def on_sse_def ServeSSE_end_def)
qed

lemma run_delivery_ok: "server_ok ph sv \<Longrightarrow> server_ok ph (fst (run_delivery answer i sv))"
  using server_ok_metrics by (auto simp: run_delivery_def server_ok_def intro!: on_metrics_inv split: prod.split)

section \<open>The routes\<close>

text \<open>A path that is routed to \<^verbatim>\<open>/channels/\<close> is long enough for the slice its handler takes.\<close>

lemma unescape_at_slash:
  "unescape EncPath (s @ CHR ''/'' # t) = Some u \<Longrightarrow>
   \<exists>a b. unescape EncPath s = Some a \<and> u = a @ CHR ''/'' # b"
proof (induction s arbitrary: u rule: length_induct)
  case (1 s)
  have slash: "\<not> is_hex CHR ''/''" by (simp add: is_hex_def)
  show ?case
  proof (cases s)
    case Nil
    then show ?thesis using 1(2) by auto
  next
    case (Cons c cs)
    show ?thesis
    proof (cases "c = CHR ''%''")
      case False
      with Cons 1(2) obtain v where v: "unescape EncPath (cs @ CHR ''/'' # t) = Some v" "u = c # v" by auto
      have "length cs < length s" using Cons by simp
      with 1(1) v(1) obtain a b where "unescape EncPath cs = Some a" "v = a @ CHR ''/'' # b" by blast
      then show ?thesis using Cons False v(2) by auto
    next
      case True
      then obtain x y rest where cs: "cs = x # y # rest"
        using 1(2) Cons slash by (cases cs; cases "tl cs") (auto split: list.splits if_splits)
      with True Cons 1(2) obtain v where v: "unescape EncPath (rest @ CHR ''/'' # t) = Some v"
        "u = char_of (16 * unhex x + unhex y) # v" "is_hex x" "is_hex y"
        by (auto split: if_splits)
      have "length rest < length s" using Cons cs by simp
      with 1(1) v(1) obtain a b where "unescape EncPath rest = Some a" "v = a @ CHR ''/'' # b" by blast
      then show ?thesis using Cons cs True v by (auto simp: escape_ok_def)
    qed
  qed
qed

lemma Split_Cons_Cons:
  "Split s c = a # b # ps \<Longrightarrow> \<exists>t. s = a @ c # t"
proof (induction s arbitrary: a)
  case (Cons x xs)
  then show ?case using Split_nonempty [of xs c] by (auto split: if_splits list.splits) 
qed simp

lemma length_unescape: "unescape m s = Some t \<Longrightarrow> length t \<le> length s"
  by (induction m s arbitrary: t rule: unescape.induct) (fastforce split: if_splits list.splits)+

lemma channels_path_long:
  assumes "mux_route meth p = Pattern ''/channels/''"
  shows "length ''/channels/'' \<le> length (pathUnescape p)"
proof -
  from assms have p: "p \<noteq> []" "hd p = CHR ''/''" and m: "match_pattern p = ''/channels/''"
    by (auto simp: mux_route_def Let_def split: if_splits)
  have "find (\<lambda>pat. path_segments pat = path_segments p) literal_patterns \<noteq> Some ''/channels/''"
    by (auto simp: find_Some_iff literal_patterns_def nth_Cons split: nat.splits)
  with m have segs: "hd (path_segments p) = ''channels''" "tl (path_segments p) \<noteq> []"
    by (auto simp: match_pattern_def split: option.splits if_splits)
  obtain q where q: "p = CHR ''/'' # q" using p by (cases p) auto
  obtain s b ps where split: "Split q CHR ''/'' = s # b # ps" and s: "pathUnescape s = ''channels''"
    using segs q by (cases "Split q CHR ''/''"; cases "tl (Split q CHR ''/'')") (auto simp: path_segments_def)
  obtain t where t: "q = s @ CHR ''/'' # t" using Split_Cons_Cons [OF split] by blast
  have len: "8 \<le> length s"
    using s length_unescape [of EncPath s] by (auto simp: pathUnescape_def split: option.splits)
  show ?thesis
  proof (cases "unescape EncPath p")
    case None
    then show ?thesis using len q t by (simp add: pathUnescape_def)
  next
    case (Some u)
    then obtain v where v: "unescape EncPath (s @ CHR ''/'' # t) = Some v" "u = CHR ''/'' # v" using q t by auto
    from unescape_at_slash [OF v(1)] obtain a b' where "unescape EncPath s = Some a" "v = a @ CHR ''/'' # b'" by blast
    then show ?thesis using Some v(2) s by (simp add: pathUnescape_def)
  qed
qed

section \<open>Every request\<close>

lemma endpoint_serves:
  assumes "server_ok ph sv" and "fills (w_rand w)" and "unknown_user w r sv"
    and "pat = ''/channels/'' \<Longrightarrow> length ''/channels/'' \<le> length (rq_Path r)"
  shows "serves ph (endpoint w pat) r sv"
proof -
  have ok: "server_ok ph (sv\<lparr>sv_globalLimiter := rl\<rparr>)" "server_ok ph (sv\<lparr>sv_publishLimiter := rl\<rparr>)"
    "unknown_user w r (sv\<lparr>sv_globalLimiter := rl\<rparr>)" for rl
    using assms(1,3) by (simp_all add: unknown_user_def)
  note global = serves_global [OF assms(1)] serves_global [OF assms(1) serves_plain]
    and publish = serves_publish [OF assms(1) serves_plain]
  show ?thesis
    by (simp add: endpoint_def serves_plain info_serves [OF assms(1)] publish handle_publish_serves [OF ok(2)]
        global handle_keys_serves [OF ok(1) assms(2)] handle_keys_update_serves [OF ok(1)] handle_revoke_serves [OF ok(1)]
        serve_subscribe_serves [OF ok(1)] serve_ws_serves [OF ok(1,3)] handle_channels_serves [OF ok(1) assms(4)]
        handle_webhooks_serves [OF ok(1)] handle_acl_serves [OF ok(1)] handle_token_serves [OF ok(1)])
qed

lemma mux_serves:
  assumes "server_ok ph sv" and "fills (w_rand w)" and "unknown_user w r sv"
  shows "serves ph (mux w) r sv"
proof (cases "mux_route (rq_Method r) (rq_EscapedPath r)")
  case (Pattern pat)
  have "length ''/channels/'' \<le> length (rq_Path r)" if "pat = ''/channels/''"
    using channels_path_long Pattern that by (simp add: rq_Path_def)
  then have "serves ph (endpoint w pat) r sv" by (intro endpoint_serves assms)
  then show ?thesis using Pattern by (simp add: serves_def mux_def)
qed (use assms(1) in \<open>simp_all add: serves_def mux_def\<close>)

lemma phases_after_headers [simp]: "phases_after (with_headers f res) ph = phases_after res ph"
  by (cases res) simp_all

lemma serve_request_serves:
  assumes "server_ok ph sv" and "fills (w_rand w)" and "unknown_user w r sv"
  shows "\<exists>sv' lg' res. serve_request w r (sv, lg) = Done ((sv', lg'), res) \<and> server_ok (phases_after res ph) sv'"
  using mux_serves [OF assms] assms(1)
  by (auto simp: serves_def serve_request_def LoggingMiddleware_def CORSMiddleware_def Let_def)

end
