(* ===== verification/HubFrames.thy ===== *)
theory HubFrames
  imports HubSystem
begin

text \<open>
  What no operation takes back. \<open>evolves W D S h h'\<close>: the clients and the streams of \<open>h\<close> are still there in \<open>h'\<close>, under the same
  user IDs; a closed connection is closed; the rooms a client is in have changed only for the clients in \<open>W\<close>; and what was queued is
  still queued, in its order, except for the clients in \<open>D\<close> (whose write pump has written) and the streams in \<open>S\<close> (whose handler has
  received). Every operation of the code is classified by the sets it needs, and so are the events of \<open>HubSystem\<close> and their runs.
\<close>

section \<open>Streams\<close>

definition streams_evolve :: "sref set \<Rightarrow> SSEBroker \<Rightarrow> SSEBroker \<Rightarrow> bool" where
  "streams_evolve S b b' \<longleftrightarrow> (\<forall>c cl. sb_heap b c = Some cl \<longrightarrow> (\<exists>cl'. sb_heap b' c = Some cl' \<and>
     (c \<notin> S \<longrightarrow> prefix (ch_buf (sc_Events cl)) (ch_buf (sc_Events cl')))))"

lemma streams_evolve_refl [simp]: "streams_evolve S b b"
  by (simp add: streams_evolve_def)

lemma streams_evolve_trans: "streams_evolve S a b \<Longrightarrow> streams_evolve S b c \<Longrightarrow> streams_evolve S a c"
  unfolding streams_evolve_def by (meson prefix_order.trans)

lemma streams_evolve_heap: "sb_heap b' = sb_heap b \<Longrightarrow> streams_evolve S b b'"
  by (simp add: streams_evolve_def)

lemma streams_evolve_put:
  assumes "sb_heap b r = Some c" and "sb_heap b' = (sb_heap b)(r \<mapsto> c')"
    and "r \<notin> S \<Longrightarrow> prefix (ch_buf (sc_Events c)) (ch_buf (sc_Events c'))"
  shows "streams_evolve S b b'"
  using assms by (auto simp: streams_evolve_def)

lemma each_rel:
  assumes "\<And>x s s'. f x s = Done s' \<Longrightarrow> R s s'" and "\<And>s. R s s" and "\<And>a b c. R a b \<Longrightarrow> R b c \<Longrightarrow> R a c"
  shows "each f xs s = Done s' \<Longrightarrow> R s s'"
proof (induction xs arbitrary: s)
  case (Cons x xs)
  then show ?case using assms(1,3) by (auto, blast)
qed (simp add: assms(2))

lemma streams_evolve_each:
  assumes "\<And>x s s'. f x s = Done s' \<Longrightarrow> streams_evolve S (fst s) (fst s')" and "each f xs s = Done s'"
  shows "streams_evolve S (fst s) (fst s')"
  using each_rel [of f "\<lambda>s s'. streams_evolve S (fst s) (fst s')"] assms streams_evolve_trans streams_evolve_refl by blast

lemma sse_offer_evolves: "sse_offer d r s = Done s' \<Longrightarrow> streams_evolve S (fst s) (fst s')"
  by (cases s) (auto simp: sse_offer_Done offered_def intro: streams_evolve_put)

lemma record_event_evolves: "record_event ch d b = Done b' \<Longrightarrow> streams_evolve S b b'"
  by (auto simp: record_event_def Let_def intro: streams_evolve_heap)

lemma sse_offers_evolve: "each (sse_offer d) rs s = Done s' \<Longrightarrow> streams_evolve S (fst s) (fst s')"
  using streams_evolve_each [of "sse_offer d" S, OF sse_offer_evolves] .

lemma Publish_evolves:
  assumes "Publish ch m b = Done (b', n)"
  shows "streams_evolve S b b'"
proof -
  obtain b1 where b1: "record_event ch (json_text (Message_json m)) b = Done b1"
    and "b' = b1 \<or> (\<exists>subs. each (sse_offer (json_text (Message_json m))) subs (b1, 0) = Done (b', n))"
    using assms by (auto simp: Publish_def Marshal_def split: option.splits)
  then have "streams_evolve S b1 b'" using sse_offers_evolve [of _ _ "(b1, 0)" "(b', n)" S] by auto
  then show ?thesis using record_event_evolves [OF b1] streams_evolve_trans by blast
qed

lemma PublishAll_evolves:
  assumes "PublishAll m b = Done (b', n)"
  shows "streams_evolve S b b'"
proof -
  let ?f = "\<lambda>(_ :: string, subs) st. each (sse_offer (json_text (Message_json m))) subs st"
  have run: "each ?f (sb_clients b) (b, 0) = Done (b', n)" using assms by (simp add: PublishAll_def Marshal_def)
  have "streams_evolve S (fst s) (fst s')" if "?f x s = Done s'" for x s s'
    using that sse_offers_evolve by (cases x) auto
  from streams_evolve_each [of ?f, OF this run] show ?thesis by simp
qed

lemma close_done_evolves: "close_done r b = Done b' \<Longrightarrow> streams_evolve S b b'"
  by (auto simp: close_done_Done intro: streams_evolve_put)

lemma Unsubscribe_evolves:
  assumes "Unsubscribe r b = Done b'"
  shows "streams_evolve S b b'"
proof -
  obtain b1 where "close_done r b1 = Done b'" "sb_heap b1 = sb_heap b"
    using assms by (auto simp: Unsubscribe_def remove_sub_def Let_def split: option.splits if_splits)
  then show ?thesis using close_done_evolves streams_evolve_heap streams_evolve_trans by blast
qed

lemma disconnect_sub_evolves: "disconnect_sub k ch r s = Done s' \<Longrightarrow> streams_evolve S (fst s) (fst s')"
  using close_done_evolves
  by (fastforce simp: disconnect_sub_def remove_sub_def streams_evolve_def split: prod.splits option.splits if_splits)

lemma DisconnectKey_sse_evolves:
  assumes "DisconnectKey_sse k b = Done (b', n)"
  shows "streams_evolve S b b'"
proof -
  let ?f = "\<lambda>(ch, subs) st. each (disconnect_sub k ch) subs st"
  have run: "each ?f (sb_clients b) (b, 0) = Done (b', n)" using assms by (auto simp: DisconnectKey_sse_def split: if_splits)
  have "streams_evolve S (fst s) (fst s')" if "?f x s = Done s'" for x s s'
    using that streams_evolve_each [of "disconnect_sub k (fst x)" S "snd x", OF disconnect_sub_evolves] by (cases x) auto
  from streams_evolve_each [of ?f, OF this run] show ?thesis by simp
qed

lemma Subscribe_evolves: "broker_ok b \<Longrightarrow> streams_evolve S b (fst (Subscribe ch k b))"
  by (auto simp: Subscribe_def Let_def streams_evolve_def broker_ok_def)

text \<open>The streams an operation receives from.\<close>

fun receives :: "broker_op \<Rightarrow> sref set" where
  "receives (OpReceive c) = {c}"
| "receives _ = {}"

lemma receive_event_evolves: "streams_evolve {c} b (receive_event c b)"
  by (auto simp: receive_event_def streams_evolve_def split: option.split received.split)

lemma broker_step_evolves: "broker_step op b = Done b' \<Longrightarrow> broker_ok b \<Longrightarrow> streams_evolve (receives op) b b'"
  by (cases op)
     (auto simp: Subscribe_evolves Unsubscribe_evolves receive_event_evolves
       dest: Publish_evolves PublishAll_evolves DisconnectKey_sse_evolves)

section \<open>The hub\<close>

text \<open>One client, before and after.\<close>

definition client_evolves :: "bool \<Rightarrow> bool \<Rightarrow> Client \<Rightarrow> Client \<Rightarrow> bool" where
  "client_evolves moved drained c c' \<longleftrightarrow> cl_UserID c' = cl_UserID c \<and> (cl_conn_closed c \<longrightarrow> cl_conn_closed c') \<and>
     (\<not> moved \<longrightarrow> cl_Rooms c' = cl_Rooms c) \<and> (\<not> drained \<longrightarrow> prefix (ch_buf (cl_Send c)) (ch_buf (cl_Send c')))"

definition clients_evolve :: "cref set \<Rightarrow> cref set \<Rightarrow> Hub \<Rightarrow> Hub \<Rightarrow> bool" where
  "clients_evolve W D h h' \<longleftrightarrow> (\<forall>q c. hb_heap h q = Some c \<longrightarrow> (\<exists>c'. hb_heap h' q = Some c' \<and>
     client_evolves (q \<in> W) (q \<in> D) c c'))"

definition evolves :: "cref set \<Rightarrow> cref set \<Rightarrow> sref set \<Rightarrow> Hub \<Rightarrow> Hub \<Rightarrow> bool" where
  "evolves W D S h h' \<longleftrightarrow> clients_evolve W D h h' \<and>
     (\<forall>b. hb_sse h = Some b \<longrightarrow> (\<exists>b'. hb_sse h' = Some b' \<and> streams_evolve S b b'))"

lemma client_evolves_refl [simp]: "client_evolves m d c c"
  by (simp add: client_evolves_def)

lemma evolves_refl [simp]: "evolves W D S h h"
  by (simp add: evolves_def clients_evolve_def)

lemma client_evolves_trans: "client_evolves m d a b \<Longrightarrow> client_evolves m d b c \<Longrightarrow> client_evolves m d a c"
  by (auto simp: client_evolves_def intro: prefix_order.trans)

lemma evolves_client:
  "evolves W D S h h' \<Longrightarrow> hb_heap h q = Some c \<Longrightarrow> \<exists>c'. hb_heap h' q = Some c' \<and> client_evolves (q \<in> W) (q \<in> D) c c'"
  by (simp add: evolves_def clients_evolve_def)

lemma evolves_stream:
  "evolves W D S h h' \<Longrightarrow> hb_sse h = Some b \<Longrightarrow> \<exists>b'. hb_sse h' = Some b' \<and> streams_evolve S b b'"
  by (simp add: evolves_def)

lemma clients_evolve_trans: "clients_evolve W D a b \<Longrightarrow> clients_evolve W D b c \<Longrightarrow> clients_evolve W D a c"
  unfolding clients_evolve_def by (meson client_evolves_trans)

lemma evolves_trans: "evolves W D S a b \<Longrightarrow> evolves W D S b c \<Longrightarrow> evolves W D S a c"
  unfolding evolves_def using clients_evolve_trans streams_evolve_trans by metis

lemma evolves_mono:
  assumes "evolves W D S h h'" and "W \<subseteq> W'" and "D \<subseteq> D'" and "S \<subseteq> S'"
  shows "evolves W' D' S' h h'"
proof -
  have "client_evolves (q \<in> W') (q \<in> D') c c'" if "client_evolves (q \<in> W) (q \<in> D) c c'" for q c c'
    using that assms(2,3) by (auto simp: client_evolves_def)
  moreover have "streams_evolve S' b b'" if "streams_evolve S b b'" for b b'
    using that assms(4) unfolding streams_evolve_def by (metis subsetD)
  ultimately show ?thesis using assms(1) unfolding evolves_def clients_evolve_def by meson
qed

text \<open>Steps that leave the clients or the broker alone, and steps that replace one client.\<close>

lemma evolves_same: "hb_heap h' = hb_heap h \<Longrightarrow> hb_sse h' = hb_sse h \<Longrightarrow> evolves W D S h h'"
  by (simp add: evolves_def clients_evolve_def)

lemma evolves_sse:
  assumes "hb_heap h' = hb_heap h" and "hb_sse h = Some b" and "hb_sse h' = Some b'" and "streams_evolve S b b'"
  shows "evolves W D S h h'"
  using assms by (simp add: evolves_def clients_evolve_def)

lemma evolves_put:
  assumes "hb_heap h r = Some c" and "hb_heap h' = (hb_heap h)(r \<mapsto> c')" and "hb_sse h' = hb_sse h"
    and "cl_UserID c' = cl_UserID c" and "cl_conn_closed c \<Longrightarrow> cl_conn_closed c'"
    and "r \<notin> W \<Longrightarrow> cl_Rooms c' = cl_Rooms c" and "r \<notin> D \<Longrightarrow> prefix (ch_buf (cl_Send c)) (ch_buf (cl_Send c'))"
  shows "evolves W D S h h'"
  using assms by (auto simp: evolves_def clients_evolve_def client_evolves_def)

lemma evolves_each:
  assumes "\<And>x s s'. f x s = Done s' \<Longrightarrow> evolves W D S s s'" and "each f xs s = Done s'"
  shows "evolves W D S s s'"
  using each_rel [of f "evolves W D S"] assms evolves_trans evolves_refl by blast

section \<open>The operations of the hub\<close>

lemma hub_offer_evolves: "hub_offer d r h = Done h' \<Longrightarrow> evolves W D S h h'"
  by (auto simp: hub_offer_Done posted_def intro: evolves_put)

lemma SendMessage_evolves: "SendMessage r m h = Done h' \<Longrightarrow> evolves W D S h h'"
  using hub_offer_evolves by (simp add: SendMessage_def Marshal_def)

lemma room_offer_evolves: "room_offer ex d r h = Done h' \<Longrightarrow> evolves W D S h h'"
  using hub_offer_evolves by (auto simp: room_offer_def split: option.splits if_splits)

lemma sse_publish_evolves:
  assumes "sse_publish op h = Done h'" and "\<And>b b' n. op b = Done (b', n) \<Longrightarrow> streams_evolve S b b'"
  shows "evolves W D S h h'"
  using assms by (auto simp: sse_publish_def evolves_def clients_evolve_def split: option.splits)

lemma valkey_publish_evolves: "evolves W D S h (valkey_publish op h)"
  by (simp add: valkey_publish_def evolves_same)

lemma BroadcastMessage_evolves:
  assumes "BroadcastMessage m h = Done h'"
  shows "evolves W D S h h'"
proof -
  obtain d h1 h2 where h: "each (hub_offer d) (map snd (Clients h)) h = Done h1" "sse_publish (PublishAll m) h1 = Done h2"
    "h' = valkey_publish (PublishBroadcast m) h2"
    using assms by (auto simp: BroadcastMessage_def Marshal_def)
  have "evolves W D S h h1" by (rule evolves_each [OF hub_offer_evolves h(1)])
  moreover have "evolves W D S h1 h2" using PublishAll_evolves by (rule sse_publish_evolves [OF h(2)])
  ultimately show ?thesis unfolding h(3) by (rule evolves_trans [OF evolves_trans valkey_publish_evolves])
qed

lemma rooms_evolve:
  "evolves W D S h (JoinRoom room r h)" "evolves W D S h (LeaveRoom room r h)"
  "r \<in> W \<Longrightarrow> mark_room r room h = Done h' \<Longrightarrow> evolves W D S h h'"
  "r \<in> W \<Longrightarrow> unmark_room r room h = Done h' \<Longrightarrow> evolves W D S h h'"
proof -
  show "evolves W D S h (JoinRoom room r h)" "evolves W D S h (LeaveRoom room r h)"
    by (rule evolves_same; simp add: JoinRoom_def LeaveRoom_def split: option.split)+
  show "evolves W D S h h'" if "r \<in> W" "mark_room r room h = Done h'"
    using that by (auto simp: mark_room_def split: option.splits intro!: evolves_put)
  show "evolves W D S h h'" if "r \<in> W" "unmark_room r room h = Done h'"
    using that by (auto simp: unmark_room_def split: option.splits intro: evolves_put)
qed

lemma close_send_evolves: "close_send r h = Done h' \<Longrightarrow> evolves W D S h h'"
  by (auto simp: close_send_def close_chan_Done split: option.splits intro: evolves_put)

lemma close_conn_evolves: "evolves W D S h (close_conn r h)"
  by (auto simp: close_conn_def evolves_def clients_evolve_def client_evolves_def)

lemma kick_evolves:
  assumes "kick t r h = Done h'"
  shows "evolves W D S h h'"
proof -
  obtain h1 h2 where h: "SendMessage r (NewSystemMessage t ''connected from another location'') h = Done h1" "close_send r h1 = Done h2"
    and "hb_heap h' = hb_heap h2" "hb_sse h' = hb_sse h2"
    using assms by (auto simp: kick_def split: option.splits)
  then show ?thesis
    using SendMessage_evolves [OF h(1)] close_send_evolves [OF h(2)] evolves_same evolves_trans by metis
qed

lemma register_locked_evolves:
  assumes "register_locked t r h = Done h'"
  shows "evolves W D S h h'"
proof -
  have "evolves W D S k (k\<lparr>Clients := cs\<rparr>)" for k cs by (rule evolves_same) simp_all
  then show ?thesis
    using assms kick_evolves evolves_trans by (fastforce simp: register_locked_def split: option.splits)
qed

lemma unregister_locked_evolves:
  assumes "unregister_locked r h = Done h'"
  shows "evolves W D S h h'"
proof -
  have leave: "hb_heap (fold (\<lambda>room. LeaveRoom room r) rooms k) = hb_heap k \<and> hb_sse (fold (\<lambda>room. LeaveRoom room r) rooms k) = hb_sse k" for rooms k
    by (induction rooms arbitrary: k) (simp_all add: LeaveRoom_def split: option.split)
  have "evolves W D S k (fold (\<lambda>room. LeaveRoom room r) rooms (k\<lparr>Clients := cs\<rparr>))" for k rooms cs
    by (rule evolves_same) (simp_all add: leave)
  then show ?thesis
    using assms close_send_evolves evolves_trans evolves_refl
    by (auto simp: unregister_locked_def split: option.splits if_splits) metis
qed

lemma disconnect_client_evolves: "disconnect_client k r s = Done s' \<Longrightarrow> evolves W D S (fst s) (fst s')"
  by (auto simp: disconnect_client_def split: prod.splits option.splits if_splits intro: evolves_put)

lemma DisconnectKey_evolves:
  assumes "DisconnectKey k h = Done (h', n)"
  shows "evolves W D S h h'"
proof -
  have "each (disconnect_client k) (map snd (Clients h)) (h, 0) = Done (h', n)"
    using assms by (auto simp: DisconnectKey_def split: if_splits)
  then show ?thesis
    using each_rel [of "disconnect_client k" "\<lambda>s s'. evolves W D S (fst s) (fst s')", OF disconnect_client_evolves] evolves_trans
    by fastforce
qed

lemma WritePump_step_evolves: "WritePump_step w r h = Some (h', frames, ok) \<Longrightarrow> evolves W {r} S h h'"
  by (auto simp: WritePump_step_def Let_def close_conn_evolves split: option.splits received.splits prod.splits if_splits
      intro!: evolves_trans [OF _ close_conn_evolves] evolves_put)

lemma WritePump_tick_evolves: "WritePump_tick w r h = (h', frames, ok) \<Longrightarrow> evolves W D S h h'"
  by (auto simp: WritePump_tick_def close_conn_evolves split: if_splits)

lemma handleIncomingMessage_evolves: "handleIncomingMessage env vb ch d h = Done h' \<Longrightarrow> evolves W D S h h'"
  by (auto simp: handleIncomingMessage_def Let_def SendMessage_evolves split: option.splits if_splits
      elim!: evolves_each [OF hub_offer_evolves, rotated])

lemma ws_admit_evolves:
  assumes "ws_admit claims uid key ch h = Done (h', r)" and "hb_heap h (hb_next h) = None"
  shows "evolves W D S h h'"
proof -
  have "hb_sse h' = hb_sse h" "\<And>q. q \<noteq> hb_next h \<Longrightarrow> hb_heap h' q = hb_heap h q"
    using assms(1) by (auto simp: ws_admit_def NewClient_def mark_room_def JoinRoom_def Let_def split: if_splits)
  moreover have "q \<noteq> hb_next h" if "hb_heap h q = Some c" for q c using that assms(2) by auto
  ultimately show ?thesis by (auto simp: evolves_def clients_evolve_def)
qed

section \<open>Programs\<close>

text \<open>\<open>tame W p\<close>: every action of \<open>p\<close>, on whatever hub it runs, only moves clients in \<open>W\<close> between rooms and drains no queue.\<close>

inductive tame :: "cref set \<Rightarrow> prog \<Rightarrow> bool" for W where
  tame_Halt: "tame W Halt"
| tame_Act: "(\<And>h h' k. f h = Done (h', k) \<Longrightarrow> evolves W {} {} h h' \<and> tame W k) \<Longrightarrow> tame W (Act f)"
| tame_Deliver: "tame W p \<Longrightarrow> tame W (Deliver q msg p)"

inductive_cases tame_ActE: "tame W (Act f)"
inductive_cases tame_DeliverE: "tame W (Deliver q msg p)"

lemma tame_step:
  assumes "tame W p" and "step_prog p h = Done (h', k)"
  shows "evolves W {} {} h h' \<and> tame W k"
  using assms(1)
proof cases
  case tame_Halt
  then show ?thesis using assms by simp
next
  case (tame_Act f)
  then show ?thesis using assms(2) by simp
next
  case (tame_Deliver p' q msg)
  then show ?thesis using assms(2) SendMessage_evolves by auto
qed

lemma tame_act: "(\<And>h h'. f h = Done h' \<Longrightarrow> evolves W {} {} h h') \<Longrightarrow> tame W k \<Longrightarrow> tame W (act f k)"
  unfolding act_def by (rule tame_Act) auto

lemma tame_look: "(\<And>h. tame W (k h)) \<Longrightarrow> tame W (look k)"
  unfolding look_def by (rule tame_Act) auto

lemma tame_say: "tame W (say r msg)"
  unfolding say_def by (intro tame_act tame_Halt SendMessage_evolves)

lemma tame_relay:
  "(\<And>b b' n. sse b = Done (b', n) \<Longrightarrow> streams_evolve {} b b') \<Longrightarrow> tame W k \<Longrightarrow> tame W (relay_prog sse valkey k)"
  unfolding relay_prog_def
  by (intro tame_act) (auto intro: valkey_publish_evolves sse_publish_evolves)

lemma hub_offers_evolve: "each (hub_offer d) rs h = Done h' \<Longrightarrow> evolves W D S h h'"
  by (erule evolves_each [rotated]) (rule hub_offer_evolves)

lemma room_offers_evolve: "each (room_offer ex d) rs h = Done h' \<Longrightarrow> evolves W D S h h'"
  by (erule evolves_each [rotated]) (rule room_offer_evolves)

lemma tame_BroadcastToRoom: "tame W k \<Longrightarrow> tame W (BroadcastToRoom_prog room msg ex k)"
  unfolding BroadcastToRoom_prog_def
  by (intro tame_look)
     (auto simp: Marshal_def intro!: tame_act tame_relay Publish_evolves split: option.split intro: room_offers_evolve)

lemma tame_BroadcastMessage: "tame W k \<Longrightarrow> tame W (BroadcastMessage_prog msg k)"
  by (auto simp: BroadcastMessage_prog_def Marshal_def intro!: tame_act tame_relay PublishAll_evolves
      intro: hub_offers_evolve)

lemma tame_SendToUser: "(\<And>ok. tame W (k ok)) \<Longrightarrow> tame W (SendToUser_prog uid msg k)"
  unfolding SendToUser_prog_def
  by (rule tame_Act) (auto split: option.splits if_splits intro: valkey_publish_evolves tame_Deliver)

lemmas tame_progs = tame_Halt tame_act tame_look tame_say tame_BroadcastToRoom tame_BroadcastMessage tame_SendToUser

lemma set_info_evolves: "set_info r info h = Done h' \<Longrightarrow> evolves W D S h h'"
  by (auto simp: set_info_def split: option.splits intro: evolves_put)

lemma tame_handleMessage: "tame {r} (handleMessage_prog env clk r c msg)"
proof -
  have enter: "evolves {r} {} {} h h'" if "and_then (mark_room r room h) (\<lambda>h1. Done (JoinRoom room r h1)) = Done h'" for h h' room
    using that rooms_evolve(1,3) evolves_trans by fastforce
  have exit: "evolves {r} {} {} h h'" if "and_then (unmark_room r room h) (\<lambda>h1. Done (LeaveRoom room r h1)) = Done h'" for h h' room
    using that rooms_evolve(2,4) evolves_trans by fastforce
  have "tame {r} (handleUserInfo_prog clk r c msg)" "tame {r} (handleDirect_prog clk r c msg)"
    "tame {r} (handleRoomMessage_prog env clk r c msg)"
    by (auto simp: handleUserInfo_prog_def handleDirect_prog_def handleRoomMessage_prog_def Let_def intro!: tame_progs
        intro: SendMessage_evolves set_info_evolves split: option.split)
  moreover have "tame {r} (handleLeaveRoom_prog clk r c msg)"
    unfolding handleLeaveRoom_prog_def by (auto simp del: and_then_eq_Done intro!: tame_progs intro: SendMessage_evolves dest: exit)
  moreover have "tame {r} (enter_prog env clk r c msg)"
    unfolding enter_prog_def by (auto simp del: and_then_eq_Done intro!: tame_progs intro: SendMessage_evolves dest: enter)
  then have "tame {r} (handleJoinRoom_prog env clk r c msg)"
    by (auto simp: handleJoinRoom_prog_def Let_def intro!: tame_progs)
  ultimately show ?thesis by (auto simp: handleMessage_prog_def intro!: tame_progs)
qed

lemma tame_ReadPump: "tame {r} (ReadPump_prog env clk r raw)"
  unfolding ReadPump_prog_def
  by (rule tame_Act) (auto split: option.splits intro: tame_say tame_handleMessage evolves_same)

lemma tame_register: "tame W (register_prog t1 t2 r uid)"
  by (auto simp: register_prog_def intro!: tame_progs intro: SendMessage_evolves)

lemma tame_unregister: "tame W (unregister_prog t c)"
  by (auto simp: unregister_prog_def intro!: tame_progs intro: evolves_same)

section \<open>Events and runs\<close>

text \<open>The clients an event moves between rooms, the clients whose queue it drains, and the streams it receives from.\<close>

fun mover :: "event \<Rightarrow> cref set" where
  "mover (Step (Reader r)) = {r}"
| "mover _ = {}"

fun drained :: "event \<Rightarrow> cref set" where
  "drained (Writing w r) = {r}"
| "drained _ = {}"

fun received_from :: "event \<Rightarrow> sref set" where
  "received_from (SseEvent op) = receives op"
| "received_from _ = {}"

definition all_tame :: "threads \<Rightarrow> bool" where
  "all_tame th \<longleftrightarrow> tame {} (th Loop) \<and> (\<forall>r. tame {r} (th (Reader r)))"

lemma perform_evolves:
  assumes inv: "hub_inv ph h" and tame: "all_tame th" and run: "perform e (h, ph, th) = Done (h', ph', th')"
  shows "evolves (mover e) (drained e) (received_from e) h h' \<and> all_tame th'"
proof (cases e)
  case (Connect claims uid key channel)
  have "ph (hb_next h) = None" using hub_inv_parts(8) [OF inv, of "hb_next h"] by blast
  then have "hb_heap h (hb_next h) = None" using hub_inv_parts(5) [OF inv, of "hb_next h"] by simp
  then show ?thesis using run tame Connect ws_admit_evolves by auto
next
  case (Registering t0 t1 t2 r)
  then show ?thesis using run tame register_locked_evolves tame_register
    by (auto simp: all_tame_def split: option.splits)
next
  case (Receive env clk r raw)
  then show ?thesis using run tame tame_ReadPump by (auto simp: all_tame_def)
next
  case (Step t)
  then show ?thesis using run tame tame_step [of _ "th t"] evolves_mono
    by (cases t) (fastforce simp: all_tame_def)+
next
  case (Leaving t r)
  then show ?thesis
    using run tame unregister_locked_evolves evolves_trans [OF _ close_conn_evolves] tame_unregister
    by (fastforce simp: all_tame_def split: option.splits)
next
  case (Writing w r)
  then show ?thesis using run tame WritePump_step_evolves by (auto split: option.splits)
next
  case (Ticking w r)
  then show ?thesis using run tame WritePump_tick_evolves by (auto split: prod.splits)
next
  case (RawBroadcast data)
  then show ?thesis using run tame hub_offers_evolve by (auto simp: Run_broadcast_def)
next
  case (FromNode env vb channel data)
  then show ?thesis using run tame handleIncomingMessage_evolves by auto
next
  case (RevokedKey key)
  then show ?thesis using run tame DisconnectKey_evolves by auto
next
  case (SseEvent op)
  then obtain b b' where b: "hb_sse h = Some b" "broker_step op b = Done b'" "h' = h\<lparr>hb_sse := Some b'\<rparr>" "th' = th"
    using run by (auto split: option.splits)
  then show ?thesis
    using broker_step_evolves [OF b(2) hub_inv_parts(1) [OF inv b(1)]] SseEvent tame by (auto intro: evolves_sse)
qed (use run tame evolves_same in auto)

lemma reachable_tame: "reachable (h, ph, th) \<Longrightarrow> all_tame th"
proof (induction "(h, ph, th)" arbitrary: h ph th rule: reachable.induct)
  case (boot acl m vb)
  then show ?case by (auto simp: HubSystem.boot_def all_tame_def tame_Halt)
next
  case (step s e)
  obtain h1 ph1 th1 where s: "s = (h1, ph1, th1)" by (cases s)
  show ?case using perform_evolves [OF reachable_inv] step s by metis
qed

lemma run_evolves:
  assumes "reachable (h, ph, th)" and "enabled_run es (h, ph, th)" and "each perform es (h, ph, th) = Done (h', ph', th')"
    and "\<forall>e \<in> set es. mover e \<subseteq> W \<and> drained e \<subseteq> D \<and> received_from e \<subseteq> S"
  shows "evolves W D S h h'"
  using assms
proof (induction es arbitrary: h ph th)
  case (Cons e es)
  then obtain h1 ph1 th1 where one: "perform e (h, ph, th) = Done (h1, ph1, th1)"
    and rest: "enabled_run es (h1, ph1, th1)" "each perform es (h1, ph1, th1) = Done (h', ph', th')"
    by (cases "perform e (h, ph, th)") auto
  have "reachable (h1, ph1, th1)" using reachable.step [OF Cons.prems(1) _ one] Cons.prems(2) by simp
  from Cons.IH [OF this rest] Cons.prems(4) have "evolves W D S h1 h'" by simp
  moreover have "evolves (mover e) (drained e) (received_from e) h h1"
    using perform_evolves [OF reachable_inv [OF Cons.prems(1)] reachable_tame [OF Cons.prems(1)] one] ..
  then have "evolves W D S h h1" using Cons.prems(4) evolves_mono by (meson list.set_intros(1))
  ultimately show ?case using evolves_trans by blast
qed simp

end
