(* ===== verification/ServerFrames.thy ===== *)
theory ServerFrames
  imports ServerSafety HubFrames
begin

text \<open>
  No request takes back what was queued: \<open>evolves\<close> for every handler of the server, by the same classification as in
  \<open>HubFrames\<close>. Most handlers leave the clients and the streams alone (\<open>untouched\<close>).
\<close>

definition untouched :: "Server \<Rightarrow> Server \<Rightarrow> bool" where
  "untouched sv sv' \<longleftrightarrow> hb_heap (sv_hub sv') = hb_heap (sv_hub sv) \<and> hb_sse (sv_hub sv') = hb_sse (sv_hub sv)"

lemma untouched_evolves: "untouched sv sv' \<Longrightarrow> evolves W D S (sv_hub sv) (sv_hub sv')"
  by (simp add: untouched_def evolves_same)

lemma untouched_simps [simp]:
  "untouched sv sv" "untouched sv (sv\<lparr>sv_keys := ks\<rparr>)" "untouched sv (sv\<lparr>sv_webhooks := wm\<rparr>)" "untouched sv (sv\<lparr>sv_keyLimiter := kl\<rparr>)"
  "untouched sv (set_acl am sv)" "untouched sv (sv\<lparr>sv_keyLimiter := kl, sv_hub := on_metrics f (sv_hub sv)\<rparr>)"
  by (simp_all add: untouched_def set_acl_def)

lemma case_sum_Done:
  "(case v of Inl a \<Rightarrow> f a | Inr b \<Rightarrow> g b) = Done y \<longleftrightarrow> (\<exists>a. v = Inl a \<and> f a = Done y) \<or> (\<exists>b. v = Inr b \<and> g b = Done y)"
  by (cases v) simp_all

text \<open>A handler whose runs evolve the server.\<close>

definition calm :: "(http_request \<Rightarrow> Server \<Rightarrow> (Server \<times> 'r) outcome) \<Rightarrow> http_request \<Rightarrow> Server \<Rightarrow> bool" where
  "calm h r sv \<longleftrightarrow> (\<forall>sv' res. h r sv = Done (sv', res) \<longrightarrow> evolves {} {} {} (sv_hub sv) (sv_hub sv'))"

lemma calm_plain: "calm h r sv \<Longrightarrow> calm (plain h) r sv"
  by (auto simp: calm_def plain_def)

lemma calm_untouched: "(\<And>sv' res. h r sv = Done (sv', res) \<Longrightarrow> untouched sv sv') \<Longrightarrow> calm h r sv"
  by (auto simp: calm_def intro: untouched_evolves)

lemma management_untouched:
  "handle_keys rnd now w junk r sv = Done (sv', res) \<Longrightarrow> untouched sv sv'"
  "handle_keys_update now w junk r sv = Done (sv', res) \<Longrightarrow> untouched sv sv'"
  "handle_webhooks rnd r sv = Done (sv', res) \<Longrightarrow> untouched sv sv'"
  "handle_acl r sv = Done (sv', res) \<Longrightarrow> untouched sv sv'"
  by (auto simp: handle_keys_def handle_keys_update_def handle_webhooks_def handle_acl_def Let_def
      split: if_splits option.splits prod.splits bool.splits)

lemma queries_untouched:
  "handle_channels env r sv = Done (sv', res) \<Longrightarrow> untouched sv sv'"
  "handle_token env secs lib t0 t1 r sv = Done (sv', res) \<Longrightarrow> untouched sv sv'"
  "handle_health ping now r sv = Done (sv', res) \<Longrightarrow> untouched sv sv'"
  "handle_stats now r sv = Done (sv', res) \<Longrightarrow> untouched sv sv'"
  "handle_metrics up r sv = Done (sv', res) \<Longrightarrow> untouched sv sv'"
  "handle_root index r sv = Done (sv', res) \<Longrightarrow> untouched sv sv'"
  by (auto simp: handle_channels_def handle_token_def handle_health_def handle_stats_def handle_metrics_def handle_root_def Let_def
      case_sum_Done split: if_splits option.splits)

lemma handle_revoke_calm: "calm (handle_revoke w junk) r sv"
proof -
  have "evolves {} {} {} (sv_hub sv) (on_metrics f (h1\<lparr>hb_sse := Some b'\<rparr>))"
    if "DisconnectKey k (sv_hub sv) = Done (h1, n)" "hb_sse h1 = Some b" "DisconnectKey_sse k b = Done (b', m)" for k h1 n b b' m f
  proof -
    have "evolves {} {} {} h1 (on_metrics f (h1\<lparr>hb_sse := Some b'\<rparr>))"
      using that(2) DisconnectKey_sse_evolves [OF that(3)] by (intro evolves_sse) simp_all
    then show ?thesis using DisconnectKey_evolves [OF that(1)] evolves_trans by blast
  qed
  then show ?thesis
    by (auto simp: calm_def handle_revoke_def Let_def split: if_splits option.splits intro: untouched_evolves)
qed

lemma publish_deliver_evolves:
  assumes "publish_deliver t0 t1 q sv = Done (sv', resp)"
  shows "evolves W D S (sv_hub sv) (sv_hub sv')"
proof -
  let ?d = "json_text (Message_json (publish_message t0 q))"
  have offer: "evolves W D S (fst s) (fst s')" if offer: "publish_offer ?d r s = Done s'" for r s s'
  proof -
    obtain h n h' n' where st: "s = (h, n)" "s' = (h', n')" by (cases s; cases s')
    obtain h1 f where "hub_offer ?d r h = Done h1" "h' = h1 \<or> h' = on_metrics f h1"
      using offer unfolding st publish_offer_Done by (auto split: if_splits)
    then show ?thesis
      using hub_offer_evolves evolves_trans [OF _ evolves_same [of "on_metrics f h1" h1]] st by auto
  qed
  have offers: "evolves W D S h h'" if "each (publish_offer ?d) ms (h, 0) = Done (h', n)" for ms h h' n
  proof -
    from each_rel [of "publish_offer ?d" "\<lambda>s s'. evolves W D S (fst s) (fst s')", OF offer _ _ that]
    show ?thesis using evolves_trans by auto
  qed
  obtain h1 n where h1: "h1 = sv_hub sv \<or> (\<exists>ms. each (publish_offer ?d) ms (sv_hub sv, 0) = Done (h1, n))"
    and tail: "\<exists>b b' m. hb_sse h1 = Some b \<and> Publish (pr_Channel q) (publish_message t0 q) b = Done (b', m) \<and>
      hb_heap (sv_hub sv') = hb_heap h1 \<and> hb_sse (sv_hub sv') = Some b'"
    using assms unfolding publish_deliver_def Let_def
    apply (cases "map_of (Rooms (sv_hub sv)) (pr_Channel q)")
     apply (auto simp: on_metrics_def simp del: json_text.simps split: option.split_asm)
     apply blast+
    done
  have "evolves W D S h1 (sv_hub sv')" using tail Publish_evolves by (auto intro: evolves_sse)
  moreover have "evolves W D S (sv_hub sv) h1" using h1 offers by auto
  ultimately show ?thesis using evolves_trans by blast
qed

lemma handle_publish_calm: "calm (handle_publish env l0 l1 t0 t1) r sv"
proof -
  have deliver: "evolves {} {} {} (sv_hub sv) (sv_hub sv')"
    if "publish_deliver t0 t1 q (sv\<lparr>sv_keyLimiter := kl\<rparr>) = Done (sv', res)" for kl q sv' res
    using publish_deliver_evolves [OF that] by simp
  show ?thesis unfolding calm_def
  proof (intro allI impI)
    fix sv' res
    assume "handle_publish env l0 l1 t0 t1 r sv = Done (sv', res)"
    then have "untouched sv sv' \<or> (\<exists>q kl. publish_deliver t0 t1 q (sv\<lparr>sv_keyLimiter := kl\<rparr>) = Done (sv', res))"
      unfolding handle_publish_def Let_def
      by (auto simp: case_sum_Done split: if_split_asm prod.split_asm bool.split_asm option.split_asm)
    then show "evolves {} {} {} (sv_hub sv) (sv_hub sv')" using deliver untouched_evolves by blast
  qed
qed

lemma put_sse_evolves:
  assumes "hb_sse (sv_hub sv) = Some b" and "streams_evolve S b b'"
  shows "evolves W D S (sv_hub sv) (sv_hub (put_sse (b', m) sv))"
  using assms by (intro evolves_sse) (simp_all add: put_sse_def)

lemma serve_subscribe_calm:
  assumes "server_ok ph sv"
  shows "calm (serve_subscribe w) r sv"
proof -
  obtain b where b: "hb_sse (sv_hub sv) = Some b" "broker_ok b" by (rule server_okE [OF assms])
  have opened: "streams_evolve {} b b'"
    if "ServeSSE_open env ks fl now r (b, m) = Done ((b', m'), res)" for env ks fl now m b' m' res
  proof -
    have "b' = b \<or> b' = fst (Subscribe (rq_Query r ''channel'') (request_key r) b)"
      using that by (auto simp: ServeSSE_open_def Let_def case_sum_Done split: if_split_asm prod.split_asm)
    then show ?thesis using Subscribe_evolves [OF b(2)] by auto
  qed
  show ?thesis unfolding calm_def
  proof (intro allI impI)
    fix sv' res
    assume "serve_subscribe w r sv = Done (sv', res)"
    then obtain b' m' x where "ServeSSE_open (w_go w) (sv_keys sv) (w_flusher w) (w_now w) r (b, Some (hb_metrics (sv_hub sv))) = Done ((b', m'), x)"
      "sv' = put_sse (b', m') sv"
      using b(1) sse_result.exhaust by (auto simp: serve_subscribe_def on_sse_def)
    then show "evolves {} {} {} (sv_hub sv) (sv_hub sv')" using put_sse_evolves [OF b(1) opened] by blast
  qed
qed

lemma serve_ws_calm:
  assumes "server_ok ph sv"
  shows "calm (serve_ws w) r sv"
proof -
  have inv: "hub_inv ph (sv_hub sv)" using assms by (simp add: server_ok_def)
  have "ph (hb_next (sv_hub sv)) = None" using hub_inv_parts(8) [OF inv, of "hb_next (sv_hub sv)"] by blast
  then have "hb_heap (sv_hub sv) (hb_next (sv_hub sv)) = None" using hub_inv_parts(5) [OF inv] by simp
  then have "evolves {} {} {} (sv_hub sv) h'" if "ws_admit claims uid key ch (sv_hub sv) = Done (h', c)" for claims uid key ch h' c
    using ws_admit_evolves [OF that] by blast
  then show ?thesis
    by (auto simp: calm_def serve_ws_def ServeWS_def Let_def case_sum_Done split: if_splits prod.splits)
qed

section \<open>Middlewares, routes and requests\<close>

lemma limited_calm:
  assumes "\<And>rl. calm h r (sv\<lparr>sv_globalLimiter := rl\<rparr>)" and "\<And>rl. calm h r (sv\<lparr>sv_publishLimiter := rl\<rparr>)"
  shows "calm (with_global w h) r sv" and "calm (with_publish w h) r sv"
proof -
  have "evolves {} {} {} k (on_metrics f k)" for k f by (rule evolves_same) simp_all
  then show "calm (with_global w h) r sv" "calm (with_publish w h) r sv"
    using assms by (auto simp: calm_def with_global_def with_publish_def RateLimitMiddleware_gate on_server_metrics_def
        split: prod.splits if_splits)
qed

lemma endpoint_calm:
  assumes "server_ok ph sv"
  shows "calm (endpoint w pat) r sv"
proof -
  have ok: "server_ok ph (sv\<lparr>sv_globalLimiter := rl\<rparr>)" "server_ok ph (sv\<lparr>sv_publishLimiter := rl\<rparr>)" for rl
    using assms by simp_all
  note calm = limited_calm calm_plain calm_untouched [OF management_untouched(1)] calm_untouched [OF management_untouched(2)]
    calm_untouched [OF management_untouched(3)] calm_untouched [OF management_untouched(4)]
    calm_untouched [OF queries_untouched(1)] calm_untouched [OF queries_untouched(2)] calm_untouched [OF queries_untouched(3)]
    calm_untouched [OF queries_untouched(4)] calm_untouched [OF queries_untouched(5)] calm_untouched [OF queries_untouched(6)]
    handle_revoke_calm handle_publish_calm serve_subscribe_calm [OF ok(1)] serve_subscribe_calm [OF ok(2)]
    serve_ws_calm [OF ok(1)] serve_ws_calm [OF ok(2)]
  show ?thesis by (simp add: endpoint_def calm)
qed

lemma serve_request_evolves:
  assumes "serve_request w r (sv, lg) = Done ((sv', lg'), res)" and "server_ok ph sv"
  shows "evolves {} {} {} (sv_hub sv) (sv_hub sv')"
proof -
  have "calm (mux w) r sv"
    using endpoint_calm [OF assms(2), of w _ r] by (auto simp: calm_def mux_def split: route.splits)
  then show ?thesis
    using assms(1) by (auto simp: serve_request_def LoggingMiddleware_def CORSMiddleware_def calm_def Let_def split: if_splits)
qed

section \<open>Streams, deliveries and the shutdown\<close>

lemma stream_round_evolves:
  assumes "stream_round c sv = Some (sv', text)"
  shows "evolves {} {} {c} (sv_hub sv) (sv_hub sv')"
proof -
  obtain b b' m where b: "hb_sse (sv_hub sv) = Some b" "ServeSSE_event c (b, Some (hb_metrics (sv_hub sv))) = Some ((b', m), text)"
    "sv' = put_sse (b', m) sv"
    using assms by (auto simp: stream_round_def on_sse_def split: option.splits)
  then have "streams_evolve {c} b b'"
    by (auto simp: ServeSSE_event_def streams_evolve_def split: option.splits received.splits)
  then show ?thesis using put_sse_evolves [OF b(1)] b(3) by simp
qed

lemma stream_end_evolves:
  assumes "stream_end c sv = Done sv'"
  shows "evolves {} {} {} (sv_hub sv) (sv_hub sv')"
proof -
  obtain b b' m where b: "hb_sse (sv_hub sv) = Some b" "Unsubscribe c b = Done b'" "sv' = put_sse (b', m) sv"
    using assms by (auto simp: stream_end_def on_sse_def ServeSSE_end_def split: option.splits)
  then show ?thesis using put_sse_evolves [OF b(1) Unsubscribe_evolves [OF b(2)]] by simp
qed

lemma run_delivery_untouched: "untouched sv (fst (run_delivery answer i sv))"
  by (auto simp: run_delivery_def untouched_def split: prod.split)

lemma graceful_shutdown_untouched: "untouched sv (graceful_shutdown sv)"
  by (simp add: graceful_shutdown_def untouched_def)

end
