(* ===== verification/ServerSystem.thy ===== *)
theory ServerSystem
  imports ServerFrames
begin

text \<open>
  The whole server as a state machine: it starts as \<^verbatim>\<open>main\<close> does, with the key file it finds; then come, in any order, the
  requests of HTTP clients, the actions of the hub's goroutines (the events of \<open>HubSystem\<close>, with their guards), the rounds
  of the open streams and their ends, the webhook deliveries, the cleanups of the limiters and the shutdown. A request is one
  step, and the assumptions are those of \<open>HubSystem\<close> and that the random source fills its buffer. The key file is the one the server wrote itself, or no file (\<open>store_ok\<close>).
  A step is labelled with the action and with what it writes to sockets and streams; a run is a sequence of steps. The receives of a stream are
  the rounds of its handler (\<open>StreamRound\<close>), so the hub's events leave them out here.
\<close>

type_synonym server_system = "Server \<times> phases \<times> threads"

datatype server_action =
    HubEvent event
  | Request world http_request "string list"
  | Cleanup "string \<Rightarrow> int"
  | StreamRound sref
  | StreamOver sref
  | Delivery "webhook_post \<Rightarrow> do_result" nat
  | Stop

text \<open>What goes out: the frames of a WebSocket and the events of a stream.\<close>

datatype emission = Written cref frame | Streamed sref string

fun event_outputs :: "event \<Rightarrow> Hub \<Rightarrow> emission list" where
  "event_outputs (Writing w r) h = (case WritePump_step w r h of None \<Rightarrow> [] | Some (h', frames, ok) \<Rightarrow> map (Written r) frames)"
| "event_outputs (Ticking w r) h = (case WritePump_tick w r h of (h', frames, ok) \<Rightarrow> map (Written r) frames)"
| "event_outputs _ h = []"

definition clean_limiters :: "(string \<Rightarrow> int) \<Rightarrow> Server \<Rightarrow> Server" where
  "clean_limiters ts sv = sv\<lparr>sv_globalLimiter := RateLimiter_cleanup ts (sv_globalLimiter sv),
     sv_publishLimiter := RateLimiter_cleanup ts (sv_publishLimiter sv),
     sv_keyLimiter := KeyRateLimiter_cleanup ts (sv_keyLimiter sv)\<rparr>"

inductive server_step :: "server_action \<Rightarrow> server_system \<Rightarrow> server_system \<Rightarrow> emission list \<Rightarrow> bool" where
  hub_event: "enabled e (sv_hub sv, ph, th) \<Longrightarrow> received_from e = {} \<Longrightarrow>
    perform e (sv_hub sv, ph, th) = Done (h, ph', th') \<Longrightarrow>
    server_step (HubEvent e) (sv, ph, th) (sv\<lparr>sv_hub := h\<rparr>, ph', th') (event_outputs e (sv_hub sv))"
| request: "fills (w_rand w) \<Longrightarrow> unknown_user w r sv \<Longrightarrow> serve_request w r (sv, lg) = Done ((sv', lg'), res) \<Longrightarrow>
    server_step (Request w r lg) (sv, ph, th) (sv', phases_after res ph, th) []"
| cleanup: "server_step (Cleanup ts) (sv, ph, th) (clean_limiters ts sv, ph, th) []"
| streaming: "stream_round c sv = Some (sv', text) \<Longrightarrow> server_step (StreamRound c) (sv, ph, th) (sv', ph, th) [Streamed c text]"
| stream_over: "hb_sse (sv_hub sv) = Some b \<Longrightarrow> c \<in> set (subs_of b ch) \<Longrightarrow> stream_end c sv = Done sv' \<Longrightarrow>
    server_step (StreamOver c) (sv, ph, th) (sv', ph, th) []"
| delivery: "i < length (sv_deliveries sv) \<Longrightarrow>
    server_step (Delivery answer i) (sv, ph, th) (fst (run_delivery answer i sv), ph, th) []"
| stop: "server_step Stop (sv, ph, th) (graceful_shutdown sv, ph, th) []"


inductive server_reachable :: "server_system \<Rightarrow> bool" where
  start: "store_ok (NewAPIKeyStore file) \<Longrightarrow>
    server_reachable (main_state file jwtSecret jwtIssuer connect rnd valkeyURL now, Map.empty, \<lambda>_. Halt)"
| step: "server_reachable s \<Longrightarrow> server_step a s s' outs \<Longrightarrow> server_reachable s'"

text \<open>A run, with what it writes.\<close>

inductive server_run :: "server_action list \<Rightarrow> server_system \<Rightarrow> server_system \<Rightarrow> emission list \<Rightarrow> bool" where
  run_Nil: "server_run [] s s []"
| run_Cons: "server_step a s s1 out1 \<Longrightarrow> server_run as s1 s2 out2 \<Longrightarrow> server_run (a # as) s s2 (out1 @ out2)"

inductive_cases server_run_NilE: "server_run [] s s' outs"
inductive_cases server_run_ConsE: "server_run (a # as) s s' outs"

section \<open>The invariant\<close>

lemma main_state_ok:
  assumes "store_ok (NewAPIKeyStore file)"
  shows "server_ok Map.empty (main_state file secret issuer connect rnd url now)"
  using assms hub_inv_New webhooks_ok_New by (simp add: main_state_def server_ok_def)

lemma phases_after_open: "open_conn ph q \<Longrightarrow> open_conn (phases_after res ph) q"
  by (cases res) (simp_all add: open_conn_def)

lemma keep: "system_inv (sv_hub sv, ph, th) \<Longrightarrow> server_ok ph sv' \<Longrightarrow> server_ok ph sv' \<and> system_inv (sv_hub sv', ph, th)"
  using system_inv_hub by (auto simp: server_ok_def)

definition server_inv :: "server_system \<Rightarrow> bool" where
  "server_inv s \<longleftrightarrow> (case s of (sv, ph, th) \<Rightarrow> server_ok ph sv \<and> system_inv (sv_hub sv, ph, th) \<and> all_tame th)"



lemma server_step_ok:
  assumes "server_step a s s' outs" and "server_inv s"
  shows "server_inv s'"
  using assms
proof cases
  case (hub_event e sv ph th h ph' th')
  then have inv: "system_inv (sv_hub sv, ph, th)" "server_ok ph sv" "all_tame th" using assms(2) by (simp_all add: server_inv_def)
  have "hub_inv ph (sv_hub sv)" using inv(2) by (simp add: server_ok_def)
  then have "all_tame th'" using perform_evolves [OF _ inv(3) hub_event(7)] by blast
  moreover have "system_inv (h, ph', th')" using perform_ok [of "sv_hub sv" ph th e] hub_event inv by auto
  ultimately show ?thesis using inv server_ok_hub system_invD(1) hub_event by (auto simp: server_inv_def)
next
  case (request w r sv lg sv' lg' res ph th)
  then have ok: "server_ok (phases_after res ph) sv'" using serve_request_serves [of ph sv w r lg] assms(2) by (auto simp: server_inv_def)
  then have "hub_inv (phases_after res ph) (sv_hub sv')" by (simp add: server_ok_def)
  then have "system_inv (sv_hub sv', phases_after res ph, th)"
    using request(2) assms(2) system_inv_phases phases_after_open by (auto simp: server_inv_def)
  with ok show ?thesis using request(2,3) assms(2) by (simp add: server_inv_def)
next
  case (cleanup ts sv ph th)
  then show ?thesis using assms(2) by (simp add: server_inv_def clean_limiters_def)
next
  case (streaming c sv sv' frame ph th)
  then show ?thesis using assms(2) stream_round_ok [of ph sv c] keep by (auto simp: server_inv_def)
next
  case (stream_over sv b c ch sv' ph th)
  then show ?thesis using assms(2) stream_end_ok [of ph sv b c ch] keep by (auto simp: server_inv_def)
next
  case (delivery i sv answer ph th)
  then have inv: "system_inv (sv_hub sv, ph, th)" "server_ok ph sv" "all_tame th" using assms(2) by (simp_all add: server_inv_def)
  from keep [OF inv(1) run_delivery_ok [OF inv(2)]] show ?thesis using delivery inv(3) by (simp add: server_inv_def)
next
  case (stop sv ph th)
  then have inv: "hub_inv ph (sv_hub sv)" "system_inv (sv_hub sv, ph, th)" "server_ok ph sv" "all_tame th"
    using assms(2) by (simp_all add: server_inv_def server_ok_def)
  from inv(1) have "hub_inv ph ((sv_hub sv)\<lparr>hb_valkey := map_option Close (hb_valkey (sv_hub sv))\<rparr>)"
    by (simp add: hub_inv_def rooms_ok_def user_of_def hub_live_def rooms_of_def queue_ok_def)
  then show ?thesis using stop(3) inv(2-4) server_ok_hub system_inv_hub unfolding graceful_shutdown_def server_inv_def by simp
qed


lemma server_reachable_invariant: "server_reachable s \<Longrightarrow> server_inv s"
proof (induction rule: server_reachable.induct)
  case (start content secret issuer connect rnd url now)
  have "server_ok Map.empty (main_state content secret issuer connect rnd url now)" by (rule main_state_ok [OF start])
  then show ?case using safe_Halt by (auto simp: server_inv_def server_ok_def system_inv_def all_tame_def tame_Halt)
qed (rule server_step_ok)

lemma server_reachable_inv: "server_reachable (sv, ph, th) \<Longrightarrow> server_ok ph sv \<and> system_inv (sv_hub sv, ph, th)"
  using server_reachable_invariant by (auto simp: server_inv_def)

section \<open>What is queued is written\<close>

text \<open>The text frames written to the client \<open>r\<close>, and what was written to the stream of \<open>c\<close>.\<close>

definition texts :: "cref \<Rightarrow> emission list \<Rightarrow> string list" where
  "texts r outs = concat (map (\<lambda>out. case out of Written q (TextMessage t) \<Rightarrow> if q = r then [t] else [] | _ \<Rightarrow> []) outs)"

definition stream_texts :: "sref \<Rightarrow> emission list \<Rightarrow> string list" where
  "stream_texts c outs = concat (map (\<lambda>out. case out of Streamed q t \<Rightarrow> if q = c then [t] else [] | _ \<Rightarrow> []) outs)"

lemma texts_simps [simp]:
  "texts r [] = []" "texts r (o1 @ o2) = texts r o1 @ texts r o2" "texts r [Streamed c t] = []"
  "texts r (map (Written q) (map TextMessage ts)) = (if q = r then ts else [])"
  "stream_texts c [] = []" "stream_texts c (o1 @ o2) = stream_texts c o1 @ stream_texts c o2"
  "stream_texts c [Streamed q t] = (if q = c then [t] else [])" "stream_texts c (map (Written r) frames) = []"
  by (induction ts) (auto simp: texts_def stream_texts_def)


















section \<open>An accepted publication\<close>

text \<open>The request after the handler has filled in the event and the publisher.\<close>

definition completed :: "APIKeyStore \<Rightarrow> http_request \<Rightarrow> publish_req \<Rightarrow> publish_req" where
  "completed ks r q = (let q1 = (if pr_Event q = [] then q\<lparr>pr_Event := ''message''\<rparr> else q) in
     if pr_Publisher q1 = [] then q1\<lparr>pr_Publisher := (case Get ks (header_key r) of None \<Rightarrow> [] | Some k \<Rightarrow> ak_Name k)\<rparr> else q1)"

lemma completed_channel [simp]: "pr_Channel (completed ks r q) = pr_Channel q"
  by (simp add: completed_def Let_def)



section \<open>What the server guarantees\<close>

text \<open>C2. The server does not crash: in every state that any interleaving of requests, goroutine actions, streams,
  webhook deliveries and cleanups can reach, every further HTTP request is answered or handed over to a stream or a WebSocket, and every action of a
  goroutine completes; under the assumptions stated above, no one panics.\<close>

theorem server_never_panics:
  assumes "server_reachable (sv, ph, th)"
  shows "(fills (w_rand w) \<and> unknown_user w r sv \<longrightarrow>
      (\<exists>sv' lg' res. serve_request w r (sv, lg) = Done ((sv', lg'), res) \<and> server_ok (phases_after res ph) sv')) \<and>
    (enabled e (sv_hub sv, ph, th) \<longrightarrow> (\<exists>s'. perform e (sv_hub sv, ph, th) = Done s'))"
  using server_reachable_inv [OF assms] serve_request_serves [of ph sv w r lg] perform_ok [of "sv_hub sv" ph th e] by blast




end
