(* ===== verification/HubRaces.thy ===== *)
theory HubRaces
  imports HubFrames
begin

text \<open>
  What goes wrong where the assumptions of \<open>HubSystem\<close> do not hold: two connections of one user, a direct message to a client that
  leaves between the lookup and the send, two clients that pass the check for the last place in a room together, and a client that
  leaves before it is registered.
\<close>

section \<open>Two connections of one user\<close>

lemma BroadcastMessage_returns:
  assumes "\<forall>r \<in> set (map snd (Clients h)). hub_live h r" and "\<forall>b. hb_sse h = Some b \<longrightarrow> broker_ok b"
  shows "\<exists>h'. BroadcastMessage msg h = Done h'"
proof -
  obtain h1 where h1: "each (hub_offer (wire msg)) (map snd (Clients h)) h = Done h1"
    using ws.each_offer_returns [OF assms(1)] by blast
  have "hb_sse h1 = hb_sse h" using each_offer_same [OF h1] by simp
  then have "\<exists>h2. sse_publish (PublishAll msg) h1 = Done h2"
    using assms(2) PublishAll_ok [OF _ Marshal_wire, of _ msg]
    by (cases "hb_sse h") (fastforce simp: sse_publish_def)+
  then show ?thesis using h1 by (auto simp: BroadcastMessage_def Marshal_wire)
qed

lemma SendMessage_live: "hub_live h r \<Longrightarrow> \<exists>h'. SendMessage r msg h = Done h'"
  using ws.offer_live by (simp add: SendMessage_def Marshal_wire)

lemma kick_effect:
  assumes a: "hb_heap h a = Some ca" "\<not> ch_closed (cl_Send ca)"
  shows "\<exists>h' ca'. kick t a h = Done h' \<and> Clients h' = AList.delete (cl_UserID ca) (Clients h) \<and>
     Rooms h' = Rooms h \<and> hb_sse h' = hb_sse h \<and> (\<forall>r. hub_live h' r \<longleftrightarrow> r \<noteq> a \<and> hub_live h r) \<and>
     hb_heap h' a = Some ca' \<and> cl_UserID ca' = cl_UserID ca \<and> cl_Rooms ca' = cl_Rooms ca \<and> ch_closed (cl_Send ca')"
proof -
  obtain k where k: "SendMessage a (NewSystemMessage t ''connected from another location'') h = Done k"
    using SendMessage_live [of h a] a by (auto simp: hub_live_def)
  note same = SendMessage_effect(2,3) [OF k]
  have "map_option core (hb_heap k a) = Some (core ca)" using same(1) a by (simp add: same_but_queues_def)
  then obtain c where c: "hb_heap k a = Some c" "core c = core ca" by auto
  let ?c = "c\<lparr>cl_Send := (cl_Send c)\<lparr>ch_closed := True\<rparr>\<rparr>"
  let ?k = "k\<lparr>hb_heap := (hb_heap k)(a \<mapsto> ?c)\<rparr>"
  have "close_send a k = Done ?k" using c(1) core_eq(9) [OF c(2)] a(2) by (simp add: close_send_Done)
  then have "kick t a h = Done (?k\<lparr>Clients := AList.delete (cl_UserID ca) (Clients k)\<rparr>)"
    using k c(1) core_eq(1) [OF c(2)] by (simp add: kick_def)
  moreover have "hub_live (?k\<lparr>Clients := AList.delete (cl_UserID ca) (Clients k)\<rparr>) r \<longleftrightarrow> r \<noteq> a \<and> hub_live h r" for r
    using same_but_queues_views(3) [OF same(1)] by (auto simp: hub_live_def fun_eq_iff)
  ultimately show ?thesis using same core_eq(1,2) [OF c(2)]
    by (intro exI [of _ "?k\<lparr>Clients := AList.delete (cl_UserID ca) (Clients k)\<rparr>"] exI [of _ ?c])
       (simp add: same_but_queues_def)
qed

text \<open>The new client of a user who already has the registered client \<open>a\<close>.\<close>

lemma second_connection:
  assumes inv: "hub_inv ph h" and a: "ph a = Some Active" "hb_heap h a = Some ca"
    and new: "ws_admit claims (cl_UserID ca) key ch h = Done (h1, b)"
  shows "a \<noteq> b" and "\<exists>cb. hb_heap h1 b = Some cb \<and> cl_UserID cb = cl_UserID ca" and "hub_live h1 b"
    and "hb_heap h1 a = Some ca" and "\<not> ch_closed (cl_Send ca)"
    and "map_of (Clients h1) (cl_UserID ca) = Some a" and "gomap_ok (Clients h1)"
    and "map_of (Clients h1) u = Some r \<Longrightarrow> u \<noteq> cl_UserID ca \<Longrightarrow> r \<noteq> a \<and> hub_live h1 r"
    and "\<forall>k. hb_sse h1 = Some k \<longrightarrow> broker_ok k"
proof -
  have b: "b = hb_next h" using new by (auto simp: ws_admit_def NewClient_def Let_def split: if_splits)
  show ab: "a \<noteq> b" using hub_inv_parts(8) [OF inv, of a] a(1) b by simp
  obtain cb where cb: "hb_heap h1 b = Some cb" "cl_UserID cb = cl_UserID ca" "\<not> ch_closed (cl_Send cb)"
    and same: "\<And>r. r \<noteq> b \<Longrightarrow> hb_heap h1 r = hb_heap h r" "Clients h1 = Clients h" "hb_sse h1 = hb_sse h"
    using new b by (auto simp: ws_admit_def NewClient_def mark_room_def JoinRoom_def Let_def split: if_splits)
  then show "\<exists>cb. hb_heap h1 b = Some cb \<and> cl_UserID cb = cl_UserID ca" "hub_live h1 b"
    by (auto simp: hub_live_def)
  show "hb_heap h1 a = Some ca" using same(1) [OF ab] a(2) by simp
  show "\<not> ch_closed (cl_Send ca)"
    using hub_inv_parts(2) [OF inv, of a] a by (simp add: hub_live_def open_conn_def)
  show "map_of (Clients h1) (cl_UserID ca) = Some a"
    using hub_inv_parts(3) [OF inv, of "cl_UserID ca" a] a same(2) by (simp add: user_of_def)
  show "gomap_ok (Clients h1)" using hub_inv_parts(6) [OF inv] same(2) by simp
  show "\<forall>k. hb_sse h1 = Some k \<longrightarrow> broker_ok k" using hub_inv_parts(1) [OF inv] same(3) by simp
  show "r \<noteq> a \<and> hub_live h1 r" if "map_of (Clients h1) u = Some r" "u \<noteq> cl_UserID ca"
  proof -
    from that have r: "ph r = Some Active" "user_of h r = Some u"
      using hub_inv_parts(3) [OF inv, of u r] same(2) by auto
    moreover have "r \<noteq> b" using hub_inv_parts(8) [OF inv, of r] r(1) b by simp
    moreover have "hub_live h r" using hub_inv_parts(2) [OF inv, of r] r(1) by (simp add: open_conn_def)
    ultimately show ?thesis using that(2) a(2) same(1) by (auto simp: user_of_def hub_live_def)
  qed
qed

text \<open>Registering \<open>b\<close> for the user of the registered client \<open>a\<close> completes; afterwards \<open>b\<close> is filed for the user and the
  queue of \<open>a\<close> is closed, while \<open>a\<close> is still in its rooms.\<close>

lemma second_registration:
  assumes inv: "hub_inv ph h" and a: "ph a = Some Active" "hb_heap h a = Some ca"
    and new: "ws_admit claims (cl_UserID ca) key ch h = Done (h1, b)"
  shows "\<exists>h2 ca'. Run_register t0 t1 t2 b h1 = Done h2 \<and> map_of (Clients h2) (cl_UserID ca) = Some b \<and>
     hb_heap h2 a = Some ca' \<and> cl_UserID ca' = cl_UserID ca \<and> cl_Rooms ca' = cl_Rooms ca \<and> ch_closed (cl_Send ca') \<and>
     (\<forall>r. hub_live h2 r \<longleftrightarrow> r \<noteq> a \<and> hub_live h1 r) \<and> Rooms h2 = Rooms h1"
proof -
  let ?uid = "cl_UserID ca"
  note conn = second_connection [OF inv a new]
  obtain k ca1 where k: "kick t0 a h1 = Done k" "Clients k = AList.delete ?uid (Clients h1)" "Rooms k = Rooms h1"
    "hb_sse k = hb_sse h1" and live: "\<forall>r. hub_live k r \<longleftrightarrow> r \<noteq> a \<and> hub_live h1 r"
    and ca1: "hb_heap k a = Some ca1" "cl_UserID ca1 = ?uid" "cl_Rooms ca1 = cl_Rooms ca" "ch_closed (cl_Send ca1)"
    using kick_effect [OF conn(4,5), of t0] by auto
  define k3 where "k3 = k\<lparr>Clients := AList.update ?uid b (Clients k)\<rparr>"
  have live3: "hub_live k3 r \<longleftrightarrow> r \<noteq> a \<and> hub_live h1 r" for r using live by (simp add: k3_def hub_live_def)
  then obtain k4 where k4: "SendMessage b (connected_message t1 ?uid) k3 = Done k4"
    using SendMessage_live conn(1,3) by metis
  note k4s = SendMessage_effect(2,3) [OF k4]
  have clients4: "Clients k4 = AList.update ?uid b (AList.delete ?uid (Clients h1))"
    using k4s(1) k(2) by (simp add: same_but_queues_def k3_def)
  have "hub_live k4 r" if "r \<in> set (map snd (Clients k4))" for r
  proof -
    have "gomap_ok (Clients k4)" using conn(7) by (simp add: clients4)
    with that obtain u where "map_of (Clients k4) u = Some r" using gomap_values by metis
    then show ?thesis using conn(1,3) conn(8) [of u r] live3 same_but_queues_views(3) [OF k4s(1)]
      by (auto simp: clients4 split: if_splits)
  qed
  moreover have "\<forall>x. hb_sse k4 = Some x \<longrightarrow> broker_ok x" using k4s(2) k(4) conn(9) by (simp add: k3_def)
  ultimately obtain h2 where h2: "BroadcastMessage (user_message MsgTypeUserJoined t2 ?uid []) k4 = Done h2"
    using BroadcastMessage_returns [of k4 "user_message MsgTypeUserJoined t2 ?uid []"] by auto
  have s: "same_but_queues k3 h2" using same_but_queues_trans [OF k4s(1) BroadcastMessage_same [OF h2]] .
  have "Run_register t0 t1 t2 b h1 = Done h2"
    using conn(2,6) k(1) k4 h2 by (auto simp: Run_register_def Let_def k3_def)
  moreover have "map_of (Clients h2) ?uid = Some b" "Rooms h2 = Rooms h1"
    using s k(3) by (simp_all add: same_but_queues_def k3_def)
  moreover have "map_option core (hb_heap h2 a) = Some (core ca1)"
    using s ca1(1) by (simp add: same_but_queues_def k3_def)
  then obtain ca' where ca': "hb_heap h2 a = Some ca'" "core ca' = core ca1" by auto
  moreover have "hub_live h2 r \<longleftrightarrow> r \<noteq> a \<and> hub_live h1 r" for r
    using live3 same_but_queues_views(3) [OF s] by simp
  ultimately show ?thesis using core_eq(1,2,9) [OF ca'(2)] ca1 by auto
qed

text \<open>C20. A second connection of a user crashes the process: when the event loop has registered the new connection
  and then takes the old one from \<^verbatim>\<open>Unregister\<close>, it finds the user in \<^verbatim>\<open>Clients\<close> and closes the queue it had
  closed when it kicked the old connection.\<close>

theorem duplicate_login_panics:
  assumes "reachable (h, ph, th)" and "ph a = Some Active" and "hb_heap h a = Some ca"
    and "ws_admit claims (cl_UserID ca) key ch h = Done (h1, b)"
  shows "\<exists>h2. Run_register t0 t1 t2 b h1 = Done h2 \<and> Run_unregister t3 a h2 = Panic CloseOfClosedChannel"
proof -
  have inv: "hub_inv ph h" using reachable_inv [OF assms(1)] .
  obtain h2 ca' where h2: "Run_register t0 t1 t2 b h1 = Done h2" "map_of (Clients h2) (cl_UserID ca) = Some b"
    "hb_heap h2 a = Some ca'" "cl_UserID ca' = cl_UserID ca" "ch_closed (cl_Send ca')"
    using second_registration [OF inv assms(2-4), of t0 t1 t2] by auto
  let ?k = "fold (\<lambda>room. LeaveRoom room a) (cl_Rooms ca') (h2\<lparr>Clients := AList.delete (cl_UserID ca) (Clients h2)\<rparr>)"
  have "hb_heap (fold (\<lambda>room. LeaveRoom room a) rs k) = hb_heap k" for rs k
    by (induction rs arbitrary: k) simp_all
  then have "close_send a ?k = Panic CloseOfClosedChannel"
    using h2(3,5) by (simp add: close_send_def close_chan_twice)
  then show ?thesis using h2 by (auto simp: Run_unregister_def Let_def)
qed

lemma each_offer_closed:
  "\<forall>r \<in> set rs. hb_heap h r \<noteq> None \<Longrightarrow> \<exists>r \<in> set rs. \<not> hub_live h r \<Longrightarrow>
   each (hub_offer d) rs h = Panic SendOnClosedChannel"
proof (induction rs arbitrary: h)
  case (Cons r rs)
  then obtain c where c: "hb_heap h r = Some c" by auto
  show ?case
  proof (cases "hub_live h r")
    case True
    then obtain h1 where h1: "hub_offer d r h = Done h1" using ws.offer_live by blast
    have "same_but_queues h h1" using hub_offer_same [OF h1] by simp
    note v = same_but_queues_views(3,4) [OF this]
    have "\<forall>r \<in> set rs. hb_heap h1 r \<noteq> None" "\<exists>r \<in> set rs. \<not> hub_live h1 r"
      using Cons.prems True v by auto
    from Cons.IH [OF this] h1 show ?thesis by simp
  qed (use c in \<open>simp add: hub_offer_eq hub_live_def\<close>)
qed simp

lemma ws_admit_others:
  assumes "ws_admit claims uid key ch h = Done (h1, b)" and "r \<noteq> b"
  shows "r \<in> set (members (Rooms h1) room) \<longleftrightarrow> r \<in> set (members (Rooms h) room)" and "hb_heap h1 r = hb_heap h r"
  using assms by (auto simp: ws_admit_def NewClient_def mark_room_def JoinRoom_def Let_def split: if_splits)

text \<open>The kicked connection stays in its rooms with a closed queue: from the moment the second connection is
  registered, a message of anybody else to one of these rooms crashes the process.\<close>

lemma kicked_member_panics:
  assumes "reachable (h, ph, th)" and "ph a = Some Active" and "hb_heap h a = Some ca"
    and "ws_admit claims (cl_UserID ca) key ch h = Done (h1, b)"
    and "room \<in> set (cl_Rooms ca)" and "ex \<noteq> cl_UserID ca"
  shows "\<exists>h2. Run_register t0 t1 t2 b h1 = Done h2 \<and>
    BroadcastToRoom room msg ex h2 = Panic SendOnClosedChannel"
proof -
  have inv: "hub_inv ph h" using reachable_inv [OF assms(1)] .
  obtain h2 ca' where h2: "Run_register t0 t1 t2 b h1 = Done h2" "hb_heap h2 a = Some ca'"
    "cl_UserID ca' = cl_UserID ca" "ch_closed (cl_Send ca')" "Rooms h2 = Rooms h1"
    and live: "\<forall>r. hub_live h2 r \<longleftrightarrow> r \<noteq> a \<and> hub_live h1 r"
    using second_registration [OF inv assms(2-4), of t0 t1 t2] by auto
  note others = ws_admit_others [OF assms(4)]
  have live1: "hub_live h1 r" if "r \<in> set (members (Rooms h1) room)" for r
  proof (cases "r = b")
    case False
    then have "hub_live h r" using that others(1) hub_inv_parts(2,4) [OF inv] by blast
    then show ?thesis using others(2) [OF False] by (simp add: hub_live_def)
  qed (use second_connection(3) [OF inv assms(2-4)] in simp)
  have heap: "\<forall>r \<in> set (members (Rooms h1) room). hb_heap h2 r \<noteq> None"
  proof
    fix r
    assume "r \<in> set (members (Rooms h1) room)"
    then show "hb_heap h2 r \<noteq> None"
      using live1 [of r] spec [OF live, of r] h2(2) by (cases "r = a") (auto simp: hub_live_def [of h2] split: option.splits)
  qed
  have a: "a \<in> set (members (Rooms h1) room)"
    using others(1) [of a room] second_connection(1) [OF inv assms(2-4)] hub_inv_parts(4) [OF inv, of a room] assms(2,3,5)
    by (simp add: open_conn_def rooms_of_def)
  then obtain ms where ms: "map_of (Rooms h2) room = Some ms" "members (Rooms h1) room = ms"
    using h2(5) by (cases "map_of (Rooms h1) room") (auto simp: members_def)
  have "each (room_offer ex (wire msg)) ms h2 = Panic SendOnClosedChannel"
  proof -
    let ?rs = "filter (\<lambda>r. user_of h2 r \<noteq> Some ex) ms"
    have "a \<in> set ?rs" using a h2(2,3) assms(6) by (simp add: ms(2) user_of_def)
    moreover have "\<not> hub_live h2 a" using live by simp
    moreover have "\<forall>r \<in> set ?rs. hb_heap h2 r \<noteq> None" using heap unfolding ms(2) by simp
    ultimately have "each (hub_offer (wire msg)) ?rs h2 = Panic SendOnClosedChannel" by (intro each_offer_closed) blast+
    then show ?thesis using room_offer_filter [OF heap [unfolded ms(2)]] by simp
  qed
  then show ?thesis using h2(1) ms(1) by (simp add: BroadcastToRoom_def Marshal_wire)
qed

section \<open>Interleavings within a handler\<close>

text \<open>C21. A direct message can crash the process: \<^verbatim>\<open>SendToUser\<close> looks the client up, releases the lock and then sends; when the event
  loop unregisters that client in between, the send is on a closed channel.\<close>

theorem direct_message_race:
  assumes "reachable (h, ph, th)" and "map_of (Clients h) uid = Some q"
  shows "\<exists>h'. step_prog (SendToUser_prog uid msg k) h = Done (h, Deliver q msg (k True)) \<and>
    ReadPump_exit t q h = Done h' \<and> step_prog (Deliver q msg (k True)) h' = Panic SendOnClosedChannel"
proof -
  have inv: "hub_inv ph h" using reachable_inv [OF assms(1)] .
  have q: "ph q = Some Active" using hub_inv_parts(3) [OF inv, of uid q] assms(2) by simp
  obtain h1 where h1: "Run_unregister t q h = Done h1" "hub_inv (ph(q \<mapsto> Gone)) h1"
    using Run_unregister_inv [OF inv q] by blast
  obtain c where c: "hb_heap h1 q = Some c" using hub_inv_parts(5) [OF h1(2), of q] by auto
  have "ch_closed (cl_Send c)" using hub_inv_parts(2) [OF h1(2), of q] c by (simp add: hub_live_def open_conn_def)
  then have "SendMessage q msg (close_conn q h1) = Panic SendOnClosedChannel"
    using c by (simp add: SendMessage_def Marshal_wire hub_offer_eq close_conn_def)
  then show ?thesis using h1(1) assms(2) by (simp add: ReadPump_exit_def SendToUser_prog_def)
qed

text \<open>C22. Two clients can take the last place of a room together. The room's rule sets \<^verbatim>\<open>max_members\<close> and one place is left. When the second
  client starts after the first has joined, \<^verbatim>\<open>CheckMaxMembers\<close> refuses it; when the two goroutines take turns, both find the place free,
  both join, and the room has one member more than its rule allows.\<close>

theorem join_limit_race:
  assumes "th (Reader r) = handleJoinRoom_prog env clk r c msg" and "th (Reader q) = handleJoinRoom_prog env clk' q d msg"
    and "r \<noteq> q" and "hb_heap h r \<noteq> None" and "hb_heap h q \<noteq> None"
    and "GetChannelACL (hb_acl h) (m_Room msg) = Some rule" and "acl_MaxMembers rule \<noteq> 0" and "cl_ACLManager c" and "cl_ACLManager d"
    and "int (RoomMemberCount (m_Room msg) h) + 1 = acl_MaxMembers rule"
    and "join_refusal env c (m_Room msg) h = None" and "join_refusal env d (m_Room msg) h = None"
    and "r \<notin> set (members (Rooms h) (m_Room msg))" and "q \<notin> set (members (Rooms h) (m_Room msg))"
  shows "(\<exists>h' th'. each perform (concat (replicate 4 [Step (Reader r), Step (Reader q)])) (h, ph, th) = Done (h', ph, th') \<and>
      {r, q} \<subseteq> set (members (Rooms h') (m_Room msg)) \<and>
      int (RoomMemberCount (m_Room msg) h') = acl_MaxMembers rule + 1 \<and> GetChannelACL (hb_acl h') (m_Room msg) = Some rule) \<and>
    (\<exists>h' th'. each perform (replicate 4 (Step (Reader r)) @ replicate 3 (Step (Reader q))) (h, ph, th) = Done (h', ph, th') \<and>
      int (RoomMemberCount (m_Room msg) h') = acl_MaxMembers rule \<and> q \<notin> set (members (Rooms h') (m_Room msg)) \<and>
      th' (Reader q) = say q (NewErrorMessage (clk' 0) (''room '' @ m_Room msg @ '' is full'')))"
proof -
  let ?room = "m_Room msg"
  define join where "join = (\<lambda>p h. and_then (mark_room p ?room h) (\<lambda>h1. Done (JoinRoom ?room p h1)))"
  have count: "RoomMemberCount room k = length (members (Rooms k) room)" for room k
    by (simp add: RoomMemberCount_def members_def split: option.split)
  have joins: "\<exists>k'. join p k = Done k' \<and> members (Rooms k') ?room = List.insert p (members (Rooms k) ?room) \<and> hb_acl k' = hb_acl k \<and>
      (\<forall>p'. hb_heap k p' \<noteq> None \<longrightarrow> hb_heap k' p' \<noteq> None)" if "hb_heap k p \<noteq> None" for p k
    using that by (auto simp: join_def mark_room_def JoinRoom_def)
  obtain h1 where h1: "join r h = Done h1" "members (Rooms h1) ?room = List.insert r (members (Rooms h) ?room)"
    "hb_acl h1 = hb_acl h" "hb_heap h1 q \<noteq> None" using joins [of h r] assms(4,5) by auto
  obtain h2 where h2: "join q h1 = Done h2" "members (Rooms h2) ?room = List.insert q (members (Rooms h1) ?room)" "hb_acl h2 = hb_acl h1"
    using joins [of h1 q] h1(4) by auto
  have enter: "enter_prog env clk1 p e msg = act (join p) (act (SendMessage p (NewAckMessage (clk1 0) (m_ID msg)))
          (BroadcastToRoom_prog ?room (user_message MsgTypeUserJoined (clk1 1) (cl_UserID e) ?room) (cl_UserID e) Halt))"
    if "join_refusal env e ?room h = None" for clk1 p e
    using that by (auto simp: enter_prog_def join_def join_refusal_def split: if_splits)
  note progs = assms(1,2) [unfolded handleJoinRoom_prog_def Let_def] enter [OF assms(11)] enter [OF assms(12)]
  have gates: "?room \<noteq> []" "CanJoin (hb_acl h) ?room (cl_APIKey c) (cl_UserID c)" "CanJoin (hb_acl h) ?room (cl_APIKey d) (cl_UserID d)"
    using assms(8,9,11,12) by (auto simp: join_refusal_def split: if_splits)
  have limit: "CheckMaxMembers (hb_acl h) ?room n \<longleftrightarrow> n < acl_MaxMembers rule" for n
    using assms(6,7) by (simp add: CheckMaxMembers_def GetChannelACL_def)
  show ?thesis
    using assms(3,8-10,13,14) h1 h2 gates limit assms(6)
    by (simp add: eval_nat_numeral progs look_def act_def count)
qed

lemma enabled_run_Done: "enabled_run es s \<Longrightarrow> \<exists>s'. each perform es s = Done s'"
proof (induction es arbitrary: s)
  case (Cons e es)
  then show ?case by (cases "perform e s") auto
qed (metis each.simps(1))

text \<open>A reading goroutine that has ended takes no action, as long as nothing is read.\<close>

lemma ended_reader:
  assumes "enabled_run es (h, ph, th)" and "th (Reader r) = Halt" and "\<forall>e \<in> set es. \<forall>env clk raw. e \<noteq> Receive env clk r raw"
  shows "Step (Reader r) \<notin> set es"
  using assms
proof (induction es arbitrary: h ph th)
  case (Cons e es)
  then obtain h1 ph1 th1 where one: "perform e (h, ph, th) = Done (h1, ph1, th1)" and rest: "enabled_run es (h1, ph1, th1)"
    by (cases "perform e (h, ph, th)") auto
  have not_me: "e \<noteq> Step (Reader r)" using Cons.prems(1,2) by auto
  then have "th1 (Reader r) = Halt"
    using one Cons.prems(2,3) by (cases e) (auto split: option.splits prod.splits)
  with Cons.IH [OF rest] Cons.prems(3) not_me show ?case by simp
qed simp

text \<open>A connection that does not leave becomes active when it is registered, and stays so.\<close>

lemma phase_kept:
  assumes "reachable (h, ph, th)" and "enabled_run es (h, ph, th)" and "each perform es (h, ph, th) = Done (h', ph', th')"
    and "\<forall>e \<in> set es. \<forall>t. e \<noteq> Leaving t r"
    and "ph r = Some Active \<or> ph r = Some Joining \<and> (\<exists>t0 t1 t2. Registering t0 t1 t2 r \<in> set es)"
  shows "ph' r = Some Active"
  using assms
proof (induction es arbitrary: h ph th)
  case (Cons e es)
  then obtain h1 ph1 th1 where one: "perform e (h, ph, th) = Done (h1, ph1, th1)"
    and rest: "enabled_run es (h1, ph1, th1)" "each perform es (h1, ph1, th1) = Done (h', ph', th')"
    by (cases "perform e (h, ph, th)") auto
  have reach: "reachable (h1, ph1, th1)" using reachable.step [OF Cons.prems(1) _ one] Cons.prems(2) by simp
  have "r < hb_next h" using Cons.prems(5) hub_inv_parts(8) [OF reachable_inv [OF Cons.prems(1)], of r] by auto
  then have "(\<exists>t0 t1 t2. e = Registering t0 t1 t2 r) \<and> ph1 r = Some Active \<or>
      (\<forall>t0 t1 t2. e \<noteq> Registering t0 t1 t2 r) \<and> ph1 r = ph r"
    using one Cons.prems(4)
    by (cases e) (auto simp: ws_admit_def NewClient_def mark_room_def Let_def split: option.splits prod.splits if_splits)
  then have "ph1 r = Some Active \<or> ph1 r = Some Joining \<and> (\<exists>t0 t1 t2. Registering t0 t1 t2 r \<in> set es)"
    using Cons.prems(5) by auto
  from Cons.IH [OF reach rest _ this] Cons.prems(4) show ?case by simp
qed simp

text \<open>C23. A connection that fails before the event loop has registered it stays: its \<^verbatim>\<open>Unregister\<close> finds nobody to remove,
  and the registration that follows files a client whose reading goroutine has ended. However the run goes on (the goroutine reads
  nothing more and does not unregister again, and nobody connects with the same user ID, which is a guard of \<open>Connect\<close>), the client
  stays in \<^verbatim>\<open>Clients\<close> and in all its rooms, with its connection closed.\<close>

theorem early_leave_ghost:
  assumes "reachable (h, ph, th)" and "ph r = Some Joining" and "hb_heap h r = Some c"
    and "enabled_run (Leaving t r # es) (h, ph, th)" and "Registering t0 t1 t2 r \<in> set es"
    and "\<forall>e \<in> set es. (\<forall>t'. e \<noteq> Leaving t' r) \<and> (\<forall>env clk raw. e \<noteq> Receive env clk r raw)"
  shows "\<exists>h' ph' th' c'. each perform (Leaving t r # es) (h, ph, th) = Done (h', ph', th') \<and>
    hb_heap h' r = Some c' \<and> cl_conn_closed c' \<and> map_of (Clients h') (cl_UserID c) = Some r \<and>
    (\<forall>room \<in> set (cl_Rooms c). r \<in> set (members (Rooms h') room))"
proof -
  obtain h1 th1 where one: "perform (Leaving t r) (h, ph, th) = Done (close_conn r h1, ph, th1)" and "th1 (Reader r) = Halt"
    and rest: "enabled_run es (close_conn r h1, ph, th1)"
    using assms(2-4) by (auto split: outcome.splits)
  obtain h' ph' th' where run: "each perform es (close_conn r h1, ph, th1) = Done (h', ph', th')"
    using enabled_run_Done [OF rest] by (metis prod_cases3)
  have reach: "reachable (close_conn r h1, ph, th1)" using reachable.step [OF assms(1) _ one] assms(4) by simp
  have ev: "evolves {} {} {} h (close_conn r h1)"
    using perform_evolves [OF reachable_inv [OF assms(1)] reachable_tame [OF assms(1)] one] by simp
  then obtain c1 where c1: "hb_heap (close_conn r h1) r = Some c1" "cl_UserID c1 = cl_UserID c" "cl_Rooms c1 = cl_Rooms c"
    using evolves_client [OF ev assms(3)] by (auto simp: client_evolves_def)
  then have closed: "cl_conn_closed c1" by (auto simp: close_conn_def)
  have "Step (Reader r) \<notin> set es" using ended_reader [OF rest \<open>th1 (Reader r) = Halt\<close>] assms(6) by blast
  then have "mover e \<subseteq> - {r}" if "e \<in> set es" for e using that by (cases e rule: mover.cases) auto
  with run_evolves [OF reach rest run, of "- {r}" UNIV UNIV]
  obtain c' where c': "hb_heap h' r = Some c'" "cl_UserID c' = cl_UserID c" "cl_Rooms c' = cl_Rooms c" "cl_conn_closed c'"
    using evolves_client [OF _ c1(1)] c1(2,3) closed by (force simp: client_evolves_def)
  have inv: "hub_inv ph' h'" using reachable_inv [OF reachable_run [OF reach rest run]] .
  have "ph' r = Some Active" using phase_kept [OF reach rest run] assms(2,5,6) by blast
  then have "map_of (Clients h') (cl_UserID c) = Some r" "\<forall>room \<in> set (cl_Rooms c). r \<in> set (members (Rooms h') room)"
    using hub_inv_parts(3) [OF inv, of "cl_UserID c" r] hub_inv_parts(4) [OF inv, of r] c'
    by (simp_all add: user_of_def rooms_of_def open_conn_def)
  then show ?thesis using one run c' by auto
qed

end
