(* ===== verification/HubDemo.thy ===== *)
theory HubDemo
  imports HubRaces
begin

text \<open>
  A run of the system with two users in one room, and the theorems of the hub applied to it.
\<close>

definition user_key :: string where "user_key = ''key-12345678''"

definition demo_bridge :: Bridge where
  "demo_bridge = \<lparr>vb_enabled = False, vb_client = False, vb_nodeID = ''n1'', vb_closed = False, vb_outbox = []\<rparr>"

definition demo_events :: "event list" where
  "demo_events = [Connect None ''ann'' user_key ''chat'', Connect None ''bob'' user_key ''chat'',
     Registering 1 2 3 0, Step Loop, Step Loop, Step Loop, Step Loop,
     Registering 4 5 6 1, Step Loop, Step Loop, Step Loop, Step Loop]"

definition demo_boot :: system where
  "demo_boot = boot NewACLManager (Metrics_New 0) demo_bridge"

definition demo_client :: "string \<Rightarrow> string list \<Rightarrow> Client" where
  "demo_client uid queue = \<lparr>cl_conn_closed = False, cl_Send = \<lparr>ch_buf = queue, ch_cap = 256, ch_closed = False\<rparr>,
     cl_UserID = uid, cl_APIKey = user_key, cl_Rooms = [''chat''], cl_Info = None, cl_JWTClaims = None,
     cl_ACLManager = True, cl_Metrics = True\<rparr>"

definition demo_hub :: Hub where
  "demo_hub = \<lparr>
     hb_heap = [0 \<mapsto> demo_client ''ann'' [wire (connected_message 2 ''ann''),
                       wire (user_message MsgTypeUserJoined 3 ''ann'' []), wire (user_message MsgTypeUserJoined 6 ''bob'' [])],
                1 \<mapsto> demo_client ''bob'' [wire (connected_message 5 ''bob''),
                       wire (user_message MsgTypeUserJoined 6 ''bob'' [])]],
     hb_next = 2, Clients = [(''ann'', 0), (''bob'', 1)], Rooms = [(''chat'', [1, 0])],
     hb_valkey = Some demo_bridge, hb_sse = Some NewSSEBroker, hb_acl = NewACLManager,
     hb_metrics = (Metrics_New 0)\<lparr>WsConnections := 2\<rparr>\<rparr>"

definition demo_phases :: phases where
  "demo_phases = [0 \<mapsto> Active, 1 \<mapsto> Active]"

definition idle :: threads where "idle = (\<lambda>_. Halt)"

lemmas demo_defs = demo_events_def demo_boot_def boot_def SetSSE_def SetValkey_def Hub_New_def ws_admit_def
  NewClient_def mark_room_def JoinRoom_def Let_def members_def register_locked_def register_prog_def look_def BroadcastMessage_prog_def
  relay_prog_def act_def SendMessage_def Marshal_wire
  hub_offer_eq posted_def sse_publish_def PublishAll_def NewSSEBroker_def valkey_publish_def
  PublishBroadcast_def demo_bridge_def demo_hub_def demo_client_def demo_phases_def make_chan_def ch_space_def
  user_key_def Metrics_New_def

lemma demo_run: "each perform demo_events demo_boot = Done (demo_hub, demo_phases, idle)"
  by (simp add: demo_defs idle_def fun_upd_twist fun_eq_iff)

lemma demo_enabled: "enabled_run demo_events demo_boot"
  by (auto simp: demo_defs open_conn_def user_of_def split: if_splits)

lemma demo_reachable: "reachable (demo_hub, demo_phases, idle)"
  using reachable_run [OF reachable.boot demo_enabled [unfolded demo_boot_def]] demo_run
  by (simp add: demo_boot_def)

lemma demo_inv: "hub_inv demo_phases demo_hub"
  using reachable_inv [OF demo_reachable] .

lemma demo_open: "open_conn demo_phases 0" "open_conn demo_phases 1" "\<not> open_conn demo_phases 2"
  by (simp_all add: open_conn_def demo_phases_def)

text \<open>The two clients, with the queues they have in the demo state.\<close>

definition ann :: Client where "ann = the (hb_heap demo_hub 0)"
definition bob :: Client where "bob = the (hb_heap demo_hub 1)"

lemma demo_clients:
  "hb_heap demo_hub 0 = Some ann" "hb_heap demo_hub 1 = Some bob" "cl_UserID ann = ''ann''" "cl_UserID bob = ''bob''"
  "cl_Rooms ann = [''chat'']" "cl_Rooms bob = [''chat'']" "cl_ACLManager ann" "cl_APIKey ann = user_key"
  "cl_JWTClaims ann = None"
  by (simp_all add: ann_def bob_def demo_hub_def demo_client_def)

lemma demo_queues:
  "send_cap demo_hub 0 = 256" "send_cap demo_hub 1 = 256" "length (hub_inbox demo_hub 0) = 3"
  "length (hub_inbox demo_hub 1) = 2" "rooms_of demo_hub 1 = [''chat'']" "rooms_of demo_hub 0 = [''chat'']"
  by (simp_all add: demo_hub_def demo_client_def send_cap_def hub_inbox_def rooms_of_def)

lemma demo_maps: "Clients demo_hub = [(''ann'', 0), (''bob'', 1)]" "members (Rooms demo_hub) ''chat'' = [1, 0]"
  "hb_acl demo_hub = NewACLManager" "hb_valkey demo_hub = Some demo_bridge"
  by (simp_all add: demo_hub_def members_def)

definition hello :: Message where
  "hello = zero_Message\<lparr>m_Room := ''chat'', m_TargetID := ''bob'', m_Payload := JStr ''hi'', m_UserID := ''eve''\<rparr>"

lemma hello_fields: "m_Room hello = ''chat''" "m_TargetID hello = ''bob''"
  by (simp_all add: hello_def)

theorem system_never_panics_witness:
  "\<exists>s'. perform (Receive sample_env (\<lambda>_. 7) 0 ''x'') (demo_hub, demo_phases, idle) = Done s'"
  using system_never_panics [OF demo_reachable, of "Receive sample_env (\<lambda>_. 7) 0 ''x''"] demo_open
  by (simp add: MaxMessageSize_def idle_def)

theorem hub_coherent_witness: "1 \<in> set (members (Rooms demo_hub) ''chat'') \<and> length (ch_buf (cl_Send bob)) \<le> 256"
  using hub_coherent [OF demo_reachable] demo_clients by (simp add: demo_maps)

theorem room_message_delivered_witness:
  "\<exists>h'. handleRoomMessage sample_env (\<lambda>_. 7) 0 hello demo_hub = Done h' \<and>
     hub_inbox h' 1 = hub_inbox demo_hub 1 @ [wire (hello\<lparr>m_UserID := ''ann'', m_Timestamp := 7\<rparr>)]"
proof -
  have "CanWrite (unicode_lower sample_env) (hb_acl demo_hub) (m_Room hello) (cl_UserID ann)"
    by (simp add: CanWrite_def demo_maps NewACLManager_def)
  then obtain h' where "handleRoomMessage sample_env (\<lambda>_. 7) 0 hello demo_hub = Done h'"
    and "hub_inbox h' 1 = push 256 (hub_inbox demo_hub 1) (wire (hello\<lparr>m_UserID := ''ann'', m_Timestamp := 7\<rparr>))"
    using room_message_delivered [OF demo_inv demo_open(1) demo_clients(1), of hello "sample_env" "\<lambda>_. 7"]
      demo_clients demo_queues demo_open hello_fields by (force simp: Let_def)
  then show ?thesis using demo_queues by (simp add: push_def)
qed

theorem WritePump_in_order_witness:
  "\<exists>h' sent lost ok. WritePump_step (\<lambda>_. True) 0 demo_hub = Some (h', map TextMessage sent, ok) \<and>
     ch_buf (cl_Send ann) = sent @ lost @ hub_inbox h' 0"
proof -
  have "ch_buf (cl_Send ann) \<noteq> []" by (simp add: ann_def demo_hub_def demo_client_def)
  then show ?thesis using WritePump_in_order [OF demo_clients(1), of "\<lambda>_. True"] by blast
qed

theorem direct_message_delivered_witness:
  "\<exists>h'. handleDirect (\<lambda>_. 7) 0 hello demo_hub = Done h' \<and>
     hub_inbox h' 1 = hub_inbox demo_hub 1 @ [wire (hello\<lparr>m_UserID := ''ann'', m_Timestamp := 7\<rparr>)]"
proof -
  have "map_of (Clients demo_hub) (m_TargetID hello) = Some 1" by (simp add: demo_maps hello_fields)
  from direct_message_delivered [OF demo_inv demo_open(1) demo_clients(1) _ this, of "\<lambda>_. 7"]
  show ?thesis using demo_clients demo_queues hello_fields by (auto simp: Let_def push_def)
qed

theorem direct_to_absent_user_acked_witness:
  "\<exists>h'. handleDirect (\<lambda>_. 7) 0 (hello\<lparr>m_TargetID := ''zoe''\<rparr>) demo_hub = Done h' \<and>
     hub_inbox h' 0 = hub_inbox demo_hub 0 @ [wire (NewAckMessage 7 [])]"
proof -
  let ?m = "hello\<lparr>m_TargetID := ''zoe''\<rparr>"
  have "map_of (Clients demo_hub) (m_TargetID ?m) = None" "\<not> vb_enabled demo_bridge" "m_ID ?m = []"
    by (simp_all add: demo_maps demo_bridge_def hello_def zero_Message_def)
  then show ?thesis
    using direct_to_absent_user_acked [OF demo_inv demo_open(1) demo_clients(1), of ?m demo_bridge "\<lambda>_. 7"]
      demo_maps(4) demo_queues by (auto simp: push_def)
qed


definition small_room :: ChannelACL where
  "small_room = \<lparr>acl_Channel = ''chat'', acl_Public = False, acl_MaxMembers = 2, acl_AllowedKeys = None, acl_Permissions = None\<rparr>"

theorem leaving_cleans_up_witness:
  "\<exists>h'. ReadPump_exit 9 0 demo_hub = Done h' \<and> 0 \<notin> set (members (Rooms h') ''chat'') \<and>
     1 \<in> set (members (Rooms h') ''chat'')"
  using leaving_cleans_up [OF demo_reachable, of 0 9] by (auto simp: demo_phases_def demo_maps)

lemma second_ann:
  "\<exists>h1. ws_admit None (cl_UserID ann) user_key [] demo_hub = Done (h1, 2)"
  by (simp add: ws_admit_def NewClient_def Let_def demo_hub_def)

theorem duplicate_login_panics_witness:
  "\<exists>h1 h2. ws_admit None ''ann'' user_key [] demo_hub = Done (h1, 2) \<and>
     Run_register 7 8 9 2 h1 = Done h2 \<and> Run_unregister 10 0 h2 = Panic CloseOfClosedChannel"
proof -
  obtain h1 where h1: "ws_admit None (cl_UserID ann) user_key [] demo_hub = Done (h1, 2)" using second_ann by blast
  show ?thesis
    using duplicate_login_panics [OF demo_reachable _ demo_clients(1) h1, of 7 8 9 10] h1 demo_clients(3)
    by (auto simp: demo_phases_def)
qed

section \<open>Goroutines and races\<close>

theorem direct_message_race_witness:
  "\<exists>h'. step_prog (SendToUser_prog ''bob'' hello (\<lambda>_. Halt)) demo_hub = Done (demo_hub, Deliver 1 hello Halt) \<and>
     ReadPump_exit 9 1 demo_hub = Done h' \<and> step_prog (Deliver 1 hello Halt) h' = Panic SendOnClosedChannel"
  using direct_message_race [OF demo_reachable, of "''bob''" 1 hello "\<lambda>_. Halt" 9] by (simp add: demo_maps)

definition lobby :: ChannelACL where
  "lobby = \<lparr>acl_Channel = ''lobby'', acl_Public = True, acl_MaxMembers = 1, acl_AllowedKeys = None, acl_Permissions = None\<rparr>"

definition lobby_hub :: Hub where
  "lobby_hub = demo_hub\<lparr>hb_acl := SetChannelACL lobby NewACLManager\<rparr>"

definition to_lobby :: Message where
  "to_lobby = hello\<lparr>m_Room := ''lobby''\<rparr>"

definition joining_threads :: threads where
  "joining_threads = idle(Reader 0 := handleJoinRoom_prog sample_env (\<lambda>_. 7) 0 ann to_lobby,
     Reader 1 := handleJoinRoom_prog sample_env (\<lambda>_. 7) 1 bob to_lobby)"

theorem join_limit_race_witness:
  "\<exists>h' th'. each perform (concat (replicate 4 [Step (Reader 0), Step (Reader 1)])) (lobby_hub, demo_phases, joining_threads) =
       Done (h', demo_phases, th') \<and> RoomMemberCount ''lobby'' h' = 2 \<and> GetChannelACL (hb_acl h') ''lobby'' = Some lobby \<and>
     acl_MaxMembers lobby = 1"
proof -
  have heap: "hb_heap lobby_hub 0 \<noteq> None" "hb_heap lobby_hub 1 \<noteq> None" using demo_clients by (simp_all add: lobby_hub_def)
  have empty: "map_of (Rooms lobby_hub) ''lobby'' = None" by (simp add: lobby_hub_def demo_hub_def)
  have rule: "GetChannelACL (hb_acl lobby_hub) ''lobby'' = Some lobby" by (simp add: lobby_hub_def lobby_def)
  have pass: "join_refusal sample_env c ''lobby'' lobby_hub = None" if "cl_JWTClaims c = None" for c
    using that empty by (simp add: join_refusal_def CanJoin_def CheckMaxMembers_def RoomMemberCount_def lobby_hub_def
        SetChannelACL_def NewACLManager_def lobby_def)
  have clients: "cl_JWTClaims ann = None" "cl_JWTClaims bob = None" "cl_ACLManager ann" "cl_ACLManager bob"
    by (simp_all add: ann_def bob_def demo_hub_def demo_client_def)
  have room: "m_Room to_lobby = ''lobby''" by (simp add: to_lobby_def)
  have max: "acl_MaxMembers lobby = 1" by (simp add: lobby_def)
  have threads: "joining_threads (Reader 0) = handleJoinRoom_prog sample_env (\<lambda>_. 7) 0 ann to_lobby"
    "joining_threads (Reader 1) = handleJoinRoom_prog sample_env (\<lambda>_. 7) 1 bob to_lobby"
    by (simp_all add: joining_threads_def)
  from join_limit_race [OF threads _ heap, of lobby demo_phases] clients pass [OF clients(1)] pass [OF clients(2)] rule empty max
  have "\<exists>h' th'. each perform (concat (replicate 4 [Step (Reader 0), Step (Reader 1)])) (lobby_hub, demo_phases, joining_threads) =
       Done (h', demo_phases, th') \<and> int (RoomMemberCount ''lobby'' h') = 1 + 1 \<and> GetChannelACL (hb_acl h') ''lobby'' = Some lobby"
    unfolding room by (simp add: members_def RoomMemberCount_def [of _ lobby_hub] del: replicate.simps) blast
  then show ?thesis using max by simp
qed

lemma early_reachable:
  "\<exists>h. reachable (h, [0 \<mapsto> Joining], idle) \<and> hb_heap h 0 = Some (demo_client ''ann'' []) \<and> Clients h = [] \<and>
     hb_sse h = Some NewSSEBroker"
proof -
  let ?e = "Connect None ''ann'' user_key ''chat''"
  obtain h where run: "perform ?e demo_boot = Done (h, [0 \<mapsto> Joining], idle)" "hb_heap h 0 = Some (demo_client ''ann'' [])"
    "Clients h = []" "hb_sse h = Some NewSSEBroker"
    by (simp add: demo_defs idle_def)
  have "enabled ?e demo_boot" by (simp add: demo_defs open_conn_def)
  then show ?thesis using reachable.step [OF reachable.boot _ run(1) [unfolded demo_boot_def]] run(2-4) by (auto simp: demo_boot_def)
qed

text \<open>The connection ends, the event loop announces that, and then registers it.\<close>

definition ghost_events :: "event list" where
  "ghost_events = [Step Loop, Step Loop, Step Loop, Step Loop, Registering 2 3 4 0]"

lemma ghost_enabled:
  assumes "hb_heap h 0 = Some (demo_client ''ann'' [])" and "Clients h = []" and "hb_sse h = Some NewSSEBroker"
  shows "enabled_run (Leaving 1 0 # ghost_events) (h, [0 \<mapsto> Joining], idle)"
  using assms
  by (simp add: ghost_events_def open_conn_def idle_def unregister_locked_def unregister_prog_def demo_defs close_conn_def user_of_def)

theorem early_leave_ghost_witness:
  "\<exists>h h' ph' th'. reachable (h, [0 \<mapsto> Joining], idle) \<and>
     each perform (Leaving 1 0 # ghost_events) (h, [0 \<mapsto> Joining], idle) = Done (h', ph', th') \<and>
     map_of (Clients h') ''ann'' = Some 0 \<and> 0 \<in> set (members (Rooms h') ''chat'')"
proof -
  obtain h where h: "reachable (h, [0 \<mapsto> Joining], idle)" "hb_heap h 0 = Some (demo_client ''ann'' [])" "Clients h = []"
    "hb_sse h = Some NewSSEBroker" using early_reachable by blast
  have reg: "Registering 2 3 4 0 \<in> set ghost_events"
    "\<forall>e \<in> set ghost_events. (\<forall>t'. e \<noteq> Leaving t' 0) \<and> (\<forall>env clk raw. e \<noteq> Receive env clk 0 raw)"
    by (auto simp: ghost_events_def)
  from early_leave_ghost [OF h(1) _ h(2) ghost_enabled [OF h(2-4)] reg] h(1) show ?thesis
    by (auto simp: demo_client_def simp del: each.simps)
qed

section \<open>The endpoint\<close>

definition ws_request :: http_request where
  "ws_request = \<lparr>rq_Method = ''GET'', rq_EscapedPath = ''/ws'',
     rq_Query = (\<lambda>n. if n = ''api_key'' then sample_name else if n = ''client_id'' then ''cat''
                     else if n = ''channel'' then ''chat'' else []),
     rq_Header = (\<lambda>_. []), rq_RemoteAddr = ''1.2.3.4:5'', rq_Body = []\<rparr>"

definition no_lib :: jwt_lib where
  "no_lib = \<lparr>NewNumericDate = id, SignedString = (\<lambda>_ _ _. Inl ''no key''), ParseWithClaims = (\<lambda>_ _. Inl ''malformed'')\<rparr>"

theorem ServeWS_gates_witness:
  "\<exists>h' c. ServeWS sample_env no_lib sample_store None True 5 ws_request demo_hub = Done (h', Upgraded 2) \<and>
     hb_heap h' 2 = Some c \<and> cl_UserID c = ''cat'' \<and> cl_Rooms c = [''chat'']"
proof -
  have ident: "ws_identity sample_env no_lib None 5 ws_request = Inr (None, ''cat'')"
    by (simp add: ws_identity_def ws_request_def Let_def)
  obtain h' where run: "ServeWS sample_env no_lib sample_store None True 5 ws_request demo_hub = Done (h', Upgraded 2)"
    using ident
    by (simp add: ServeWS_def Let_def request_key_def request_origin_def ws_request_def sample_store_def sample_name_def
        sample_key_def Validate_def CanJoin_def demo_hub_def NewACLManager_def ws_admit_def NewClient_def mark_room_def)
  have "user_of demo_hub q \<noteq> Some ''cat''" for q
    by (simp add: user_of_def demo_hub_def demo_client_def)
  then show ?thesis using ServeWS_gates [OF demo_inv run] ident run by (auto simp: ws_request_def)
qed

section \<open>Two nodes\<close>

definition linked :: "string \<Rightarrow> Bridge" where
  "linked node = \<lparr>vb_enabled = True, vb_client = True, vb_nodeID = node, vb_closed = False, vb_outbox = []\<rparr>"

definition star_glob :: "string \<Rightarrow> string \<Rightarrow> bool" where
  "star_glob p channel \<longleftrightarrow> p \<noteq> [] \<and> last p = CHR ''*'' \<and> prefix (butlast p) channel"

lemma star_glob_ok: "glob_star star_glob"
  by (simp add: glob_star_def star_glob_def)

lemma hello_decodes:
  "- (2 ^ 63) \<le> m_Timestamp hello" "m_Timestamp hello < 2 ^ 63"
  "to_iface (float_lit sample_env) (m_Payload hello) = Some (m_Payload hello)"
  "message_ok hello" "utf8 ''n1''"
  by (simp_all add: hello_def zero_Message_def sample_env_def message_ok_def utf8_ascii byte_in_def)

theorem room_message_crosses_nodes_witness:
  "\<exists>h' vb hB. BroadcastToRoom ''chat'' hello [] (demo_hub\<lparr>hb_valkey := Some (linked ''n1'')\<rparr>) = Done h' \<and>
     hb_valkey h' = Some vb \<and> map fst (vb_outbox vb) = [''synchub:room:chat''] \<and>
     incoming star_glob sample_env (linked ''n2'') ''synchub:room:chat'' (snd (hd (vb_outbox vb))) demo_hub = Done hB \<and>
     hub_inbox hB 0 = hub_inbox demo_hub 0 @ [wire hello]"
proof -
  let ?hA = "demo_hub\<lparr>hb_valkey := Some (linked ''n1'')\<rparr>"
  have "same_but_queues demo_hub ?hA" using hub_inv_parts(13) [OF demo_inv] by (simp add: same_but_queues_def queue_ok_def)
  from hub_inv_same [OF demo_inv this] have inv: "hub_inv demo_phases ?hA"
    using hub_inv_parts(1) [OF demo_inv] by simp
  obtain h' where run: "BroadcastToRoom ''chat'' hello [] ?hA = Done h'"
    using keepsD [OF keeps_BroadcastToRoom inv] by blast
  have rooms: "map_of (Rooms ?hA) ''chat'' \<noteq> None" by (simp add: demo_hub_def)
  have node: "vb_enabled (linked ''n1'')" "vb_client (linked ''n1'')" "vb_nodeID (linked ''n2'') \<noteq> vb_nodeID (linked ''n1'')"
    "vb_nodeID (linked ''n1'') = ''n1''" "vb_outbox (linked ''n1'') = []"
    "\<not> vb_closed (linked ''n1'')" "vb_enabled (linked ''n2'')" "vb_client (linked ''n2'')" "\<not> vb_closed (linked ''n2'')"
    by (simp_all add: linked_def)
  from room_message_crosses_nodes [OF inv run rooms _ node(1,2,6) star_glob_ok node(7-9) demo_inv node(3), of sample_env]
  obtain data vb hB where "hb_valkey h' = Some vb" "vb_outbox vb = [(ChannelRoom @ ''chat'', data)]"
    "incoming star_glob sample_env (linked ''n2'') (ChannelRoom @ ''chat'') data demo_hub = Done hB"
    "hub_inbox hB 0 = push (send_cap demo_hub 0) (hub_inbox demo_hub 0) (wire hello)"
    using hello_decodes node(4,5) by (auto simp: demo_maps)
  then show ?thesis using run demo_queues by (auto simp: push_def ChannelRoom_def)
qed

end
