(* ===== verification/ServerDemo.thy ===== *)
theory ServerDemo
  imports ServerSystem HubDemo
begin

text \<open>The theorems of the HTTP API applied to a server with the two connected users.\<close>

definition demo_store :: APIKeyStore where
  "demo_store = \<lparr>keys = [(user_key, Some (sample_key\<lparr>ak_Key := user_key\<rparr>))], keys_nil = False, disk = None\<rparr>"

definition demo_server :: Server where
  "demo_server = \<lparr>sv_keys = demo_store, sv_hub = demo_hub, sv_webhooks = NewManager, sv_jwt = None,
     sv_globalLimiter = NewRateLimiter 100 60, sv_publishLimiter = NewRateLimiter 200 60,
     sv_keyLimiter = NewKeyRateLimiter 1000 60, sv_deliveries = []\<rparr>"

definition news_item :: publish_req where
  "news_item = \<lparr>pr_Channel = ''chat'', pr_Event = ''alert'', pr_Data = JNull, pr_Publisher = ''ops''\<rparr>"

lemma demo_server_parts:
  "sv_hub demo_server = demo_hub" "sv_keys demo_server = demo_store" "hb_sse demo_hub = Some NewSSEBroker"
  by (simp_all add: demo_server_def demo_hub_def)

lemma demo_store_ok: "store_ok demo_store"
  by (simp add: store_ok_def demo_store_def sample_key_def user_key_def gomap_ok_def)

theorem publish_delivers_witness:
  "\<exists>sv' resp. publish_deliver 7 8 news_item demo_server = Done (sv', resp) \<and> rs_Status resp = 200 \<and>
     hub_inbox (sv_hub sv') 1 = hub_inbox demo_hub 1 @ [wire (publish_message 7 news_item)]"
proof -
  have space: "hub_space demo_hub 1" using demo_queues by (simp add: hub_space_cap)
  have room: "1 \<in> set (members (Rooms demo_hub) (pr_Channel news_item))" by (simp add: news_item_def demo_maps)
  have inv: "hub_inv demo_phases (sv_hub demo_server)" by (simp add: demo_server_parts demo_inv)
  have sse: "hb_sse (sv_hub demo_server) = Some NewSSEBroker" by (simp add: demo_server_parts)
  from publish_delivers [OF inv sse, of 7 8 news_item] space room show ?thesis
    unfolding demo_server_parts by metis
qed

definition revoke_request :: http_request where
  "revoke_request = \<lparr>rq_Method = ''DELETE'', rq_EscapedPath = ''/api/keys/revoke'',
     rq_Query = (\<lambda>n. if n = ''key'' then user_key else []), rq_Header = (\<lambda>_. []), rq_RemoteAddr = ''1.2.3.4:5'', rq_Body = []\<rparr>"

theorem revoke_takes_effect_witness:
  "\<exists>sv' resp. handle_revoke True None revoke_request demo_server = Done (sv', resp) \<and> rs_Status resp = 200 \<and>
     Validate id (sv_keys sv') user_key [] = Done (Inl ''API key is deactivated'') \<and>
     map_option cl_conn_closed (hb_heap (sv_hub sv') 0) = Some True"
proof -
  have inv: "hub_inv demo_phases (sv_hub demo_server)" by (simp add: demo_server_parts demo_inv)
  have sse: "hb_sse (sv_hub demo_server) = Some NewSSEBroker" by (simp add: demo_server_parts)
  have ok: "store_ok (sv_keys demo_server)" by (simp add: demo_server_parts demo_store_ok)
  have key: "rq_Query revoke_request ''key'' = user_key" "user_key \<noteq> []"
    "Get (sv_keys demo_server) user_key = Some (sample_key\<lparr>ak_Key := user_key\<rparr>)"
    by (simp_all add: revoke_request_def user_key_def demo_server_parts demo_store_def Get_def)
  have "0 \<in> set (map snd (Clients demo_hub)) \<and> has_key demo_hub user_key 0"
    using demo_clients by (simp add: demo_maps has_key_def)
  with revoke_takes_effect [OF inv sse ok key, of True None] show ?thesis
    unfolding demo_server_parts by blast
qed

definition protected :: ChannelACL where
  "protected = \<lparr>acl_Channel = ''chat'', acl_Public = False, acl_MaxMembers = 0, acl_AllowedKeys = None,
     acl_Permissions = Some [(''ann'', ''admin'')]\<rparr>"

definition protected_server :: Server where
  "protected_server = demo_server\<lparr>sv_hub := demo_hub\<lparr>hb_acl := SetChannelACL protected NewACLManager\<rparr>\<rparr>"

definition publish_body :: json where
  "publish_body = JObj [(''channel'', JStr ''chat''), (''publisher'', JStr ''ann'')]"

lemma publish_body_ok: "json_ok maxNestingDepth publish_body" "length (json_text publish_body) \<le> 2 ^ 20"
proof -
  show "json_ok maxNestingDepth publish_body"
    by (simp add: publish_body_def maxNestingDepth_def utf8_ascii byte_in_def)
  have "length (json_text publish_body) = 36" by code_simp
  then show "length (json_text publish_body) \<le> 2 ^ 20" by simp
qed

definition publish_request :: http_request where
  "publish_request = \<lparr>rq_Method = ''POST'', rq_EscapedPath = ''/publish'', rq_Query = (\<lambda>_. []),
     rq_Header = (\<lambda>n. if n = ''X-API-Key'' then user_key else []), rq_RemoteAddr = ''1.2.3.4:5'',
     rq_Body = json_text publish_body\<rparr>"

theorem publish_refused_on_protected_channel_witness:
  "\<exists>sv' resp. handle_publish sample_env 1 2 3 4 publish_request protected_server = Done (sv', resp) \<and>
     400 \<le> rs_Status resp \<and> hub_inbox (sv_hub sv') = hub_inbox (sv_hub protected_server)"
proof -
  let ?q = "\<lparr>pr_Channel = ''chat'', pr_Event = [], pr_Data = JNull, pr_Publisher = ''ann''\<rparr>"
  have q: "decode_publish sample_env (rq_Body publish_request) = Some ?q"
    using json_decode_limited_json_text [OF publish_body_ok]
    by (simp add: publish_request_def publish_body_def decode_publish_def decode_struct_def set_publish_field_def decode_str_def)
  have acl: "GetChannelACL (hb_acl (sv_hub protected_server)) (pr_Channel ?q) = Some protected"
    by (simp add: protected_server_def protected_def)
  have "Validate (unicode_lower sample_env) (sv_keys protected_server) (header_key publish_request)
      (request_origin publish_request) = Done (Inr (sample_key\<lparr>ak_Key := user_key\<rparr>))"
    by (simp add: Validate_def protected_server_def demo_server_parts demo_store_def header_key_def request_origin_def
        publish_request_def sample_key_def user_key_def)
  then obtain sv' resp where run: "handle_publish sample_env 1 2 3 4 publish_request protected_server = Done (sv', resp)"
    using q acl
    by (auto simp: handle_publish_def publish_request_def Let_def KeyRateLimiter_Allow_def protected_server_def demo_server_def
        NewKeyRateLimiter_def CanWrite_def GetChannelACL_def protected_def)
  show ?thesis using publish_refused_on_protected_channel [OF run q acl] run by (auto simp: protected_def)
qed

theorem token_ttl_bounds_witness: "token_ttl 3600 = 3600000000000 \<and> token_ttl 9223372037 < 0"
  using token_ttl_bounds [of 3600] by simp

section \<open>Management requests\<close>

definition admin_request :: "string \<Rightarrow> string \<Rightarrow> string \<Rightarrow> http_request" where
  "admin_request meth path body = \<lparr>rq_Method = meth, rq_EscapedPath = path,
     rq_Query = (\<lambda>n. if n = ''channel'' then ''chat'' else []), rq_Header = (\<lambda>_. []), rq_RemoteAddr = ''1.2.3.4:5'', rq_Body = body\<rparr>"

definition create_body :: json where
  "create_body = JObj [(''name'', JStr ''shop''), (''domains'', JArr [JStr ''*'' ])]"

lemma create_body_decodes: "decode_create (json_text create_body) = Some \<lparr>cr_Name = ''shop'', cr_Domains = Some [''*'']\<rparr>"
proof -
  have "json_ok maxNestingDepth create_body" by (simp add: create_body_def maxNestingDepth_def utf8_ascii byte_in_def)
  from decode_json_text [OF this] show ?thesis
    by (simp add: decode_create_def create_body_def decode_struct_def set_create_field_def decode_str_def decode_str_slice_def)
qed

definition zeros :: random_source where
  "zeros n = Inr (replicate n 0)"

theorem created_key_accepted_witness:
  "\<exists>sv' resp k. handle_keys zeros 5 True None (admin_request ''POST'' ''/api/keys'' (json_text create_body)) demo_server =
     Done (sv', resp) \<and> rs_Status resp = 200 \<and> ak_Name k = ''shop'' \<and> Validate id (sv_keys sv') (ak_Key k) [] = Done (Inr k)"
proof -
  let ?q = "\<lparr>cr_Name = ''shop'', cr_Domains = Some [''*'']\<rparr>" and ?r = "admin_request ''POST'' ''/api/keys'' (json_text create_body)"
  have "store_ok (sv_keys demo_server)" by (simp add: demo_server_parts demo_store_ok)
  moreover have "rq_Method ?r = ''POST''" "decode_create (rq_Body ?r) = Some ?q"
    by (simp_all add: admin_request_def create_body_decodes)
  moreover have "cr_Name ?q \<noteq> []" "elems (cr_Domains ?q) \<noteq> []" by simp_all
  moreover have "zeros 32 = Inr (replicate 32 0)" "length (replicate 32 (0 :: 8 word)) = 32" by (simp_all add: zeros_def)
  ultimately obtain sv' resp k where "handle_keys zeros 5 True None ?r demo_server = Done (sv', resp)" "rs_Status resp = 200"
    "ak_Key k = EncodeToString (replicate 32 0)" "ak_Name k = ''shop''"
    and later: "\<forall>ops s. each store_step ops (sv_keys sv') = Done s \<longrightarrow> (\<forall>op \<in> set ops. \<not> names_key (ak_Key k) op) \<longrightarrow>
      (\<forall>origin. Validate id s (ak_Key k) origin = Done (Inr k) \<longleftrightarrow> origin = [] \<or> ExtractHost origin \<noteq> [])"
    using created_key_accepted [of demo_server ?r ?q zeros "replicate 32 0" 5 True None id] by auto
  moreover have "Validate id (sv_keys sv') (ak_Key k) [] = Done (Inr k)" using later [rule_format, of "[]" "sv_keys sv'" "[]"] by simp
  ultimately show ?thesis by blast
qed

lemma protected_ok: "acl_utf8 protected" "gomap_ok (elems (acl_Permissions protected))" "acl_MaxMembers protected = 0"
  "acl_Channel protected = ''chat''" "sorted_acl protected = protected"
  by (simp_all add: protected_def acl_utf8_def gomap_ok_def sorted_acl_def utf8_ascii byte_in_def)

theorem acl_endpoint_roundtrip_witness:
  "\<exists>sv1 resp1 resp2. handle_acl (admin_request ''POST'' ''/acl'' (json_text (ChannelACL_json protected) @ [CHR 0x0A])) demo_server =
       Done (sv1, resp1) \<and>
     handle_acl (admin_request ''GET'' ''/acl'' []) sv1 = Done (sv1, resp2) \<and> decode_ACL (rs_Body resp2) = Some protected \<and>
     GetChannelACL (hb_acl (sv_hub sv1)) ''chat'' = Some protected"
proof -
  let ?post = "admin_request ''POST'' ''/acl'' (json_text (ChannelACL_json protected) @ [CHR 0x0A])"
  have "decode_ACL (rq_Body ?post) = Some protected"
    using decode_ACL_reply [OF protected_ok(1,2)] by (simp add: admin_request_def protected_ok)
  moreover have "acl_Channel protected \<noteq> []" "rq_Method ?post = ''POST''" "rq_Method (admin_request ''GET'' ''/acl'' []) = ''GET''"
    "rq_Method (admin_request ''DELETE'' ''/acl'' []) = ''DELETE''"
    "rq_Query (admin_request ''GET'' ''/acl'' []) ''channel'' = acl_Channel protected"
    "rq_Query (admin_request ''DELETE'' ''/acl'' []) ''channel'' = acl_Channel protected"
    "- (2 ^ 63) \<le> acl_MaxMembers protected" "acl_MaxMembers protected < 2 ^ 63"
    by (simp_all add: admin_request_def protected_ok)
  ultimately show ?thesis
    using acl_endpoint_roundtrip [of ?post protected "admin_request ''GET'' ''/acl'' []" "admin_request ''DELETE'' ''/acl'' []" demo_server]
      protected_ok by auto
qed

section \<open>The whole server\<close>

definition demo_world :: world where
  "demo_world = \<lparr>w_go = sample_env, w_jwt = no_lib, w_rand = zeros, w_limit0 = 1, w_limit1 = 2, w_key0 = 3, w_key1 = 4, w_now = 5,
     w_later = 6, w_secs = id, w_uptime = ''1.00'', w_elapsed = ''1ms'', w_write_ok = True, w_junk = None, w_ping = True,
     w_flusher = True, w_upgrade = True, w_redirect = (\<lambda>r p. http_Error p 301), w_index = (\<lambda>r. json_reply [])\<rparr>"

definition fresh_server :: Server where
  "fresh_server = main_state None [] [] (\<lambda>_. False) zeros [] 0"

lemma fresh_server_reachable: "server_reachable (fresh_server, Map.empty, \<lambda>_. Halt)"
  unfolding fresh_server_def
  by (rule server_reachable.start) (simp add: NewAPIKeyStore_def load_def store_ok_def gomap_ok_def)

lemma fresh_server_world: "fills (w_rand demo_world)" "unknown_user demo_world r fresh_server"
  by (simp_all add: fills_def demo_world_def zeros_def unknown_user_def fresh_server_def main_state_def SetSSE_def SetValkey_def
      Hub_New_def hub_live_def)

theorem server_never_panics_witness:
  "\<exists>sv' lg' res. serve_request demo_world (admin_request ''POST'' ''/api/keys'' (json_text create_body)) (fresh_server, []) =
     Done ((sv', lg'), res) \<and> server_ok (phases_after res Map.empty) sv'"
  using server_never_panics [OF fresh_server_reachable] fresh_server_world by blast
















end
