(* ===== verification/Locks.thy ===== *)
theory Locks
  imports Prelude
begin

text \<open>
  The locks and the blocking channels of the server, beside the data they protect. The other theories run a critical section in one
  step, so nothing there can wait for ever; this one keeps only what a goroutine can wait for: the nine mutexes, and the two unbuffered channels
  of the event loop. For each function of the code it lists its paths, the sequences of these operations that its branches can
  go through (other calls, the sends with a \<^verbatim>\<open>default\<close> case and the network are left out), and composes them as the code calls them. The
  third channel, \<^verbatim>\<open>Broadcast\<close>, has no sender in the code.
\<close>

datatype lock = HubMu | BrokerMu | ReplayMu | AclMu | KeysMu | HooksMu | GlobalLimiterMu | PublishLimiterMu | KeyLimiterMu

datatype mode = Writer | Reader

datatype request = ToRegister | ToUnregister

datatype sync = Take mode lock | Drop mode lock | Send request

type_synonym path = "sync list"

definition locked :: "lock \<Rightarrow> path" where
  "locked m = [Take Writer m, Drop Writer m]"

definition rlocked :: "lock \<Rightarrow> path" where
  "rlocked m = [Take Reader m, Drop Reader m]"

text \<open>One after the other, and the early returns between critical sections.\<close>

definition seq :: "path list \<Rightarrow> path list \<Rightarrow> path list" where
  "seq ps qs = concat (map (\<lambda>p. map ((@) p) qs) ps)"

fun early :: "path list \<Rightarrow> path list" where
  "early [] = [[]]"
| "early (p # ps) = [] # map ((@) p) (early ps)"

section \<open>The paths of the functions\<close>

definition Publish_locks :: path where
  "Publish_locks = locked ReplayMu @ rlocked BrokerMu"

definition PublishAll_locks :: path where
  "PublishAll_locks = rlocked BrokerMu"

definition ClientCount_locks :: path where
  "ClientCount_locks = rlocked HubMu"

definition BroadcastToRoom_locks :: "path list" where
  "BroadcastToRoom_locks = [rlocked HubMu, rlocked HubMu @ rlocked HubMu @ Publish_locks]"

definition BroadcastMessage_locks :: path where
  "BroadcastMessage_locks = rlocked HubMu @ PublishAll_locks"

text \<open>What the event loop does with a client it has received.\<close>

fun Run_locks :: "request \<Rightarrow> path" where
  "Run_locks ToRegister = locked HubMu @ ClientCount_locks @ BroadcastMessage_locks"
| "Run_locks ToUnregister = locked HubMu @ ClientCount_locks @ BroadcastMessage_locks"

definition SendToUser_locks :: path where
  "SendToUser_locks = rlocked HubMu"

definition handleJoinRoom_locks :: "path list" where
  "handleJoinRoom_locks = early [rlocked AclMu, rlocked HubMu @ rlocked AclMu] @
     seq [rlocked AclMu @ rlocked HubMu @ rlocked AclMu @ locked HubMu] BroadcastToRoom_locks"

definition handleLeaveRoom_locks :: "path list" where
  "handleLeaveRoom_locks = [] # seq [locked HubMu] BroadcastToRoom_locks"

definition handleRoomMessage_locks :: "path list" where
  "handleRoomMessage_locks = early [rlocked AclMu] @ seq [rlocked AclMu] BroadcastToRoom_locks"

definition handleMessage_locks :: "path list" where
  "handleMessage_locks = [[], BroadcastMessage_locks, SendToUser_locks] @ handleJoinRoom_locks @ handleLeaveRoom_locks @
     handleRoomMessage_locks"


definition ServeWS_locks :: "path list" where
  "ServeWS_locks = early [rlocked KeysMu, rlocked AclMu] @
     [rlocked KeysMu @ [Send ToRegister], rlocked KeysMu @ rlocked AclMu @ locked HubMu @ [Send ToRegister]]"

definition ServeSSE_locks :: "path list" where
  "ServeSSE_locks = early [rlocked KeysMu] @
     seq [rlocked KeysMu @ locked BrokerMu] [locked BrokerMu, rlocked ReplayMu @ locked BrokerMu]"

definition RateLimitMiddleware_locks :: "lock \<Rightarrow> path list \<Rightarrow> path list" where
  "RateLimitMiddleware_locks m next = locked m # seq [locked m] next"

text \<open>The handlers of \<^verbatim>\<open>main\<close>, in its order.\<close>

definition publish_locks :: "path list" where
  "publish_locks = early [rlocked KeysMu, locked KeyLimiterMu, rlocked KeysMu, rlocked AclMu] @
     seq [rlocked KeysMu @ locked KeyLimiterMu] (seq [[], rlocked KeysMu]
       (rlocked AclMu # [rlocked AclMu @ rlocked HubMu @ Publish_locks @ rlocked HooksMu]))"

definition http_locks :: "path list" where
  "http_locks =
     concat (map (RateLimitMiddleware_locks GlobalLimiterMu)
       [[[], locked KeysMu, rlocked KeysMu],
        [[], locked KeysMu],
        early [locked KeysMu, locked HubMu @ locked BrokerMu],
        ServeSSE_locks,
        ServeWS_locks,
        early [rlocked KeysMu, rlocked HubMu],
        [[], locked HooksMu, rlocked HooksMu],
        [[], locked AclMu, rlocked AclMu],
        early [rlocked KeysMu]]) @
     RateLimitMiddleware_locks PublishLimiterMu publish_locks @
     [rlocked HubMu @ rlocked HubMu @ rlocked BrokerMu,
      rlocked HubMu @ rlocked HubMu @ rlocked HubMu @ rlocked HubMu @ rlocked BrokerMu,
      []]"

text \<open>A message from another node, and the cleanups of the limiters.\<close>

definition handleIncomingMessage_locks :: "path list" where
  "handleIncomingMessage_locks = [[], rlocked HubMu]"

definition cleanup_locks :: "path list" where
  "cleanup_locks = [locked GlobalLimiterMu, locked PublishLimiterMu, locked KeyLimiterMu]"


section \<open>Running them\<close>






text \<open>The operations of a path, with those of the event loop that it causes.\<close>

fun work :: "path \<Rightarrow> nat" where
  "work [] = 0"
| "work (Send r # p) = 1 + length (Run_locks r) + work p"
| "work (_ # p) = 1 + work p"


section \<open>No path nests its locks\<close>

fun unnested :: "path \<Rightarrow> bool" where
  "unnested [] = True"
| "unnested (Send r # p) = unnested p"
| "unnested (Take md m # Drop md' m' # p) = (md = md' \<and> m = m' \<and> unnested p)"
| "unnested _ = False"



lemma unnested_sections [simp]: "unnested (locked m @ p) = unnested p" "unnested (rlocked m @ p) = unnested p"
  "unnested (locked m)" "unnested (rlocked m)"
  by (simp_all add: locked_def rlocked_def)

lemmas lock_defs = Publish_locks_def PublishAll_locks_def ClientCount_locks_def BroadcastToRoom_locks_def BroadcastMessage_locks_def
  SendToUser_locks_def handleJoinRoom_locks_def handleLeaveRoom_locks_def handleRoomMessage_locks_def handleMessage_locks_def
  ServeWS_locks_def ServeSSE_locks_def RateLimitMiddleware_locks_def publish_locks_def http_locks_def handleIncomingMessage_locks_def
  cleanup_locks_def seq_def


lemma work_Run_locks [simp]: "work (Run_locks r) = length (Run_locks r)"
  by (cases r) (simp_all add: lock_defs locked_def rlocked_def)













section \<open>Property\<close>




end
