(* ===== verification/Spec2Isabelle.thy ===== *)
theory Spec2Isabelle
  imports ServerDemo Locks
begin

text \<open>
  \<^bold>\<open>SyncHub: the Go message broker (src/ws-go).\<close> Browsers hold WebSocket connections or SSE streams to
  the broker; back ends publish over HTTP; several nodes are joined by a Valkey (Redis) pub/sub bridge.
  API keys, JWTs and channel access lists decide who may do what. This development models the whole of
  the server's own logic and proves what its parts promise to each other.

  \<^bold>\<open>The parts and how they interact.\<close>
  \<^item> The hub (\<^verbatim>\<open>internal/hub/hub.go\<close>) keeps the connected clients by user ID and the rooms. Its
    event loop takes registrations, departures and raw broadcasts; the pumps of each connection
    (\<^verbatim>\<open>internal/hub/client.go\<close>) read messages, act on the hub and write each client's queue
    of 256 entries to its socket. A room message goes to the queues of the room, to the SSE broker and to the bridge.
  \<^item> The SSE broker (\<^verbatim>\<open>internal/transport/sse.go\<close>) keeps subscriptions per channel and the last 100
    events of each channel, which it replays to a stream that reconnects.
  \<^item> The bridge (\<^verbatim>\<open>internal/valkey/valkey.go\<close>) wraps a message with the name of its node; a node
    ignores what it published itself and delivers the rest locally.
  \<^item> The endpoints \<^verbatim>\<open>/ws\<close> and \<^verbatim>\<open>/subscribe\<close> admit connections by key, origin, token and rule; the handlers of
    \<^verbatim>\<open>cmd/server/main.go\<close> publish, manage keys, webhooks and access rules, issue tokens and report, behind two rate
    limiters and the CORS and logging middleware.

  \<^bold>\<open>The theories, in the order they build on each other.\<close>
  \<^item> \<open>Prelude\<close>: completed or panicking statements (\<open>outcome\<close>, \<open>and_then\<close>, \<open>each\<close> for a loop over a
    collection), Go maps as association lists with distinct keys, and the locales \<open>fanout\<close> and
    \<open>counted_fanout\<close>: a loop of non-blocking sends reaches every live recipient that has space, leaves the
    others alone and counts right. The hub (\<open>ws\<close>), the SSE broker (\<open>sse\<close>) and \<^verbatim>\<open>/publish\<close> (\<open>pub\<close>)
    interpret them.
  \<^item> \<open>GoChan\<close>, \<open>GoText\<close>, \<open>GoUrl\<close>, \<open>Json\<close>, \<open>JsonScan\<close>, \<open>Http\<close>: what the source uses of the language and its
    library: buffered channels, \<^verbatim>\<open>strings\<close>, \<^verbatim>\<open>strconv\<close>, \<^verbatim>\<open>url.Parse\<close>, JSON printing and the
    struct decoder, requests and replies. \<open>JsonScan\<close> is the byte scanner of \<^verbatim>\<open>encoding/json\<close>, with its escapes, its UTF-8
    repair and its nesting limit; it shows that the text of either writer is read back as the value it was written from.
  \<^item> \<open>Metrics\<close> (\<^verbatim>\<open>metrics.go\<close>), \<open>Messages\<close> (\<^verbatim>\<open>message.go\<close>), \<open>Jwt\<close> (\<^verbatim>\<open>jwt.go\<close>), \<open>Acl\<close> (\<^verbatim>\<open>acl.go\<close>),
    \<open>ApiKeys\<close> (\<^verbatim>\<open>apikey.go\<close>), \<open>RateLimit\<close> (\<^verbatim>\<open>middleware.go\<close>), \<open>Webhooks\<close> (\<^verbatim>\<open>webhook.go\<close>): one record
    per struct and one definition per function, under the name of the source. Their lemmas give the
    functional behaviour on every branch (which key is accepted, which rule decides, which webhook is
    called), the round trips of messages, tokens and the key file, and the exact limit of the two
    rate limiters, which are two interpretations of the locale \<open>cleaned_limiter\<close>.
  \<^item> \<open>SseBroker\<close> and \<open>SseHandler\<close> (\<^verbatim>\<open>sse.go\<close>): the invariant of the broker, exact delivery,
    what the replay buffer holds after any run of operations, and what a reconnecting stream is sent.
  \<^item> \<open>HubCore\<close> (\<^verbatim>\<open>hub.go\<close>), \<open>WsClient\<close> (\<^verbatim>\<open>client.go\<close>), \<open>WsTransport\<close> (\<^verbatim>\<open>websocket.go\<close>), \<open>Valkey\<close> and
    \<open>ValkeyIncoming\<close> (\<^verbatim>\<open>valkey.go\<close>): the operations. \<open>HubInvariant\<close> and \<open>WsSession\<close> hold the invariant of the hub, that every
    operation keeps it, and what each handler delivers.
  \<^item> \<open>HubThreads\<close> cuts the handlers at the places where the code holds no lock; \<open>HubSystem\<close> is the state machine of the
    goroutines, with the invariant over all interleavings; \<open>HubFrames\<close> shows what no operation takes back (clients, memberships,
    queued messages), for every event and every run; \<open>HubRaces\<close> shows what happens where an assumption of the machine
    fails and where its interleavings do what nobody wants. \<open>HubDemo\<close> runs the machine on two users in one room.
  \<^item> \<open>HttpServer\<close> and \<open>AdminApi\<close> (\<^verbatim>\<open>main.go\<close>): the state that \<^verbatim>\<open>main\<close> shares among the handlers, and the handlers.
    \<open>Routing\<close>: the routes, the limiters and the middleware around them. \<open>ServerSafety\<close>: the invariant of the server, with the
    locale \<open>rate_limited\<close> for a limiter in front of a handler. \<open>ServerFrames\<close> continues \<open>HubFrames\<close> for the requests. \<open>ServerSystem\<close>: the state machine
    of the whole server, with labelled steps, its runs and what they write to sockets and streams; an accepted publication arrives in every run.
    \<open>ServerDemo\<close> applies their theorems to concrete servers and requests.
  \<^item> \<open>Locks\<close> stands beside the machines, which run a critical section in one step: the mutexes and the channels of the event loop
    alone, with the paths each function takes through them, and that no interleaving of any number of goroutines is stuck.

  \<^bold>\<open>State, steps and panics.\<close> Objects that several maps and goroutines share (a \<^verbatim>\<open>*Client\<close>, an
  \<^verbatim>\<open>*SSEClient\<close>) live in an explicit heap. A step of \<open>HubSystem\<close> is what one goroutine does without giving up the lock of the
  hub, or one send through a pointer it had looked up before; the steps come in any order. The mutex serialises
  them except for the queues: loops that only hold the read lock may mix their non-blocking sends, so two messages
  can reach two queues in different orders. In \<open>ServerSystem\<close> a request to an HTTP handler is one step, and so are
  a round of an open stream, its end and a webhook delivery. The guards of the two machines are, beside what the
  code itself waits for, these assumptions: a user ID is used by one open connection at a time; no client leaves while a
  direct message is on its way to it; \<^verbatim>\<open>Unsubscribe\<close> is not called for a stream whose key was revoked; a revoked key has
  at least eight bytes (every key the server makes has 64); the key file was written by the server; the random source fills its buffer. A
  connection may end before its registration. The phases of a connection are ghost state. A send on a closed channel, a second \<^verbatim>\<open>close\<close>, a nil
  dereference, an assignment to a nil map and a slice out of range are the values \<open>Panic\<close> of the result; \<open>system_never_panics\<close> and
  \<open>server_never_panics\<close> show that no reachable state meets them, and \<open>duplicate_login_panics\<close>,
  \<open>direct_message_race\<close> and \<open>dropped_client_panics\<close> what happens when one of the first three assumptions is given up.

  \<^bold>\<open>Bounds.\<close> Counters, the limiters' counts included, and durations are 64-bit words and wrap; a difference of two times saturates as
  \<^verbatim>\<open>time.Time.Sub\<close> does. The queues have the capacities of the
  source (256 and 64). Every definition is a total function on lists and maps: no loop is cut off and there is no fuel. The \<^verbatim>\<open>for\<close>
  loops that serve a connection for its lifetime are modelled round by round. The order in which a Go
  map is iterated is the order of the list: the theorems hold for every such order.

  \<^bold>\<open>Parameters.\<close> How a number literal is rounded to a \<^verbatim>\<open>float64\<close> and the Unicode case tables (\<open>go_env\<close>), the JWT library
  (\<open>jwt_lib\<close>), the pattern matching of the Valkey service (\<open>glob_star\<close> is the law of it that is used), the random source,
  the clock, the file system, the upgrade of the WebSocket library, the success of a socket write and the answer of a webhook's server are
  arguments; those a request reads are the fields of the record \<open>world\<close>. A theorem that relies on one of them says so in a hypothesis.

  \<^bold>\<open>Not modelled.\<close> The log lines other than those of the logging middleware, the listener and its timeouts, redirects and static files
  (responses of \<^verbatim>\<open>net/http\<close>, given as parameters), socket deadlines and the pong handler, the tests, the Elixir server and the browser client. A
  data race is not a step of the model: \<^verbatim>\<open>GenerateKey\<close> saves the store after it has released the lock, and here its two parts are one.
\<close>

end
